(* ===== verification/Prelude.thy ===== *)
theory Prelude
  imports Main "HOL-Library.Word" "HOL-Library.AList" "HOL-Library.Code_Target_Numeral"
begin

text \<open>
  Shared vocabulary of the development: the machine integers and byte strings of the
  Rust sources, the result type with every error and panic as a value, checked indexing
  and slicing, little- and big-endian integer encodings, UTF-8 as the Rust standard
  library validates and repairs it, and hash maps as association lists.  The generic
  lemmas proved here are collected in \<open>wire_simps\<close> (reading back bytes that were just
  written) and \<open>no_panic\<close> (an access that is in range does not panic).
\<close>

unbundle bit_operations_syntax

named_theorems wire_simps \<open>reading back an encoded field\<close>
named_theorems no_panic \<open>checked accesses that stay in range\<close>

section \<open>Machine types\<close>

type_synonym u8 = "8 word"
type_synonym u16 = "16 word"
type_synonym u32 = "32 word"
type_synonym u64 = "64 word"
type_synonym u128 = "128 word"
type_synonym bytes = "u8 list"

text \<open>A Rust \<open>String\<close> is its UTF-8 bytes; an \<open>f32\<close> is its IEEE-754 bit pattern.\<close>

type_synonym rstring = bytes
type_synonym f32 = u32

text \<open>
  \<open>Instant\<close> and \<open>Duration\<close> are nanoseconds since the start of the process, so that
  \<open>saturating_duration_since\<close> is the truncated subtraction of the natural numbers.
\<close>

type_synonym instant = nat
type_synonym duration = nat

abbreviation (input) from_millis :: "nat \<Rightarrow> duration" where "from_millis n \<equiv> n * 1000000"
abbreviation (input) from_secs :: "nat \<Rightarrow> duration" where "from_secs n \<equiv> n * 1000000000"

section \<open>Results\<close>

text \<open>
  The error type of \<open>aivpn_common::error\<close>.  \<open>Panic\<close> is added for a Rust panic (an index
  or a slice out of range, an \<open>unwrap\<close> of nothing), so that the absence of panics is a
  statement about values.  Messages are display text; the ones that are not ASCII in the
  source are written in English.
\<close>

datatype error =
    InvalidPacket string
  | Crypto string
  | Io string
  | Serialization string
  | SessionError string
  | MaskError string
  | Channel string
  | Panic

type_synonym 'a result = "error + 'a"

definition bind :: "'a result \<Rightarrow> ('a \<Rightarrow> 'b result) \<Rightarrow> 'b result" where
  "bind r f = (case r of Inl e \<Rightarrow> Inl e | Inr x \<Rightarrow> f x)"

lemma bind_simps [simp]:
  "bind (Inl e) f = Inl e"
  "bind (Inr x) f = f x"
  by (simp_all add: bind_def)

lemma bind_eq_Inr: "bind r f = Inr y \<longleftrightarrow> (\<exists>x. r = Inr x \<and> f x = Inr y)"
  by (cases r) auto

lemma bind_eq_Inl: "bind r f = Inl e \<longleftrightarrow> r = Inl e \<or> (\<exists>x. r = Inr x \<and> f x = Inl e)"
  by (cases r) auto

lemma bind_no_panic [no_panic]:
  "r \<noteq> Inl Panic \<Longrightarrow> (\<And>x. r = Inr x \<Longrightarrow> f x \<noteq> Inl Panic) \<Longrightarrow> bind r f \<noteq> Inl Panic"
  by (cases r) auto

section \<open>Checked access to byte strings\<close>

definition idx :: "'a list \<Rightarrow> nat \<Rightarrow> 'a result" where
  "idx xs i = (if i < length xs then Inr (xs ! i) else Inl Panic)"

definition slice :: "'a list \<Rightarrow> nat \<Rightarrow> nat \<Rightarrow> 'a list result" where
  "slice xs i j = (if i \<le> j \<and> j \<le> length xs then Inr (take (j - i) (drop i xs)) else Inl Panic)"

lemma idx_in [simp]: "i < length xs \<Longrightarrow> idx xs i = Inr (xs ! i)"
  by (simp add: idx_def)

lemma slice_in [simp]:
  "i \<le> j \<Longrightarrow> j \<le> length xs \<Longrightarrow> slice xs i j = Inr (take (j - i) (drop i xs))"
  by (simp add: slice_def)

lemma idx_eq_Inr: "idx xs i = Inr x \<longleftrightarrow> i < length xs \<and> x = xs ! i"
  by (auto simp: idx_def)

lemma slice_eq_Inr:
  "slice xs i j = Inr ys \<longleftrightarrow> i \<le> j \<and> j \<le> length xs \<and> ys = take (j - i) (drop i xs)"
  by (auto simp: slice_def)

lemma length_slice: "slice xs i j = Inr ys \<Longrightarrow> length ys = j - i"
  by (auto simp: slice_eq_Inr)

lemma idx_eq_Inl: "idx xs i = Inl e \<longleftrightarrow> e = Panic \<and> length xs \<le> i"
  by (auto simp: idx_def)

lemma slice_eq_Inl: "slice xs i j = Inl e \<longleftrightarrow> e = Panic \<and> \<not> (i \<le> j \<and> j \<le> length xs)"
  by (auto simp: slice_def)

text \<open>
  The structural rules of \<open>no_panic\<close>: a computation does not panic when none of its
  accesses does.
\<close>

lemma access_no_panic [no_panic]:
  "i < length xs \<Longrightarrow> idx xs i \<noteq> Inl Panic"
  "i \<le> j \<Longrightarrow> j \<le> length xs \<Longrightarrow> slice xs i j \<noteq> Inl Panic"
  by (simp_all add: idx_eq_Inl slice_eq_Inl)

lemma value_no_panic [no_panic]: "Inr x \<noteq> Inl Panic" "e \<noteq> Panic \<Longrightarrow> Inl e \<noteq> Inl Panic"
  by simp_all

lemma if_no_panic [no_panic]:
  "(P \<Longrightarrow> a \<noteq> Inl Panic) \<Longrightarrow> (\<not> P \<Longrightarrow> b \<noteq> Inl Panic) \<Longrightarrow> (if P then a else b) \<noteq> Inl Panic"
  by simp

lemma case_option_no_panic [no_panic]:
  "(x = None \<Longrightarrow> a \<noteq> Inl Panic) \<Longrightarrow> (\<And>y. x = Some y \<Longrightarrow> f y \<noteq> Inl Panic) \<Longrightarrow>
   case_option a f x \<noteq> Inl Panic"
  by (cases x) auto

lemma case_prod_no_panic [no_panic]:
  "(\<And>a b. x = (a, b) \<Longrightarrow> f a b \<noteq> Inl Panic) \<Longrightarrow> case_prod f x \<noteq> Inl Panic"
  by (cases x) auto

section \<open>Little- and big-endian integers\<close>

definition byte_at :: "nat \<Rightarrow> 'a::len word \<Rightarrow> u8" where
  "byte_at i w = ucast (drop_bit (8 * i) w)"

definition to_le :: "nat \<Rightarrow> 'a::len word \<Rightarrow> bytes" where
  "to_le n w = map (\<lambda>i. byte_at i w) [0..<n]"

definition to_be :: "nat \<Rightarrow> 'a::len word \<Rightarrow> bytes" where
  "to_be n w = rev (to_le n w)"

primrec from_le :: "bytes \<Rightarrow> 'a::len word" where
  "from_le [] = 0"
| "from_le (b # bs) = ucast b OR push_bit 8 (from_le bs)"

definition from_be :: "bytes \<Rightarrow> 'a::len word" where
  "from_be bs = from_le (rev bs)"

lemma length_to_le [simp]: "length (to_le n w) = n"
  by (simp add: to_le_def)

lemma length_to_be [simp]: "length (to_be n w) = n"
  by (simp add: to_be_def)

lemma bit_from_le:
  "bit (from_le bs :: 'a::len word) n \<longleftrightarrow>
     n < LENGTH('a) \<and> n div 8 < length bs \<and> bit (bs ! (n div 8)) (n mod 8)"
proof (induction bs arbitrary: n)
  case Nil
  then show ?case by simp
next
  case (Cons b bs)
  show ?case
  proof (cases "n < 8")
    case True
    then show ?thesis
      by (auto simp: bit_simps)
  next
    case False
    then have "n div 8 = Suc ((n - 8) div 8)" "n mod 8 = (n - 8) mod 8"
      by (auto simp: le_div_geq le_mod_geq)
    moreover have "\<not> bit b n"
      using False bit_imp_le_length [of b n] by auto
    ultimately show ?thesis
      using False by (auto simp: bit_simps Cons.IH)
  qed
qed

lemma from_le_to_le:
  assumes "LENGTH('a) \<le> 8 * n"
  shows "from_le (to_le n (w :: 'a::len word)) = w"
proof (rule bit_word_eqI)
  fix k
  assume k: "k < LENGTH('a)"
  with assms have "k div 8 < n" by auto
  with k show "bit (from_le (to_le n w) :: 'a word) k = bit w k"
    by (simp add: bit_from_le to_le_def byte_at_def bit_simps)
qed

lemma to_le_inj:
  "LENGTH('a) \<le> 8 * n \<Longrightarrow> to_le n (a :: 'a::len word) = to_le n b \<longleftrightarrow> a = b"
  by (metis from_le_to_le)

lemma from_be_to_be:
  "LENGTH('a) \<le> 8 * n \<Longrightarrow> from_be (to_be n (w :: 'a::len word)) = w"
  by (simp add: from_be_def to_be_def from_le_to_le)

lemma from_le_inj:
  assumes "length xs = n" "length ys = n" "8 * n \<le> LENGTH('a)"
    and eq: "(from_le xs :: 'a::len word) = from_le ys"
  shows "xs = ys"
proof (rule nth_equalityI)
  show "length xs = length ys" using assms by simp
  fix i
  assume i: "i < length xs"
  show "xs ! i = ys ! i"
  proof (rule bit_word_eqI)
    fix k
    assume k: "k < LENGTH(8)"
    let ?n = "8 * i + k"
    have "?n div 8 = i" "?n mod 8 = k" "?n < LENGTH('a)"
      using k i assms by auto
    moreover have "bit (from_le xs :: 'a word) ?n = bit (from_le ys :: 'a word) ?n"
      using eq by simp
    ultimately show "bit (xs ! i) k = bit (ys ! i) k"
      using i assms unfolding bit_from_le by simp
  qed
qed

lemma to_le_from_le:
  assumes "length bs = n" "8 * n \<le> LENGTH('a)"
  shows "to_le n (from_le bs :: 'a::len word) = bs"
proof (rule nth_equalityI)
  show "length (to_le n (from_le bs :: 'a word)) = length bs" using assms by simp
  fix i
  assume "i < length (to_le n (from_le bs :: 'a word))"
  then have i: "i < n" by simp
  show "to_le n (from_le bs :: 'a word) ! i = bs ! i"
  proof (rule bit_word_eqI)
    fix k
    assume k: "k < LENGTH(8)"
    have "8 * i + k < LENGTH('a)" "(8 * i + k) div 8 = i" "(8 * i + k) mod 8 = k"
      using i k assms by auto
    with i k assms show "bit (to_le n (from_le bs :: 'a word) ! i) k = bit (bs ! i) k"
      by (simp add: to_le_def byte_at_def bit_simps bit_from_le)
  qed
qed

lemma to_be_from_be:
  "length bs = n \<Longrightarrow> 8 * n \<le> LENGTH('a) \<Longrightarrow> to_be n (from_be bs :: 'a::len word) = bs"
  by (simp add: from_be_def to_be_def to_le_from_le)

text \<open>The widths the sources use, written out byte by byte.\<close>

lemma to_le_expand [wire_simps]:
  "to_le 2 w = [byte_at 0 w, byte_at 1 w]"
  "to_le 4 w = [byte_at 0 w, byte_at 1 w, byte_at 2 w, byte_at 3 w]"
  by (simp_all add: to_le_def upt_rec eval_nat_numeral)

lemma from_le_fields [wire_simps, simp]:
  "from_le [byte_at 0 w, byte_at (Suc 0) w] = (w :: u16)"
  "from_le [byte_at 0 v, byte_at (Suc 0) v, byte_at 2 v, byte_at 3 v] = (v :: u32)"
  "from_le (to_le 2 w) = w"
  "from_le (to_le 4 v) = v"
  "from_le (to_le 8 x) = (x :: u64)"
proof -
  show a: "from_le (to_le 2 w) = w" and b: "from_le (to_le 4 v) = v"
    and "from_le (to_le 8 x) = x"
    by (simp_all add: from_le_to_le)
  show "from_le [byte_at 0 w, byte_at (Suc 0) w] = w"
    using a unfolding to_le_expand by simp
  show "from_le [byte_at 0 v, byte_at (Suc 0) v, byte_at 2 v, byte_at 3 v] = v"
    using b unfolding to_le_expand by simp
qed

lemma from_be_fields [wire_simps, simp]:
  "from_be (to_be 2 w) = (w :: u16)"
  "from_be (to_be 4 v) = (v :: u32)"
  "from_be (to_be 8 x) = (x :: u64)"
  "from_be (to_be 16 y) = (y :: u128)"
  by (simp_all add: from_be_to_be)

text \<open>Reading an integer at an offset; every byte access is checked.\<close>

definition read_u16 :: "bytes \<Rightarrow> nat \<Rightarrow> u16 result" where
  "read_u16 d i = bind (idx d i) (\<lambda>a. bind (idx d (i + 1)) (\<lambda>b. Inr (from_le [a, b])))"

definition read_u32 :: "bytes \<Rightarrow> nat \<Rightarrow> u32 result" where
  "read_u32 d i =
     bind (idx d i) (\<lambda>a. bind (idx d (i + 1)) (\<lambda>b. bind (idx d (i + 2)) (\<lambda>c.
     bind (idx d (i + 3)) (\<lambda>e. Inr (from_le [a, b, c, e])))))"

definition read_u64 :: "bytes \<Rightarrow> nat \<Rightarrow> u64 result" where
  "read_u64 d i = bind (slice d i (i + 8)) (\<lambda>s. Inr (from_le s))"

lemma take_nths:
  "i + 2 \<le> length d \<Longrightarrow> take 2 (drop i d) = [d ! i, d ! (i + 1)]"
  "i + 4 \<le> length d \<Longrightarrow> take 4 (drop i d) = [d ! i, d ! (i + 1), d ! (i + 2), d ! (i + 3)]"
  by (rule nth_equalityI; auto simp: less_Suc_eq numeral_eq_Suc)+

lemma read_in [simp]:
  "i + 2 \<le> length d \<Longrightarrow> read_u16 d i = Inr (from_le (take 2 (drop i d)))"
  "i + 4 \<le> length d \<Longrightarrow> read_u32 d i = Inr (from_le (take 4 (drop i d)))"
  "i + 8 \<le> length d \<Longrightarrow> read_u64 d i = Inr (from_le (take 8 (drop i d)))"
  by (simp_all add: read_u16_def read_u32_def read_u64_def take_nths)

lemma read_no_panic [no_panic]:
  "i + 2 \<le> length d \<Longrightarrow> read_u16 d i \<noteq> Inl Panic"
  "i + 4 \<le> length d \<Longrightarrow> read_u32 d i \<noteq> Inl Panic"
  "i + 8 \<le> length d \<Longrightarrow> read_u64 d i \<noteq> Inl Panic"
  by simp_all

lemma drop_numeral_add [wire_simps]: "drop (numeral k + n) xs = drop n (drop (numeral k) xs)"
  by (simp add: add.commute)

lemma drop_numeral_add2 [wire_simps]: "drop (numeral k + n + p) xs = drop p (drop (numeral k + n) xs)"
  by (simp add: add.commute)

lemma drop_add_numeral [wire_simps]: "drop (n + numeral k) xs = drop n (drop (numeral k) xs)"
  by simp

text \<open>Putting consecutive pieces of a byte string together again.\<close>

lemma glue:
  "j = i + n \<Longrightarrow> take n (drop i d) @ drop j d = drop i d"
  "i < length d \<Longrightarrow> j = Suc i \<Longrightarrow> d ! i # drop j d = drop i d"
  using append_take_drop_id [of n "drop i d"] by (simp_all add: add.commute Cons_nth_drop_Suc)

section \<open>UTF-8\<close>

text \<open>
  The decoder of the Rust standard library (\<open>core::str::lossy\<close>): \<open>utf8_chunk\<close> looks at
  the front of a non-empty byte string and says whether a character starts there and how
  many bytes it, or the broken sequence, takes.  A byte past the end reads as zero.
\<close>

definition safe_get :: "bytes \<Rightarrow> nat \<Rightarrow> u8" where
  "safe_get bs i = (if i < length bs then bs ! i else 0)"

definition is_cont :: "u8 \<Rightarrow> bool" where
  "is_cont c \<longleftrightarrow> c AND 192 = 128"

definition utf8_char_width :: "u8 \<Rightarrow> nat" where
  "utf8_char_width b =
     (if b < 0x80 then 1
      else if 0xC2 \<le> b \<and> b \<le> 0xDF then 2
      else if 0xE0 \<le> b \<and> b \<le> 0xEF then 3
      else if 0xF0 \<le> b \<and> b \<le> 0xF4 then 4
      else 0)"

definition second_of_3 :: "u8 \<Rightarrow> u8 \<Rightarrow> bool" where
  "second_of_3 b c \<longleftrightarrow>
     (b = 0xE0 \<and> 0xA0 \<le> c \<and> c \<le> 0xBF) \<or>
     (0xE1 \<le> b \<and> b \<le> 0xEC \<and> 0x80 \<le> c \<and> c \<le> 0xBF) \<or>
     (b = 0xED \<and> 0x80 \<le> c \<and> c \<le> 0x9F) \<or>
     (0xEE \<le> b \<and> b \<le> 0xEF \<and> 0x80 \<le> c \<and> c \<le> 0xBF)"

definition second_of_4 :: "u8 \<Rightarrow> u8 \<Rightarrow> bool" where
  "second_of_4 b c \<longleftrightarrow>
     (b = 0xF0 \<and> 0x90 \<le> c \<and> c \<le> 0xBF) \<or>
     (0xF1 \<le> b \<and> b \<le> 0xF3 \<and> 0x80 \<le> c \<and> c \<le> 0xBF) \<or>
     (b = 0xF4 \<and> 0x80 \<le> c \<and> c \<le> 0x8F)"

definition utf8_chunk :: "bytes \<Rightarrow> bool \<times> nat" where
  "utf8_chunk bs =
     (let b = safe_get bs 0; w = utf8_char_width b in
      if w = 1 then (True, 1)
      else if w = 2 then (if is_cont (safe_get bs 1) then (True, 2) else (False, 1))
      else if w = 3 then
        (if \<not> second_of_3 b (safe_get bs 1) then (False, 1)
         else if \<not> is_cont (safe_get bs 2) then (False, 2) else (True, 3))
      else if w = 4 then
        (if \<not> second_of_4 b (safe_get bs 1) then (False, 1)
         else if \<not> is_cont (safe_get bs 2) then (False, 2)
         else if \<not> is_cont (safe_get bs 3) then (False, 3) else (True, 4))
      else (False, 1))"

lemma utf8_chunk_pos: "0 < snd (utf8_chunk bs)"
  by (simp add: utf8_chunk_def Let_def)

function utf8_lossy :: "bytes \<Rightarrow> rstring" where
  "utf8_lossy [] = []"
| "utf8_lossy (b # bs) =
     (let (ok, n) = utf8_chunk (b # bs) in
      (if ok then take n (b # bs) else [0xEF, 0xBF, 0xBD]) @ utf8_lossy (drop n (b # bs)))"
  by pat_completeness auto
termination
proof (relation "measure length")
  show "wf (measure (length :: bytes \<Rightarrow> nat))" by simp
  fix b :: u8 and bs x ok n
  assume "x = utf8_chunk (b # bs)" "(ok, n) = x"
  then have "0 < n" using utf8_chunk_pos [of "b # bs"] by (metis snd_conv)
  then show "(drop n (b # bs), b # bs) \<in> measure length" by auto
qed

function utf8_valid :: "bytes \<Rightarrow> bool" where
  "utf8_valid [] = True"
| "utf8_valid (b # bs) =
     (let (ok, n) = utf8_chunk (b # bs) in ok \<and> utf8_valid (drop n (b # bs)))"
  by pat_completeness auto
termination
proof (relation "measure length")
  show "wf (measure (length :: bytes \<Rightarrow> nat))" by simp
  fix b :: u8 and bs x ok n
  assume "x = utf8_chunk (b # bs)" "(ok, n) = x"
  then have "0 < n" using utf8_chunk_pos [of "b # bs"] by (metis snd_conv)
  then show "(drop n (b # bs), b # bs) \<in> measure length" by auto
qed

lemma utf8_lossy_valid [simp]: "utf8_valid s \<Longrightarrow> utf8_lossy s = s"
proof (induction s rule: utf8_lossy.induct)
  case (2 b bs)
  obtain ok n where c: "utf8_chunk (b # bs) = (ok, n)" by (cases "utf8_chunk (b # bs)")
  with 2 have "ok" "utf8_lossy (drop n (b # bs)) = drop n (b # bs)" by auto
  with c show ?case by simp
qed simp

lemma utf8_valid_ascii: "(\<And>b. b \<in> set s \<Longrightarrow> b < 0x80) \<Longrightarrow> utf8_valid s"
proof (induction s rule: utf8_valid.induct)
  case (2 b bs)
  then have "utf8_chunk (b # bs) = (True, 1)"
    by (simp add: utf8_chunk_def safe_get_def utf8_char_width_def)
  with 2 show ?case by simp
qed simp

lemma is_cont_0 [simp]: "\<not> is_cont 0"
  by (simp add: is_cont_def)

lemma second_0 [simp]: "\<not> second_of_3 b 0" "\<not> second_of_4 b 0"
  by (auto simp: second_of_3_def second_of_4_def)

lemma utf8_chunk_length:
  assumes "bs \<noteq> []"
  shows "snd (utf8_chunk bs) \<le> length bs"
proof -
  have len: "i < length bs" if "safe_get bs i \<noteq> 0" for i
    using that by (auto simp: safe_get_def split: if_splits)
  have "safe_get bs i \<noteq> 0" if "is_cont (safe_get bs i)" for i
    using that by auto
  then have c: "is_cont (safe_get bs i) \<Longrightarrow> i < length bs" for i
    using len by blast
  have "second_of_3 (safe_get bs 0) (safe_get bs 1) \<Longrightarrow> 2 \<le> length bs"
    "second_of_4 (safe_get bs 0) (safe_get bs 1) \<Longrightarrow> 2 \<le> length bs"
    using len [of 1] second_0 by (metis Suc_1 Suc_leI)+
  moreover have "0 < length bs" using assms by simp
  ultimately show ?thesis
    using c [of 1] c [of 2] c [of 3]
    unfolding utf8_chunk_def Let_def by (auto simp: Suc_le_eq)
qed

lemma utf8_chunk_append:
  assumes "utf8_chunk bs = (True, n)" "bs \<noteq> []"
  shows "utf8_chunk (take n bs @ rest) = (True, n)"
proof -
  have n: "n \<le> length bs" using utf8_chunk_length [OF assms(2)] assms(1) by simp
  have g: "safe_get (take n bs @ rest) i = safe_get bs i" if "i < n" for i
    using that n by (simp add: safe_get_def nth_append)
  have "0 < n" using utf8_chunk_pos [of bs] assms(1) by simp
  with g have b: "safe_get (take n bs @ rest) 0 = safe_get bs 0" by simp
  show ?thesis
    using assms(1) g [of 1] g [of 2] g [of 3] unfolding utf8_chunk_def Let_def b
    by (auto split: if_splits)
qed

lemma utf8_valid_chunk:
  assumes "utf8_chunk bs = (True, n)" "bs \<noteq> []"
  shows "utf8_valid (take n bs @ rest) = utf8_valid rest"
proof -
  have n: "n \<le> length bs" "0 < n"
    using utf8_chunk_length [OF assms(2)] utf8_chunk_pos [of bs] assms(1) by simp_all
  then obtain b cs where bc: "take n bs @ rest = b # cs"
    using assms(2) by (cases "take n bs") (auto simp: take_eq_Nil)
  have "utf8_chunk (b # cs) = (True, n)"
    using utf8_chunk_append [OF assms, of rest] bc by simp
  moreover have "drop n (b # cs) = rest"
    using n by (simp add: bc [symmetric])
  ultimately show ?thesis using bc by simp
qed

lemma utf8_valid_replacement: "utf8_valid ([0xEF, 0xBF, 0xBD] @ rest) = utf8_valid rest"
proof -
  have "utf8_chunk [0xEF, 0xBF, 0xBD] = (True, 3)"
    by (simp add: utf8_chunk_def safe_get_def utf8_char_width_def second_of_3_def is_cont_def)
  from utf8_valid_chunk [OF this, of rest] show ?thesis by simp
qed

text \<open>Whatever bytes arrive, the repaired string is valid UTF-8.\<close>

lemma utf8_valid_lossy: "utf8_valid (utf8_lossy bs)"
proof (induction bs rule: utf8_lossy.induct)
  case (2 b bs)
  obtain ok n where c: "utf8_chunk (b # bs) = (ok, n)" by (cases "utf8_chunk (b # bs)")
  have IH: "utf8_valid (utf8_lossy (drop n (b # bs)))"
    using "2.IH" [OF refl c [symmetric]] .
  show ?case
  proof (cases ok)
    case True
    with c IH show ?thesis
      using utf8_valid_chunk [of "b # bs" n "utf8_lossy (drop n (b # bs))"] by simp
  next
    case False
    have "utf8_lossy (b # bs) = [0xEF, 0xBF, 0xBD] @ utf8_lossy (drop n (b # bs))"
      using c False by simp
    then show ?thesis
      by (simp only: utf8_valid_replacement IH)
  qed
qed simp

lemma length_utf8_lossy: "length (utf8_lossy s) \<le> 3 * length s"
proof (induction s rule: utf8_lossy.induct)
  case (2 b bs)
  obtain ok n where c: "utf8_chunk (b # bs) = (ok, n)" by (cases "utf8_chunk (b # bs)")
  have n: "0 < n" "n \<le> Suc (length bs)"
    using utf8_chunk_pos [of "b # bs"] utf8_chunk_length [of "b # bs"] c by auto
  have "length (utf8_lossy (drop n (b # bs))) \<le> 3 * (Suc (length bs) - n)"
    using "2.IH" [OF refl c [symmetric]] by simp
  with n c show ?case by (auto simp: min_def)
qed simp

section \<open>Fallible loops\<close>

fun map_result :: "('a \<Rightarrow> 'b result) \<Rightarrow> 'a list \<Rightarrow> 'b list result" where
  "map_result f [] = Inr []"
| "map_result f (x # xs) = bind (f x) (\<lambda>y. bind (map_result f xs) (\<lambda>ys. Inr (y # ys)))"

lemma map_result_Inr: "(\<And>x. x \<in> set xs \<Longrightarrow> f x = Inr (g x)) \<Longrightarrow> map_result f xs = Inr (map g xs)"
  by (induction xs) auto

lemma map_result_no_panic [no_panic]:
  "(\<And>x. x \<in> set xs \<Longrightarrow> f x \<noteq> Inl Panic) \<Longrightarrow> map_result f xs \<noteq> Inl Panic"
  by (induction xs) (auto simp: bind_eq_Inl)

section \<open>Hash maps as association lists\<close>

text \<open>
  A \<open>HashMap\<close> is an association list with distinct keys; the list order stands for the
  unspecified iteration order of the map.  \<open>min_by_key\<close> returns the first minimum of an
  iterator and \<open>max_by_key\<close> the last maximum, as in Rust.
\<close>

type_synonym ('k, 'v) hmap = "('k \<times> 'v) list"

definition wf_hmap :: "('k, 'v) hmap \<Rightarrow> bool" where
  "wf_hmap m \<longleftrightarrow> distinct (map fst m)"

definition contains_key :: "'k \<Rightarrow> ('k, 'v) hmap \<Rightarrow> bool" where
  "contains_key k m \<longleftrightarrow> map_of m k \<noteq> None"

definition retain :: "('k \<Rightarrow> 'v \<Rightarrow> bool) \<Rightarrow> ('k, 'v) hmap \<Rightarrow> ('k, 'v) hmap" where
  "retain P m = filter (\<lambda>(k, v). P k v) m"

fun min_by_key :: "('a \<Rightarrow> 'b::linorder) \<Rightarrow> 'a list \<Rightarrow> 'a option" where
  "min_by_key f [] = None"
| "min_by_key f (x # xs) =
     (case min_by_key f xs of None \<Rightarrow> Some x | Some y \<Rightarrow> Some (if f y < f x then y else x))"

fun max_by_key :: "('a \<Rightarrow> 'b::linorder) \<Rightarrow> 'a list \<Rightarrow> 'a option" where
  "max_by_key f [] = None"
| "max_by_key f (x # xs) =
     (case max_by_key f xs of None \<Rightarrow> Some x | Some y \<Rightarrow> Some (if f x \<le> f y then y else x))"

lemma min_by_key_None [simp]: "min_by_key f xs = None \<longleftrightarrow> xs = []"
  by (cases xs) (auto split: option.splits)

lemma max_by_key_None [simp]: "max_by_key f xs = None \<longleftrightarrow> xs = []"
  by (cases xs) (auto split: option.splits)

lemma min_by_key_in: "min_by_key f xs = Some x \<Longrightarrow> x \<in> set xs"
  by (induction xs arbitrary: x) (auto split: option.splits if_splits)

lemma max_by_key_in: "max_by_key f xs = Some x \<Longrightarrow> x \<in> set xs"
  by (induction xs arbitrary: x) (auto split: option.splits if_splits)

lemma min_by_key_le: "min_by_key f xs = Some x \<Longrightarrow> y \<in> set xs \<Longrightarrow> f x \<le> f y"
  by (induction xs arbitrary: x y) (force split: option.splits if_splits)+

lemma max_by_key_ge: "max_by_key f xs = Some x \<Longrightarrow> y \<in> set xs \<Longrightarrow> f y \<le> f x"
  by (induction xs arbitrary: x y) (force split: option.splits if_splits)+

lemma contains_key_iff: "contains_key k m \<longleftrightarrow> k \<in> fst ` set m"
  by (simp add: contains_key_def map_of_eq_None_iff)

lemma map_of_SomeD_key: "map_of m k = Some v \<Longrightarrow> k \<in> fst ` set m"
  by (force dest: map_of_SomeD)

lemma set_retain [simp]: "set (retain P m) = {(k, v) \<in> set m. P k v}"
  by (auto simp: retain_def)

lemma wf_hmap_empty [simp]: "wf_hmap []"
  by (simp add: wf_hmap_def)

lemma wf_hmap_update [simp]: "wf_hmap m \<Longrightarrow> wf_hmap (AList.update k v m)"
  by (simp add: wf_hmap_def distinct_update)

lemma wf_hmap_delete [simp]: "wf_hmap m \<Longrightarrow> wf_hmap (AList.delete k m)"
  by (simp add: wf_hmap_def distinct_delete)

lemma wf_hmap_retain [simp]: "wf_hmap m \<Longrightarrow> wf_hmap (retain P m)"
  by (induction m) (auto simp: wf_hmap_def retain_def)

lemma map_of_in: "wf_hmap m \<Longrightarrow> (k, v) \<in> set m \<Longrightarrow> map_of m k = Some v"
  by (simp add: wf_hmap_def)

lemma map_of_retain:
  "wf_hmap m \<Longrightarrow>
   map_of (retain P m) k = (case map_of m k of None \<Rightarrow> None | Some v \<Rightarrow> if P k v then Some v else None)"
proof (induction m)
  case (Cons x m)
  obtain k' v' where x: "x = (k', v')" by force
  with Cons.prems have wf: "wf_hmap m" and "k' \<notin> fst ` set m"
    by (auto simp: wf_hmap_def)
  then have "map_of m k' = None" by (simp add: map_of_eq_None_iff)
  with Cons.IH [OF wf] x show ?case
    by (auto simp: retain_def split: option.splits)
qed (simp add: retain_def)

lemma length_update:
  "length (AList.update k v m) = (if contains_key k m then length m else Suc (length m))"
  by (induction m) (auto simp: contains_key_def)

lemma length_retain: "length (retain P m) \<le> length m"
  by (simp add: retain_def)

lemma length_delete: "length (AList.delete k m) \<le> length m"
  by (induction m) auto

lemma length_delete_in:
  "contains_key k m \<Longrightarrow> length (AList.delete k m) < length m"
  unfolding contains_key_iff AList.delete_eq
  by (auto intro!: length_filter_less)

lemma set_update_subset: "set (AList.update k v m) \<subseteq> insert (k, v) (set m)"
  by (induction m) auto

lemma set_delete_subset: "set (AList.delete k m) \<subseteq> set m"
  by (induction m) auto

lemma fst_set_delete: "fst ` set (AList.delete k m) = fst ` set m - {k}"
  by (auto simp: AList.delete_eq)

definition hkeys :: "('k, 'v) hmap \<Rightarrow> 'k set" where
  "hkeys m = fst ` set m"

lemma hkeys_simps [simp]:
  "hkeys [] = {}"
  "hkeys (AList.update k v m) = insert k (hkeys m)"
  "hkeys (AList.delete k m) = hkeys m - {k}"
  "hkeys (x # m) = insert (fst x) (hkeys m)"
  "finite (hkeys m)"
  by (induction m) (auto simp: hkeys_def)

lemma map_of_None_keys: "map_of m k = None \<longleftrightarrow> k \<notin> hkeys m"
  by (simp add: map_of_eq_None_iff hkeys_def)

lemma map_of_Some_keys: "map_of m k = Some v \<Longrightarrow> k \<in> hkeys m"
  by (metis map_of_None_keys option.discI)

lemma contains_key_keys [simp]: "contains_key k m \<longleftrightarrow> k \<in> hkeys m"
  by (simp add: contains_key_def map_of_None_keys)

lemma length_hkeys: "wf_hmap m \<Longrightarrow> length m = card (hkeys m)"
  by (metis distinct_card hkeys_def length_map list.set_map wf_hmap_def)

lemma delete_update_same [simp]: "AList.delete k (AList.update k v m) = AList.delete k m"
  by (induction m) auto

section \<open>Bounds of machine integers\<close>

lemma unat_bounds:
  "unat (a :: u8) < 256" "unat (b :: u16) < 65536" "unat (c :: u32) < 4294967296"
  "unat (d :: u64) < 18446744073709551616"
  using unsigned_less [of a, where 'a = nat] unsigned_less [of b, where 'a = nat]
    unsigned_less [of c, where 'a = nat] unsigned_less [of d, where 'a = nat] by simp_all

lemma unat_add_one: "unat w < unat (u :: 'a word) \<Longrightarrow> unat (w + 1 :: 'a::len word) = Suc (unat w)"
proof -
  assume "unat w < unat u"
  moreover have "unat u < 2 ^ LENGTH('a)" by (rule unsigned_less)
  ultimately have "Suc (unat w) < 2 ^ LENGTH('a)" by linarith
  then show ?thesis by (simp add: unat_word_ariths)
qed

end
