(* ===== verification/Ipv6_Text.thy ===== *)
theory Ipv6_Text
  imports Prelude
begin

text \<open>
  The textual form of IPv6 addresses as the Rust standard library reads and prints it
  (\<open>FromStr\<close> and \<open>Display\<close> of \<open>Ipv6Addr\<close>), together with \<open>u8::from_str\<close> and
  \<open>str::split_once\<close>: the sources keep a client's IPv6 address as text.  The main result
  is that parsing a printed address gives the address back.
\<close>

section \<open>Digits and numbers\<close>

definition ascii :: "string \<Rightarrow> bytes" where
  "ascii s = map (\<lambda>c. of_nat (of_char c)) s"

definition to_digit :: "nat \<Rightarrow> u8 \<Rightarrow> nat option" where
  "to_digit radix c =
     (let n = unat c;
          d = (if 48 \<le> n \<and> n \<le> 57 then n - 48
               else if 97 \<le> n \<and> n \<le> 122 then n - 87
               else if 65 \<le> n \<and> n \<le> 90 then n - 55 else 36)
      in if d < radix then Some d else None)"

fun read_digits :: "nat \<Rightarrow> nat \<Rightarrow> nat \<Rightarrow> nat \<Rightarrow> nat \<Rightarrow> bytes \<Rightarrow> (nat \<times> nat \<times> bytes) option" where
  "read_digits radix bound maxd acc n [] = Some (acc, n, [])"
| "read_digits radix bound maxd acc n (c # cs) =
     (case to_digit radix c of
        None \<Rightarrow> Some (acc, n, c # cs)
      | Some d \<Rightarrow>
          (if acc * radix + d \<ge> bound \<or> n + 1 > maxd then None
           else read_digits radix bound maxd (acc * radix + d) (n + 1) cs))"

definition read_number :: "nat \<Rightarrow> nat \<Rightarrow> nat \<Rightarrow> bool \<Rightarrow> bytes \<Rightarrow> (nat \<times> bytes) option" where
  "read_number radix bound maxd allow_zero_prefix s =
     (case read_digits radix bound maxd 0 0 s of
        None \<Rightarrow> None
      | Some (v, n, r) \<Rightarrow>
          (if n = 0 then None
           else if \<not> allow_zero_prefix \<and> take 1 s = [48] \<and> n > 1 then None
           else Some (v, r)))"

definition read_given_char :: "u8 \<Rightarrow> bytes \<Rightarrow> bytes option" where
  "read_given_char c s = (case s of [] \<Rightarrow> None | d # r \<Rightarrow> if d = c then Some r else None)"

definition read_separated :: "u8 \<Rightarrow> bool \<Rightarrow> (bytes \<Rightarrow> ('a \<times> bytes) option) \<Rightarrow> bytes \<Rightarrow> ('a \<times> bytes) option" where
  "read_separated sep first f s =
     (if first then f s
      else case read_given_char sep s of None \<Rightarrow> None | Some r \<Rightarrow> f r)"

fun read_octets :: "nat \<Rightarrow> bool \<Rightarrow> bytes \<Rightarrow> (bytes \<times> bytes) option" where
  "read_octets 0 first s = Some ([], s)"
| "read_octets (Suc k) first s =
     (case read_separated 46 first (read_number 10 256 3 False) s of
        None \<Rightarrow> None
      | Some (v, r) \<Rightarrow>
          (case read_octets k False r of
             None \<Rightarrow> None | Some (vs, r') \<Rightarrow> Some (of_nat v # vs, r')))"

definition read_ipv4_addr :: "bytes \<Rightarrow> (bytes \<times> bytes) option" where
  "read_ipv4_addr s = read_octets 4 True s"

fun read_groups :: "nat \<Rightarrow> bool \<Rightarrow> bytes \<Rightarrow> u16 list \<times> bool \<times> bytes" where
  "read_groups 0 first s = ([], False, s)"
| "read_groups (Suc k) first s =
     (case (if 0 < k then read_separated 58 first read_ipv4_addr s else None) of
        Some (o4, r) \<Rightarrow> ([from_be (take 2 o4), from_be (drop 2 o4)], True, r)
      | None \<Rightarrow>
          (case read_separated 58 first (read_number 16 65536 4 True) s of
             None \<Rightarrow> ([], False, s)
           | Some (g, r) \<Rightarrow>
               (case read_groups k False r of
                  (gs, v4, r') \<Rightarrow> (of_nat g # gs, v4, r'))))"

definition of_segments :: "u16 list \<Rightarrow> u128" where
  "of_segments gs = from_be (concat (map (to_be 2) gs))"

definition parse_ipv6 :: "rstring \<Rightarrow> u128 option" where
  "parse_ipv6 s =
     (case read_groups 8 True s of
        (head, head_ipv4, r) \<Rightarrow>
          (if length head = 8 then (if r = [] then Some (of_segments head) else None)
           else if head_ipv4 then None
           else case read_given_char 58 r of
             None \<Rightarrow> None
           | Some r1 \<Rightarrow>
               (case read_given_char 58 r1 of
                  None \<Rightarrow> None
                | Some r2 \<Rightarrow>
                    (case read_groups (8 - (length head + 1)) True r2 of
                       (tail, _, r3) \<Rightarrow>
                         (if r3 = []
                          then Some (of_segments
                                 (head @ replicate (8 - length head - length tail) 0 @ tail))
                          else None)))))"

text \<open>\<open>u8::from_str\<close>: an optional plus sign and decimal digits, in range.\<close>

fun parse_dec :: "nat \<Rightarrow> bytes \<Rightarrow> nat option" where
  "parse_dec acc [] = Some acc"
| "parse_dec acc (c # cs) =
     (case to_digit 10 c of
        None \<Rightarrow> None
      | Some d \<Rightarrow> if acc * 10 + d \<ge> 256 then None else parse_dec (acc * 10 + d) cs)"

definition parse_u8 :: "rstring \<Rightarrow> u8 option" where
  "parse_u8 s =
     (let t = (case s of [] \<Rightarrow> [] | c # cs \<Rightarrow> if c = 43 then cs else s)
      in if t = [] then None else map_option of_nat (parse_dec 0 t))"

definition split_once :: "u8 \<Rightarrow> rstring \<Rightarrow> (rstring \<times> rstring) option" where
  "split_once c s =
     (if c \<in> set s then Some (takeWhile (\<lambda>d. d \<noteq> c) s, tl (dropWhile (\<lambda>d. d \<noteq> c) s)) else None)"

section \<open>Printing\<close>

definition hex_digit :: "nat \<Rightarrow> u8" where
  "hex_digit n = (if n < 10 then of_nat (48 + n) else of_nat (87 + n))"

definition hex16 :: "u16 \<Rightarrow> bytes" where
  "hex16 w =
     (let n = unat w in
      if n < 16 then [hex_digit n]
      else if n < 256 then [hex_digit (n div 16), hex_digit (n mod 16)]
      else if n < 4096 then
        [hex_digit (n div 256), hex_digit (n div 16 mod 16), hex_digit (n mod 16)]
      else [hex_digit (n div 4096), hex_digit (n div 256 mod 16),
            hex_digit (n div 16 mod 16), hex_digit (n mod 16)])"

definition dec8 :: "u8 \<Rightarrow> bytes" where
  "dec8 w =
     (let n = unat w in
      if n < 10 then [hex_digit n]
      else if n < 100 then [hex_digit (n div 10), hex_digit (n mod 10)]
      else [hex_digit (n div 100), hex_digit (n div 10 mod 10), hex_digit (n mod 10)])"

definition segments :: "u128 \<Rightarrow> u16 list" where
  "segments a = map (\<lambda>i. from_be (take 2 (drop (2 * i) (to_be 16 a)))) [0..<8]"

text \<open>The first longest run of zero segments: its start and its length.\<close>

fun zero_span :: "nat \<Rightarrow> nat \<times> nat \<Rightarrow> nat \<times> nat \<Rightarrow> u16 list \<Rightarrow> nat \<times> nat" where
  "zero_span i current longest [] = longest"
| "zero_span i current longest (g # gs) =
     (if g = 0 then
        (let cur = (if snd current = 0 then i else fst current, snd current + 1)
         in zero_span (i + 1) cur (if snd cur > snd longest then cur else longest) gs)
      else zero_span (i + 1) (0, 0) longest gs)"

fun group_text :: "bool \<Rightarrow> u16 list \<Rightarrow> bytes" where
  "group_text first [] = []"
| "group_text first (g # gs) = (if first then [] else [58]) @ hex16 g @ group_text False gs"

definition is_ipv4_mapped :: "u128 \<Rightarrow> bool" where
  "is_ipv4_mapped a \<longleftrightarrow> drop_bit 32 a = 0xFFFF"

definition show_ipv4 :: "bytes \<Rightarrow> rstring" where
  "show_ipv4 os = dec8 (os ! 0) @ [46] @ dec8 (os ! 1) @ [46] @ dec8 (os ! 2) @ [46] @ dec8 (os ! 3)"

definition show_ipv6 :: "u128 \<Rightarrow> rstring" where
  "show_ipv6 a =
     (if is_ipv4_mapped a then ascii ''::ffff:'' @ show_ipv4 (drop 12 (to_be 16 a))
      else
        (let segs = segments a; (start, len) = zero_span 0 (0, 0) (0, 0) segs in
         if len > 1
         then group_text True (take start segs) @ [58, 58] @ group_text True (drop (start + len) segs)
         else group_text True segs))"

text \<open>The address classes of \<open>std::net\<close> the sources test.\<close>

definition is_multicast :: "u128 \<Rightarrow> bool" where
  "is_multicast a \<longleftrightarrow> drop_bit 120 a = 0xFF"

definition is_loopback :: "u128 \<Rightarrow> bool" where
  "is_loopback a \<longleftrightarrow> a = 1"

definition is_unspecified :: "u128 \<Rightarrow> bool" where
  "is_unspecified a \<longleftrightarrow> a = 0"

definition is_unicast_link_local :: "u128 \<Rightarrow> bool" where
  "is_unicast_link_local a \<longleftrightarrow> drop_bit 112 a AND 0xFFC0 = 0xFE80"

definition is_ipv4_multicast :: "u32 \<Rightarrow> bool" where
  "is_ipv4_multicast a \<longleftrightarrow> drop_bit 28 a = 0xE"

section \<open>Reading back what was printed\<close>

lemma unat_hex_digit: "n < 16 \<Longrightarrow> unat (hex_digit n) = (if n < 10 then 48 + n else 87 + n)"
  by (simp add: hex_digit_def unat_of_nat del: of_nat_add)

lemma to_digit_hex: "n < 16 \<Longrightarrow> to_digit 16 (hex_digit n) = Some n"
  by (simp add: to_digit_def unat_hex_digit)

lemma to_digit_dec: "n < 10 \<Longrightarrow> to_digit 10 (hex_digit n) = Some n"
  by (simp add: to_digit_def unat_hex_digit)

lemma to_digit_sep [simp]: "to_digit 16 58 = None" "to_digit 10 58 = None" "to_digit 10 46 = None"
  by (simp_all add: to_digit_def)

text \<open>A byte string after which a number cannot go on.\<close>

definition ends_number :: "nat \<Rightarrow> bytes \<Rightarrow> bool" where
  "ends_number radix s \<longleftrightarrow> (case s of [] \<Rightarrow> True | c # _ \<Rightarrow> to_digit radix c = None)"

lemma ends_number_simps [simp]:
  "ends_number r []"
  "ends_number r (c # s) \<longleftrightarrow> to_digit r c = None"
  by (simp_all add: ends_number_def)

lemma read_digits_end [simp]:
  "ends_number radix s \<Longrightarrow> read_digits radix bound maxd acc n s = Some (acc, n, s)"
  by (cases s) auto

lemma nibbles:
  fixes n :: nat
  shows "n div 16 * 16 + n mod 16 = n"
    and "(n div 256 * 16 + n div 16 mod 16) * 16 + n mod 16 = n"
    and "((n div 4096 * 16 + n div 256 mod 16) * 16 + n div 16 mod 16) * 16 + n mod 16 = n"
proof -
  show a: "m div 16 * 16 + m mod 16 = m" for m :: nat by simp
  have b: "n div 256 * 16 + n div 16 mod 16 = n div 16"
    using a [of "n div 16"] by (simp add: div_mult2_eq [symmetric])
  then show "(n div 256 * 16 + n div 16 mod 16) * 16 + n mod 16 = n" by simp
  have "n div 4096 * 16 + n div 256 mod 16 = n div 256"
    using a [of "n div 256"] by (simp add: div_mult2_eq [symmetric])
  then show "((n div 4096 * 16 + n div 256 mod 16) * 16 + n div 16 mod 16) * 16 + n mod 16 = n"
    using b by simp
qed

lemma read_number_hex16:
  assumes "ends_number 16 rest"
  shows "read_number 16 65536 4 True (hex16 w @ rest) = Some (unat w, rest)"
proof -
  let ?n = "unat w"
  have n: "?n < 65536" using unsigned_less [of w] by simp
  have d: "?n div 16 mod 16 < 16" "?n mod 16 < 16" "?n div 256 mod 16 < 16" by simp_all
  consider "?n < 16" | "16 \<le> ?n" "?n < 256" | "256 \<le> ?n" "?n < 4096" | "4096 \<le> ?n" by linarith
  then show ?thesis
  proof cases
    case 1
    with assms show ?thesis by (simp add: read_number_def hex16_def to_digit_hex Let_def)
  next
    case 2
    then have "?n div 16 < 16" by linarith
    with 2 d n assms show ?thesis
      by (simp add: read_number_def hex16_def to_digit_hex nibbles Let_def)
  next
    case 3
    then have "?n div 256 < 16" by linarith
    with 3 d n assms nibbles [of ?n] show ?thesis
      by (simp add: read_number_def hex16_def to_digit_hex Let_def)
  next
    case 4
    then have "?n div 4096 < 16" using n by linarith
    with 4 d n assms nibbles [of ?n] show ?thesis
      by (simp add: read_number_def hex16_def to_digit_hex Let_def)
  qed
qed

lemma read_number_rest:
  assumes "read_number radix bound maxd z s = Some (v, r)"
  shows "r = dropWhile (\<lambda>c. to_digit radix c \<noteq> None) s"
proof -
  have "read_digits radix bound maxd acc n s = Some (v, m, r) \<Longrightarrow>
      r = dropWhile (\<lambda>c. to_digit radix c \<noteq> None) s" for acc n v m s
    by (induction radix bound maxd acc n s rule: read_digits.induct)
       (auto split: option.splits if_splits)
  with assms show ?thesis
    by (auto simp: read_number_def split: option.splits if_splits)
qed

lemma hex16_not_dot: "c \<in> set (hex16 w) \<Longrightarrow> c \<noteq> 46"
proof -
  have h: "hex_digit n \<noteq> 46" if "n < 16" for n
  proof
    assume "hex_digit n = 46"
    then have "unat (hex_digit n) = 46" by simp
    with that show False by (simp add: unat_hex_digit split: if_splits)
  qed
  have n: "unat w < 65536" using unsigned_less [of w] by simp
  have d: "unat w < 256 \<Longrightarrow> unat w div 16 < 16" "unat w < 4096 \<Longrightarrow> unat w div 256 < 16"
    "unat w div 4096 < 16"
    using n by linarith+
  assume "c \<in> set (hex16 w)"
  then show "c \<noteq> 46"
    using n d h [of "unat w"] h [of "unat w mod 16"] h [of "unat w div 16"] h [of "unat w div 16 mod 16"]
      h [of "unat w div 256"] h [of "unat w div 256 mod 16"] h [of "unat w div 4096"]
    by (auto simp: hex16_def Let_def split: if_splits)
qed

lemma read_ipv4_hex16:
  assumes "rest = [] \<or> hd rest = 58"
  shows "read_ipv4_addr (hex16 w @ rest) = None"
proof (cases "read_number 10 256 3 False (hex16 w @ rest)")
  case None
  then show ?thesis
    by (simp add: read_ipv4_addr_def read_separated_def eval_nat_numeral)
next
  case (Some p)
  obtain v r where p: "p = (v, r)" by force
  from Some p have r: "r = dropWhile (\<lambda>c. to_digit 10 c \<noteq> None) (hex16 w @ rest)"
    by (auto dest: read_number_rest)
  have "r = [] \<or> hd r \<noteq> 46"
  proof (cases "\<forall>c \<in> set (hex16 w). to_digit 10 c \<noteq> None")
    case True
    then have "r = dropWhile (\<lambda>c. to_digit 10 c \<noteq> None) rest"
      using r by (simp add: dropWhile_append2)
    with assms show ?thesis by (cases rest) auto
  next
    case False
    then have ne: "dropWhile (\<lambda>c. to_digit 10 c \<noteq> None) (hex16 w) \<noteq> []" by simp
    then have "hd r = hd (dropWhile (\<lambda>c. to_digit 10 c \<noteq> None) (hex16 w))"
      using r False by (auto simp: dropWhile_append)
    with ne hex16_not_dot show ?thesis
      by (metis list.set_sel(1) set_dropWhileD)
  qed
  then have "read_given_char 46 r = None"
    by (auto simp: read_given_char_def split: list.splits)
  with Some p show ?thesis
    by (simp add: read_ipv4_addr_def read_separated_def eval_nat_numeral)
qed

text \<open>Text at which the reading of groups stops.\<close>

definition stops_groups :: "bytes \<Rightarrow> bool" where
  "stops_groups s \<longleftrightarrow> s = [] \<or> (\<exists>r. s = 58 # 58 # r)"

lemma read_number_none [simp]:
  "ends_number radix s \<Longrightarrow> read_number radix bound maxd z s = None"
  by (simp add: read_number_def)

lemma read_ipv4_none [simp]: "ends_number 10 s \<Longrightarrow> read_ipv4_addr s = None"
  by (simp add: read_ipv4_addr_def read_separated_def eval_nat_numeral)

lemma read_groups_stop: "stops_groups s \<Longrightarrow> read_groups k first s = ([], False, s)"
  by (cases k) (auto simp: stops_groups_def read_separated_def read_given_char_def)

lemma group_text_ends:
  "stops_groups rest \<Longrightarrow>
     ends_number 16 (group_text False gs @ rest) \<and>
     (group_text False gs @ rest = [] \<or> hd (group_text False gs @ rest) = 58)"
  by (cases gs) (auto simp: stops_groups_def)

lemma read_groups_text:
  assumes "length gs \<le> k" "stops_groups rest"
  shows "read_groups k first (group_text first gs @ rest) = (gs, False, rest)"
  using assms
proof (induction gs arbitrary: k first)
  case Nil
  then show ?case by (simp add: read_groups_stop)
next
  case (Cons g gs)
  then obtain j where k: "k = Suc j" "length gs \<le> j" by (cases k) auto
  let ?r = "group_text False gs @ rest"
  have ends: "ends_number 16 ?r" "?r = [] \<or> hd ?r = 58"
    using group_text_ends [OF Cons.prems(2), of gs] by auto
  have IH: "read_groups j False ?r = (gs, False, rest)"
    using Cons.IH [of j False] k Cons.prems by simp
  have sep: "read_separated 58 first f (group_text first (g # gs) @ rest) = f (hex16 g @ ?r)"
    for f :: "bytes \<Rightarrow> ('b \<times> bytes) option"
    by (simp add: read_separated_def read_given_char_def)
  have "(if 0 < j then read_ipv4_addr (hex16 g @ ?r) else None) = None"
    using read_ipv4_hex16 [OF ends(2)] by simp
  then show ?case
    unfolding k(1) read_groups.simps sep
    by (simp only: read_number_hex16 [OF ends(1)] option.case prod.case IH) simp
qed

text \<open>The span found lies inside the list and covers zeros only.\<close>

definition zeros_at :: "u16 list \<Rightarrow> nat \<times> nat \<Rightarrow> bool" where
  "zeros_at gs sp \<longleftrightarrow> fst sp + snd sp \<le> length gs \<and>
     (\<forall>j. fst sp \<le> j \<and> j < fst sp + snd sp \<longrightarrow> gs ! j = 0)"

lemma zero_span_spec:
  assumes "all = pre @ gs" "i = length pre" "zeros_at all lng"
    and "snd cur = 0 \<or> (zeros_at all cur \<and> fst cur + snd cur = i)"
  shows "zeros_at all (zero_span i cur lng gs)"
  using assms
proof (induction gs arbitrary: pre i cur lng)
  case Nil
  then show ?case by simp
next
  case (Cons g gs)
  show ?case
  proof (cases "g = 0")
    case False
    have "zeros_at all (zero_span (i + 1) (0, 0) lng gs)"
      by (rule Cons.IH [of "pre @ [g]"]) (use Cons.prems in auto)
    with False show ?thesis by simp
  next
    case True
    define c where "c = (if snd cur = 0 then i else fst cur, snd cur + 1)"
    have gi: "all ! i = 0" "i < length all" using Cons.prems True by (auto simp: nth_append)
    have c: "zeros_at all c" "fst c + snd c = i + 1"
      using Cons.prems(4) gi by (auto simp: c_def zeros_at_def less_Suc_eq)
    have "zeros_at all (zero_span (i + 1) c (if snd c > snd lng then c else lng) gs)"
      by (rule Cons.IH [of "pre @ [g]"]) (use Cons.prems c in auto)
    with True show ?thesis by (simp only: zero_span.simps refl if_True Let_def c_def [symmetric])
  qed
qed

lemma split_at_zeros:
  assumes "zeros_at gs (start, len)"
  shows "take start gs @ replicate len 0 @ drop (start + len) gs = gs"
proof -
  have "take len (drop start gs) = replicate len 0"
    using assms by (intro nth_equalityI) (auto simp: zeros_at_def)
  then show ?thesis
    by (metis append_take_drop_id drop_drop add.commute)
qed

lemma length_segments [simp]: "length (segments a) = 8"
  by (simp add: segments_def)

lemma of_segments_segments [simp]: "of_segments (segments a) = a"
proof -
  obtain bs where bs: "to_be 16 a = bs" "length bs = 16" by simp
  have two: "to_be 2 (from_be xs :: u16) = xs" if "length xs = 2" for xs
    using that by (simp add: to_be_def from_be_def to_le_from_le)
  have "concat (map (to_be 2) (segments a)) =
      concat (map (\<lambda>i. take 2 (drop (2 * i) bs)) [0..<8])"
    using bs by (auto simp: segments_def comp_def two intro!: arg_cong [where f = concat] map_cong)
  also have "\<dots> = bs"
    using bs(2) by (auto simp: length_Suc_conv eval_nat_numeral)
  finally show ?thesis
    by (simp add: of_segments_def bs(1) [symmetric])
qed

lemma read_number_dec8:
  assumes "ends_number 10 rest"
  shows "read_number 10 256 3 False (dec8 w @ rest) = Some (unat w, rest)"
proof -
  let ?n = "unat w"
  have n: "?n < 256" using unsigned_less [of w] by simp
  have nz: "hex_digit m \<noteq> 48" if "0 < m" "m < 10" for m
  proof
    assume "hex_digit m = 48"
    then have "unat (hex_digit m) = 48" by simp
    with that show False by (simp add: unat_hex_digit)
  qed
  have d: "?n div 10 mod 10 < 10" "?n mod 10 < 10" by simp_all
  have three: "(?n div 100 * 10 + ?n div 10 mod 10) * 10 + ?n mod 10 = ?n"
    using div_mult_mod_eq [of "?n div 10" 10] div_mult_mod_eq [of ?n 10]
    by (simp add: div_mult2_eq [symmetric])
  consider "?n < 10" | "10 \<le> ?n" "?n < 100" | "100 \<le> ?n" by linarith
  then show ?thesis
  proof cases
    case 1
    with assms show ?thesis by (simp add: read_number_def dec8_def to_digit_dec Let_def)
  next
    case 2
    then have "?n div 10 < 10" "0 < ?n div 10" by linarith+
    with 2 d n assms nz [of "?n div 10"] show ?thesis
      by (simp add: read_number_def dec8_def to_digit_dec Let_def)
  next
    case 3
    then have "?n div 100 < 10" "0 < ?n div 100" using n by linarith+
    with 3 d n assms three nz [of "?n div 100"] show ?thesis
      by (simp add: read_number_def dec8_def to_digit_dec Let_def)
  qed
qed

lemma read_ipv4_show:
  assumes "length os = 4"
  shows "read_ipv4_addr (show_ipv4 os) = Some (os, [])"
proof -
  obtain a b c d where os: "os = [a, b, c, d]"
    using assms by (auto simp: length_Suc_conv eval_nat_numeral)
  have "read_number 10 256 3 False (dec8 w @ 46 # r) = Some (unat w, 46 # r)" for w r
    by (rule read_number_dec8) simp
  moreover have "read_number 10 256 3 False (dec8 w) = Some (unat w, [])" for w
    using read_number_dec8 [of "[]" w] by simp
  ultimately show ?thesis
    by (simp add: read_ipv4_addr_def show_ipv4_def os read_separated_def read_given_char_def
        eval_nat_numeral)
qed

lemma byte_at_high: "byte_at (4 + k) a = byte_at k (drop_bit 32 a)"
  by (simp add: byte_at_def algebra_simps)

lemma mapped_segments:
  assumes "is_ipv4_mapped a"
  defines "os \<equiv> drop 12 (to_be 16 a)"
  shows "of_segments (replicate 5 0 @ [0xFFFF, from_be (take 2 os), from_be (drop 2 os)]) = a"
proof -
  have ex: "to_be 16 a = map (\<lambda>i. byte_at i a) [15, 14, 13, 12, 11, 10, 9, 8, 7, 6, 5, 4, 3, 2, 1, 0]"
    by (simp add: to_be_def to_le_def upt_rec eval_nat_numeral)
  have hi: "byte_at i a = byte_at (i - 4) (0xFFFF :: u128)" if "4 \<le> i" for i
    using byte_at_high [of "i - 4" a] that assms(1) by (simp add: is_ipv4_mapped_def)
  have "map (\<lambda>i. byte_at (i - 4) (0xFFFF :: u128)) [15, 14, 13, 12, 11, 10, 9, 8, 7, 6, 5, 4] =
      [0, 0, 0, 0, 0, 0, 0, 0, 0, 0, 255, 255]"
    by (simp add: byte_at_def)
  then have be: "to_be 16 a = [0, 0, 0, 0, 0, 0, 0, 0, 0, 0, 255, 255] @ os" and os: "length os = 4"
    by (simp_all add: os_def ex hi)
  have two: "to_be 2 (from_be xs :: u16) = xs" if "length xs = 2" for xs
    using that by (simp add: to_be_def from_be_def to_le_from_le)
  have "to_be 2 (0 :: u16) = [0, 0]" "to_be 2 (0xFFFF :: u16) = [255, 255]"
    by (simp_all add: to_be_def to_le_expand byte_at_def)
  then have "concat (map (to_be 2) (replicate 5 (0 :: u16) @
      [0xFFFF, from_be (take 2 os), from_be (drop 2 os)])) = to_be 16 a"
    unfolding be using os two by (simp add: eval_nat_numeral)
  then show ?thesis by (simp add: of_segments_def)
qed

theorem parse_show_ipv6: "parse_ipv6 (show_ipv6 a) = Some a"
proof (cases "is_ipv4_mapped a")
  case True
  define os where "os = drop 12 (to_be 16 a)"
  have os: "length os = 4" by (simp add: os_def)
  have hx: "ascii ''::ffff:'' = [58, 58] @ hex16 0xFFFF @ [58]"
    by (simp add: ascii_def hex16_def hex_digit_def)
  let ?t = "hex16 0xFFFF @ 58 # show_ipv4 os"
  have sh: "show_ipv6 a = 58 # 58 # ?t" using True by (simp add: show_ipv6_def hx os_def)
  have a: "read_groups 6 False (58 # show_ipv4 os) =
      ([from_be (take 2 os), from_be (drop 2 os)], True, [])"
    using read_ipv4_show [OF os] by (simp add: read_separated_def read_given_char_def eval_nat_numeral)
  have "read_groups (Suc 6) True ?t =
      ([0xFFFF, from_be (take 2 os), from_be (drop 2 os)], True, [])"
    unfolding read_groups.simps
    using a read_ipv4_hex16 [of "58 # show_ipv4 os" "0xFFFF"]
      read_number_hex16 [of "58 # show_ipv4 os" "0xFFFF"]
    by (simp add: read_separated_def)
  moreover have "read_groups 8 True (58 # 58 # ?t) = ([], False, 58 # 58 # ?t)"
    by (rule read_groups_stop) (simp add: stops_groups_def)
  ultimately show ?thesis
    using mapped_segments [OF True, folded os_def]
    by (simp add: parse_ipv6_def sh read_given_char_def)
next
  case False
  let ?g = "segments a"
  obtain start len where sp: "zero_span 0 (0, 0) (0, 0) ?g = (start, len)" by force
  have z: "zeros_at ?g (start, len)"
    using zero_span_spec [of ?g "[]" ?g 0 "(0, 0)" "(0, 0)"] sp by (simp add: zeros_at_def)
  show ?thesis
  proof (cases "len > 1")
    case True
    let ?h = "take start ?g" and ?t = "drop (start + len) ?g"
    have l: "start + len \<le> 8" using z by (simp add: zeros_at_def)
    have "read_groups 8 True (group_text True ?h @ 58 # 58 # group_text True ?t) =
        (?h, False, 58 # 58 # group_text True ?t)"
      by (rule read_groups_text) (auto simp: stops_groups_def)
    moreover have "read_groups (8 - (start + 1)) True (group_text True ?t) = (?t, False, [])"
      using read_groups_text [of ?t "8 - (start + 1)" "[]" True] True l
      by (simp add: stops_groups_def)
    moreover have "length ?h = start" "length ?t = 8 - start - len" using l by auto
    moreover have "?h @ replicate len 0 @ ?t = ?g" by (rule split_at_zeros [OF z])
    moreover have "8 - start - (8 - start - len) = len" "start \<noteq> 8" using l True by simp_all
    ultimately show ?thesis
      using False True sp
      by (simp add: show_ipv6_def parse_ipv6_def read_given_char_def Let_def)
  next
    case len: False
    have "read_groups 8 True (group_text True ?g @ []) = (?g, False, [])"
      by (rule read_groups_text) (auto simp: stops_groups_def)
    then show ?thesis
      using False len sp by (simp add: show_ipv6_def parse_ipv6_def)
  qed
qed

end
