(* ===== verification/Interfaces.thy ===== *)
theory Interfaces
  imports Prelude
begin

text \<open>
  The contracts the components rely on, stated once as locales and interpreted on the
  model's own definitions in the theory of the component that provides them:
  \<open>entry_codec\<close> (an entry of a repeated field), \<open>wire_codec\<close> (what an encoder and its decoder promise), \<open>total_parser\<close> (a parser that
  decides every input), \<open>replay_guard\<close> (at most one acceptance per number),
  \<open>stable_state\<close> (an invariant every operation keeps) and \<open>host_addressing\<close> (what the
  allocator of client addresses expects of the subnet).
\<close>

section \<open>Encoders and decoders\<close>

locale wire_codec =
  fixes enc :: "'a \<Rightarrow> bytes result"
    and dec :: "bytes \<Rightarrow> 'a result"
    and wf :: "'a \<Rightarrow> bool"
  assumes roundtrip: "wf x \<Longrightarrow> enc x = Inr bs \<Longrightarrow> dec bs = Inr x"
begin

lemma enc_injective: "wf x \<Longrightarrow> wf y \<Longrightarrow> enc x = Inr bs \<Longrightarrow> enc y = Inr bs \<Longrightarrow> x = y"
  by (metis roundtrip sum.inject(2))

lemma reencode: "wf x \<Longrightarrow> enc x = Inr bs \<Longrightarrow> bind (dec bs) enc = Inr bs"
  by (simp add: roundtrip)

end

locale total_parser =
  fixes dec :: "bytes \<Rightarrow> 'a result"
  assumes no_panic: "dec bs \<noteq> Inl Panic"
begin

lemma decides: "(\<exists>x. dec bs = Inr x) \<or> (\<exists>e. e \<noteq> Panic \<and> dec bs = Inl e)"
  using no_panic [of bs] by (cases "dec bs") auto

end

section \<open>Loops over entries\<close>

text \<open>
  A \<open>for\<close> loop that appends the encodings of its entries, and the loop that reads a given
  number of entries back from an offset.  The loop body is the parameter.
\<close>

fun encode_entries :: "('e \<Rightarrow> bytes result) \<Rightarrow> 'e list \<Rightarrow> bytes result" where
  "encode_entries enc [] = Inr []"
| "encode_entries enc (e # es) =
     bind (enc e) (\<lambda>b. bind (encode_entries enc es) (\<lambda>r. Inr (b @ r)))"

fun decode_entries :: "(bytes \<Rightarrow> nat \<Rightarrow> ('e \<times> nat) result) \<Rightarrow> bytes \<Rightarrow> nat \<Rightarrow> nat \<Rightarrow> ('e list \<times> nat) result" where
  "decode_entries dec data offset 0 = Inr ([], offset)"
| "decode_entries dec data offset (Suc k) =
     bind (dec data offset) (\<lambda>(e, offset).
     bind (decode_entries dec data offset k) (\<lambda>(es, offset). Inr (e # es, offset)))"

locale entry_codec =
  fixes enc :: "'e \<Rightarrow> bytes result"
    and dec :: "bytes \<Rightarrow> nat \<Rightarrow> ('e \<times> nat) result"
    and wf :: "'e \<Rightarrow> bool"
  assumes entry: "wf e \<Longrightarrow> enc e = Inr b \<Longrightarrow> drop off data = b @ post \<Longrightarrow> off \<le> length data \<Longrightarrow>
      dec data off = Inr (e, off + length b)"
    and entry_wf: "dec data off = Inr (e, off') \<Longrightarrow> wf e"
    and entry_no_panic: "dec data off \<noteq> Inl Panic"
begin

lemma entries_roundtrip:
  "encode_entries enc es = Inr bs \<Longrightarrow> list_all wf es \<Longrightarrow> drop off data = bs @ post \<Longrightarrow>
   off \<le> length data \<Longrightarrow> decode_entries dec data off (length es) = Inr (es, off + length bs)"
proof (induction es arbitrary: off bs)
  case (Cons e es)
  obtain b r where b: "enc e = Inr b" and r: "encode_entries enc es = Inr r" and bs: "bs = b @ r"
    using Cons.prems(1) by (auto simp: bind_eq_Inr)
  have e: "dec data off = Inr (e, off + length b)"
    using Cons.prems b bs by (intro entry) auto
  have "drop (off + length b) data = drop (length b) (drop off data)" by (simp add: add.commute)
  moreover have "length data - off = length b + length (r @ post)"
    using Cons.prems(3) bs by (metis append_assoc length_append length_drop)
  ultimately have "drop (off + length b) data = r @ post" "off + length b \<le> length data"
    using Cons.prems(3,4) bs by simp_all
  with Cons.IH [OF r] Cons.prems(2) e bs show ?case by simp
qed simp

lemma entries_no_panic: "decode_entries dec data off n \<noteq> Inl Panic"
  by (induction n arbitrary: off) (auto simp: bind_eq_Inl entry_no_panic)

lemma entries_wf:
  "decode_entries dec data off n = Inr (es, off') \<Longrightarrow> list_all wf es \<and> length es = n"
  by (induction n arbitrary: off es off') (auto simp: bind_eq_Inr dest: entry_wf)

end

section \<open>Acceptance at most once\<close>

text \<open>
  \<open>accept_run fresh mark s cs\<close> offers the numbers \<open>cs\<close> one after the other to a filter in
  state \<open>s\<close> and returns those it accepts, in order.
\<close>

fun accept_run :: "('s \<Rightarrow> 'c \<Rightarrow> bool) \<Rightarrow> ('s \<Rightarrow> 'c \<Rightarrow> 's) \<Rightarrow> 's \<Rightarrow> 'c list \<Rightarrow> 'c list" where
  "accept_run fresh mark s [] = []"
| "accept_run fresh mark s (c # cs) =
     (if fresh s c then c # accept_run fresh mark (mark s c) cs else accept_run fresh mark s cs)"

locale replay_guard =
  fixes fresh :: "'s \<Rightarrow> 'c \<Rightarrow> bool"
    and mark :: "'s \<Rightarrow> 'c \<Rightarrow> 's"
    and inv :: "'s \<Rightarrow> bool"
  assumes inv_mark: "inv s \<Longrightarrow> fresh s c \<Longrightarrow> inv (mark s c)"
    and consumed: "inv s \<Longrightarrow> fresh s c \<Longrightarrow> \<not> fresh (mark s c) c"
    and stays: "inv s \<Longrightarrow> fresh s d \<Longrightarrow> \<not> fresh s c \<Longrightarrow> \<not> fresh (mark s d) c"
begin

lemma not_fresh_never_accepted:
  "inv s \<Longrightarrow> \<not> fresh s c \<Longrightarrow> c \<notin> set (accept_run fresh mark s cs)"
proof (induction cs arbitrary: s)
  case (Cons d cs)
  then show ?case by (auto simp: inv_mark stays)
qed simp

lemma accept_run_distinct: "inv s \<Longrightarrow> distinct (accept_run fresh mark s cs)"
proof (induction cs arbitrary: s)
  case (Cons d cs)
  then show ?case
    by (auto simp: inv_mark consumed not_fresh_never_accepted)
qed simp

lemma accept_run_subset: "set (accept_run fresh mark s cs) \<subseteq> set cs"
  by (induction cs arbitrary: s) auto

end

section \<open>Invariants of stateful components\<close>

locale stable_state =
  fixes step :: "'s \<Rightarrow> 'e \<Rightarrow> 's"
    and inv :: "'s \<Rightarrow> bool"
  assumes inv_step: "inv s \<Longrightarrow> inv (step s e)"
begin

lemma inv_run: "inv s \<Longrightarrow> inv (foldl step s es)"
  by (induction es arbitrary: s) (auto simp: inv_step)

end

section \<open>Host addresses of a subnet\<close>

text \<open>
  What the address allocator expects of the subnet: host offsets between one and the
  largest offset name distinct addresses.
\<close>

locale host_addressing =
  fixes addr_of :: "u32 \<Rightarrow> u32 option"
    and max_offset :: u32
  assumes addr_some: "0 < off \<Longrightarrow> off \<le> max_offset \<Longrightarrow> addr_of off \<noteq> None"
    and addr_inj: "addr_of off = Some ip \<Longrightarrow> addr_of off' = Some ip \<Longrightarrow> off = off'"
begin

lemma addr_none_or_unique: "addr_of off = None \<or> (\<exists>!ip. addr_of off = Some ip)"
  by (cases "addr_of off") auto

lemma distinct_offsets_distinct_addrs:
  "addr_of off = Some ip \<Longrightarrow> addr_of off' = Some ip' \<Longrightarrow> off \<noteq> off' \<Longrightarrow> ip \<noteq> ip'"
  using addr_inj by blast

end

end
