(* ===== verification/Network_Config.thy ===== *)
theory Network_Config
  imports Ipv6_Text Interfaces
begin

text \<open>
  \<open>aivpn_common::network_config\<close>: the server's VPN subnet (\<open>VpnNetworkConfig\<close>), the
  assignment pushed to a client (\<open>ClientNetworkConfig\<close>) and its 30-byte wire form.  An
  IPv4 address is its 32-bit value, an IPv6 address its 128-bit value; the client's IPv6
  address is kept as text, as in the source.
\<close>

section \<open>Data\<close>

definition MAX_MASK_TUN_MTU :: u16 where "MAX_MASK_TUN_MTU = 1500"
definition DEFAULT_VPN_MTU :: u16 where "DEFAULT_VPN_MTU = 1280"
definition DEFAULT_KEEPALIVE_SECS :: u8 where "DEFAULT_KEEPALIVE_SECS = 8"
definition LEGACY_VPN_PREFIX_LEN :: u8 where "LEGACY_VPN_PREFIX_LEN = 24"
definition LEGACY_SERVER_VPN_IP :: u32 where "LEGACY_SERVER_VPN_IP = from_be [10, 0, 0, 1]"

definition default_ipv6_prefix :: rstring where
  "default_ipv6_prefix = ascii ''fd10:cafe::/48''"

record VpnNetworkConfig =
  vnc_server_vpn_ip :: u32
  vnc_prefix_len :: u8
  vnc_mtu :: u16
  vnc_keepalive_secs :: "u8 option"
  vnc_ipv6_enabled :: bool
  vnc_ipv6_prefix :: rstring

definition default_VpnNetworkConfig :: VpnNetworkConfig where
  "default_VpnNetworkConfig =
     \<lparr>vnc_server_vpn_ip = LEGACY_SERVER_VPN_IP, vnc_prefix_len = LEGACY_VPN_PREFIX_LEN,
      vnc_mtu = DEFAULT_VPN_MTU, vnc_keepalive_secs = None, vnc_ipv6_enabled = False,
      vnc_ipv6_prefix = default_ipv6_prefix\<rparr>"

record ClientNetworkConfig =
  cnc_client_ip :: u32
  cnc_server_vpn_ip :: u32
  cnc_prefix_len :: u8
  cnc_mtu :: u16
  cnc_mdh_len :: u16
  cnc_keepalive_secs :: "u8 option"
  cnc_ipv6_address :: "rstring option"
  cnc_ipv6_prefix_len :: "u8 option"

definition default_mdh_len :: u16 where "default_mdh_len = 20"

section \<open>Subnet arithmetic\<close>

definition mask_u32 :: "VpnNetworkConfig \<Rightarrow> u32" where
  "mask_u32 c =
     (let p = unat (vnc_prefix_len c) in
      if p = 0 then 0 else if p \<ge> 32 then - 1 else push_bit (32 - p) (- 1))"

definition prefix_len_to_netmask :: "u8 \<Rightarrow> u32" where
  "prefix_len_to_netmask pl =
     (let p = unat pl in
      if p = 0 then 0 else if p \<ge> 32 then - 1 else push_bit (32 - p) (- 1))"

definition netmask_to_prefix_len :: "u32 \<Rightarrow> u8 result" where
  "netmask_to_prefix_len m =
     (let p = length (takeWhile (\<lambda>i. bit m (31 - i)) [0..<32]);
          expected = (if p = 0 then 0 else push_bit (32 - p) (- 1))
      in if m \<noteq> expected then Inl (InvalidPacket ''VPN netmask must be contiguous'')
         else Inr (of_nat p))"

definition network_u32 :: "VpnNetworkConfig \<Rightarrow> u32" where
  "network_u32 c = vnc_server_vpn_ip c AND mask_u32 c"

definition network_addr :: "VpnNetworkConfig \<Rightarrow> u32" where
  "network_addr c = vnc_server_vpn_ip c AND mask_u32 c"

definition broadcast_addr :: "VpnNetworkConfig \<Rightarrow> u32" where
  "broadcast_addr c = network_u32 c OR NOT (mask_u32 c)"

definition vnc_netmask :: "VpnNetworkConfig \<Rightarrow> u32" where
  "vnc_netmask c = prefix_len_to_netmask (vnc_prefix_len c)"

definition vnc_cidr_string :: "VpnNetworkConfig \<Rightarrow> rstring" where
  "vnc_cidr_string c = show_ipv4 (to_be 4 (network_addr c)) @ [47] @ dec8 (vnc_prefix_len c)"

definition cnc_cidr_string :: "ClientNetworkConfig \<Rightarrow> rstring" where
  "cnc_cidr_string c = show_ipv4 (to_be 4 (cnc_client_ip c)) @ [47] @ dec8 (cnc_prefix_len c)"

definition contains :: "VpnNetworkConfig \<Rightarrow> u32 \<Rightarrow> bool" where
  "contains c ip \<longleftrightarrow> ip AND mask_u32 c = network_u32 c"

definition host_offset :: "VpnNetworkConfig \<Rightarrow> u32 \<Rightarrow> u32" where
  "host_offset c ip = ip AND NOT (mask_u32 c)"

definition max_host_offset :: "VpnNetworkConfig \<Rightarrow> u32" where
  "max_host_offset c = (let h = NOT (mask_u32 c) in if h = 0 then 0 else h - 1)"

definition is_usable_host :: "VpnNetworkConfig \<Rightarrow> u32 \<Rightarrow> bool" where
  "is_usable_host c ip \<longleftrightarrow> contains c ip \<and> ip \<noteq> network_addr c \<and> ip \<noteq> broadcast_addr c"

definition ip_for_host_offset :: "VpnNetworkConfig \<Rightarrow> u32 \<Rightarrow> u32 option" where
  "ip_for_host_offset c off =
     (if off = 0 \<or> off > max_host_offset c then None else Some (network_u32 c OR off))"

section \<open>IPv6\<close>

definition v6_mask :: "u8 \<Rightarrow> u128" where
  "v6_mask p = push_bit (128 - unat p) (- 1)"

definition ipv6_gateway :: "VpnNetworkConfig \<Rightarrow> (u128 \<times> u8) result" where
  "ipv6_gateway c =
     (let invalid = Inl (InvalidPacket ''Invalid VPN IPv6 prefix'') in
      case split_once 47 (vnc_ipv6_prefix c) of
        None \<Rightarrow> invalid
      | Some (address_text, prefix_text) \<Rightarrow>
          (case parse_ipv6 address_text of
             None \<Rightarrow> invalid
           | Some address \<Rightarrow>
               (case parse_u8 prefix_text of
                  None \<Rightarrow> invalid
                | Some prefix \<Rightarrow>
                    (if prefix = 0 \<or> prefix > 96 \<or> is_multicast address \<or> is_loopback address
                     then invalid
                     else
                       (let gateway = (address AND v6_mask prefix) OR 1 in
                        if is_loopback gateway \<or> is_unicast_link_local gateway \<or>
                           is_ipv4_mapped gateway
                        then invalid
                        else Inr (gateway, prefix))))))"

definition vnc_client_ipv6 :: "VpnNetworkConfig \<Rightarrow> u32 \<Rightarrow> ((u128 \<times> u8) option) result" where
  "vnc_client_ipv6 c ip =
     (if \<not> vnc_ipv6_enabled c then Inr None
      else if \<not> is_usable_host c ip \<or> ip = vnc_server_vpn_ip c
      then Inl (InvalidPacket ''Invalid client IPv4 for IPv6 allocation'')
      else bind (ipv6_gateway c) (\<lambda>(gateway, prefix).
        (let base = gateway AND v6_mask prefix in Inr (Some (base OR ucast ip, prefix)))))"

definition client_ip_for_ipv6 :: "VpnNetworkConfig \<Rightarrow> u128 \<Rightarrow> u32 option" where
  "client_ip_for_ipv6 c address =
     (let ip = (ucast address :: u32) in
      case vnc_client_ipv6 c ip of
        Inr (Some (assigned, _)) \<Rightarrow> if assigned = address then Some ip else None
      | _ \<Rightarrow> None)"

section \<open>Validation and assignment\<close>

definition vnc_validate :: "VpnNetworkConfig \<Rightarrow> unit result" where
  "vnc_validate c =
     bind (if vnc_ipv6_enabled c
           then bind (ipv6_gateway c) (\<lambda>_.
             if vnc_mtu c < 1280 then Inl (InvalidPacket ''IPv6 requires MTU of at least 1280'')
             else Inr ())
           else Inr ()) (\<lambda>_.
     if \<not> (1 \<le> vnc_prefix_len c \<and> vnc_prefix_len c \<le> 30)
     then Inl (InvalidPacket ''VPN prefix length must be in range 1..=30'')
     else if vnc_server_vpn_ip c = network_addr c \<or> vnc_server_vpn_ip c = broadcast_addr c
     then Inl (InvalidPacket ''Server VPN IP must be a usable host address'')
     else Inr ())"

definition client_config :: "VpnNetworkConfig \<Rightarrow> u32 \<Rightarrow> ClientNetworkConfig result" where
  "client_config c ip =
     bind (vnc_validate c) (\<lambda>_.
     if \<not> is_usable_host c ip
     then Inl (InvalidPacket ''Client VPN IP is outside configured VPN subnet'')
     else if ip = vnc_server_vpn_ip c
     then Inl (InvalidPacket ''Client VPN IP cannot equal server VPN IP'')
     else bind (vnc_client_ipv6 c ip) (\<lambda>v6.
       Inr \<lparr>cnc_client_ip = ip, cnc_server_vpn_ip = vnc_server_vpn_ip c, cnc_prefix_len = vnc_prefix_len c,
            cnc_mtu = min (vnc_mtu c) MAX_MASK_TUN_MTU, cnc_mdh_len = default_mdh_len,
            cnc_keepalive_secs = vnc_keepalive_secs c,
            cnc_ipv6_address = map_option (show_ipv6 \<circ> fst) v6,
            cnc_ipv6_prefix_len = map_option snd v6\<rparr>))"

definition cnc_client_ipv6 :: "ClientNetworkConfig \<Rightarrow> ((u128 \<times> u8) option) result" where
  "cnc_client_ipv6 c =
     (case (cnc_ipv6_address c, cnc_ipv6_prefix_len c) of
        (None, None) \<Rightarrow> Inr None
      | (Some address_text, Some prefix) \<Rightarrow>
          (if 1 \<le> prefix \<and> prefix \<le> 96 \<and> cnc_mtu c \<ge> 1280 then
             (case parse_ipv6 address_text of
                None \<Rightarrow> Inl (InvalidPacket ''Invalid client IPv6'')
              | Some address \<Rightarrow>
                  (if is_unspecified address \<or> is_loopback address \<or> is_multicast address
                   then Inl (InvalidPacket ''Invalid client IPv6'')
                   else Inr (Some (address, prefix))))
           else Inl (InvalidPacket ''Invalid client IPv6 configuration''))
      | _ \<Rightarrow> Inl (InvalidPacket ''Invalid client IPv6 configuration''))"

definition cnc_validate :: "ClientNetworkConfig \<Rightarrow> unit result" where
  "cnc_validate c =
     bind (cnc_client_ipv6 c) (\<lambda>_.
     bind (client_config
             \<lparr>vnc_server_vpn_ip = cnc_server_vpn_ip c, vnc_prefix_len = cnc_prefix_len c, vnc_mtu = cnc_mtu c,
              vnc_keepalive_secs = None, vnc_ipv6_enabled = False, vnc_ipv6_prefix = default_ipv6_prefix\<rparr>
             (cnc_client_ip c)) (\<lambda>_. Inr ()))"

section \<open>Wire form\<close>

definition WIRE_SIZE :: nat where "WIRE_SIZE = 30"
definition WIRE_VERSION :: u8 where "WIRE_VERSION = 2"

definition encode_wire :: "ClientNetworkConfig \<Rightarrow> bytes" where
  "encode_wire c =
     [WIRE_VERSION, cnc_prefix_len c] @ to_le 2 (cnc_mtu c) @ to_be 4 (cnc_server_vpn_ip c) @
     to_be 4 (cnc_client_ip c) @ [case cnc_keepalive_secs c of None \<Rightarrow> 0 | Some k \<Rightarrow> k] @
     (case cnc_client_ipv6 c of
        Inr (Some (address, prefix)) \<Rightarrow> prefix # to_be 16 address
      | _ \<Rightarrow> replicate 17 0)"

definition decode_wire :: "bytes \<Rightarrow> ClientNetworkConfig result" where
  "decode_wire data =
     (if length data < 12
      then Inl (InvalidPacket ''Client network config has invalid wire length'')
      else bind (idx data 0) (\<lambda>version.
      if version \<noteq> WIRE_VERSION
      then Inl (InvalidPacket ''Unsupported client network config wire version'')
      else bind (idx data 1) (\<lambda>prefix.
      if \<not> (1 \<le> prefix \<and> prefix \<le> 30)
      then Inl (InvalidPacket ''Client network config prefix length out of range'')
      else bind (if 13 \<le> length data
                 then bind (idx data 12) (\<lambda>k. Inr (if 0 < k then Some k else None))
                 else Inr None) (\<lambda>keepalive.
      if 13 < length data \<and> length data \<noteq> WIRE_SIZE
      then Inl (InvalidPacket ''Truncated IPv6 network config'')
      else bind (if length data = WIRE_SIZE then idx data 13 else Inr 0) (\<lambda>v6p.
      if length data = WIRE_SIZE \<and> v6p = 0 \<and> list_ex (\<lambda>b. b \<noteq> 0) (drop 14 data)
      then Inl (InvalidPacket ''IPv6 address without prefix length'')
      else
        (let ipv6 = (length data = WIRE_SIZE \<and> v6p \<noteq> 0) in
         bind (slice data 2 4) (\<lambda>m.
         bind (slice data 4 8) (\<lambda>s.
         bind (slice data 8 12) (\<lambda>cl.
         bind (if ipv6 then bind (slice data 14 30) (\<lambda>a. Inr (Some (show_ipv6 (from_be a))))
               else Inr None) (\<lambda>address.
         (let config = \<lparr>cnc_client_ip = from_be cl, cnc_server_vpn_ip = from_be s,
                        cnc_prefix_len = prefix, cnc_mtu = from_le m, cnc_mdh_len = default_mdh_len,
                        cnc_keepalive_secs = keepalive, cnc_ipv6_address = address,
                        cnc_ipv6_prefix_len = (if ipv6 then Some v6p else None)\<rparr>
          in bind (cnc_validate config) (\<lambda>_. Inr config)))))))))))
      )"

section \<open>Masks and host offsets\<close>

lemma bit_mask_u32: "bit (mask_u32 c) i \<longleftrightarrow> i < 32 \<and> 32 \<le> i + unat (vnc_prefix_len c)"
  by (auto simp: mask_u32_def Let_def bit_simps)

lemma bit_prefix_len_to_netmask:
  "bit (prefix_len_to_netmask p) i \<longleftrightarrow> i < 32 \<and> 32 \<le> i + unat p"
  by (auto simp: prefix_len_to_netmask_def Let_def bit_simps)

lemma not_mask_u32: "NOT (mask_u32 c) = mask (32 - unat (vnc_prefix_len c))"
  by (rule bit_word_eqI) (auto simp: bit_mask_u32 bit_simps)

lemma netmask_is_mask: "vnc_netmask c = mask_u32 c"
  by (rule bit_word_eqI) (simp add: vnc_netmask_def bit_prefix_len_to_netmask bit_mask_u32)

lemma split_host: "(ip AND m) OR (ip AND NOT m) = (ip :: u32)"
  by (rule bit_word_eqI) (auto simp: bit_simps)

lemma host_part:
  "off AND NOT m = off \<Longrightarrow> ((x AND m) OR off) AND m = x AND (m :: u32)"
  "off AND NOT m = off \<Longrightarrow> ((x AND m) OR off) AND NOT m = off"
  by (rule bit_word_eqI; simp add: bit_eq_iff bit_simps; metis)+

lemma unat_mask: "unat (mask n :: 'a::len word) = mask (min LENGTH('a) n)"
  by (rule bit_eqI) (auto simp: bit_simps)

lemma word_le_mask: "(w :: 'a::len word) \<le> mask n \<longleftrightarrow> w AND mask n = w"
proof -
  have "w AND mask n = w \<longleftrightarrow> take_bit n (unat w) = unat w"
    by (metis take_bit_eq_mask unsigned_take_bit_eq unsigned_word_eqI)
  moreover have "w \<le> mask n \<longleftrightarrow> unat w < 2 ^ min LENGTH('a) n"
    by (simp add: word_le_nat_alt unat_mask mask_eq_exp_minus_1 [where 'a = nat] flip: less_Suc_eq_le)
  moreover have "LENGTH('a) \<le> n \<Longrightarrow> unat w < 2 ^ n"
    using unsigned_less [of w] by (rule less_le_trans) (simp add: power_increasing)
  ultimately show ?thesis
    using unsigned_less [of w] by (auto simp: take_bit_nat_eq_self_iff min_def)
qed

lemma below_host_mask: "off \<le> NOT (mask_u32 c) \<longleftrightarrow> off AND NOT (mask_u32 c) = off"
  unfolding not_mask_u32 by (rule word_le_mask)

lemma le_max_host_offset:
  "0 < off \<Longrightarrow> off \<le> max_host_offset c \<longleftrightarrow> off < NOT (mask_u32 c)"
  unfolding max_host_offset_def Let_def
  by (auto simp: word_le_nat_alt word_less_nat_alt unat_minus_one unat_eq_0)

lemma usable_host_offset:
  "ip_for_host_offset c off = Some ip \<longleftrightarrow> is_usable_host c ip \<and> host_offset c ip = off"
proof -
  let ?m = "mask_u32 c" and ?n = "vnc_server_vpn_ip c AND mask_u32 c"
  have "ip_for_host_offset c off = Some ip \<longleftrightarrow>
      off \<noteq> 0 \<and> off \<noteq> NOT ?m \<and> off AND NOT ?m = off \<and> ip = ?n OR off"
    unfolding ip_for_host_offset_def network_u32_def below_host_mask [symmetric]
    using le_max_host_offset [of off c] by (auto simp: word_gt_0 order.strict_iff_order not_le)
  also have "\<dots> \<longleftrightarrow> ip AND ?m = ?n \<and> ip AND NOT ?m = off \<and> off \<noteq> 0 \<and> off \<noteq> NOT ?m"
    using host_part [of off ?m "vnc_server_vpn_ip c"] split_host [of ip ?m]
    by (auto simp: and.assoc)
  also have "\<dots> \<longleftrightarrow> is_usable_host c ip \<and> host_offset c ip = off"
    using host_part [of "NOT ?m" ?m "vnc_server_vpn_ip c"] host_part [of 0 ?m "vnc_server_vpn_ip c"]
      split_host [of ip ?m]
    unfolding is_usable_host_def contains_def network_addr_def broadcast_addr_def network_u32_def
      host_offset_def by auto
  finally show ?thesis .
qed

interpretation host: host_addressing "ip_for_host_offset c" "max_host_offset c" for c
proof unfold_locales
  show "0 < off \<Longrightarrow> off \<le> max_host_offset c \<Longrightarrow> ip_for_host_offset c off \<noteq> None" for off
    by (auto simp: ip_for_host_offset_def)
  show "ip_for_host_offset c off = Some ip \<Longrightarrow> ip_for_host_offset c off' = Some ip \<Longrightarrow> off = off'"
    for off off' ip
    by (simp add: usable_host_offset)
qed

section \<open>Netmasks\<close>

lemma leading_ones_netmask:
  assumes "p \<le> 32"
  shows "takeWhile (\<lambda>i. bit (prefix_len_to_netmask (of_nat p)) (31 - i)) [0..<32] = [0..<p]"
proof -
  have p: "unat (of_nat p :: u8) = p" using assms by (simp add: unat_of_nat)
  have "takeWhile (\<lambda>i. bit (prefix_len_to_netmask (of_nat p)) (31 - i)) [0..<32] =
      takeWhile (\<lambda>i. i < p) [0..<32]"
    by (rule takeWhile_cong) (auto simp: bit_prefix_len_to_netmask p)
  moreover have "[0..<32] = [0..<p] @ [p..<32]"
    using upt_add_eq_append [of 0 p "32 - p"] assms by simp
  then have "takeWhile (\<lambda>i. i < p) [0..<32] = [0..<p]"
    by (cases "p < 32") (simp_all add: upt_conv_Cons takeWhile_append)
  ultimately show ?thesis by simp
qed

lemma expected_netmask:
  "p \<le> 32 \<Longrightarrow>
   (if p = 0 then 0 else push_bit (32 - p) (- 1)) = prefix_len_to_netmask (of_nat p)"
  by (rule bit_word_eqI) (auto simp: bit_prefix_len_to_netmask bit_simps unat_of_nat)

lemma netmask_prefix_iff:
  "netmask_to_prefix_len m = Inr p \<longleftrightarrow> unat p \<le> 32 \<and> m = prefix_len_to_netmask p"
proof
  let ?p = "length (takeWhile (\<lambda>i. bit m (31 - i)) [0..<32])"
  have le: "?p \<le> 32" using length_takeWhile_le [of _ "[0..<32]"] by simp
  assume "netmask_to_prefix_len m = Inr p"
  then have "p = of_nat ?p" "m = (if ?p = 0 then 0 else push_bit (32 - ?p) (- 1))"
    by (simp_all add: netmask_to_prefix_len_def Let_def split: if_splits)
  with expected_netmask [OF le] le show "unat p \<le> 32 \<and> m = prefix_len_to_netmask p"
    by (simp add: unat_of_nat)
next
  assume *: "unat p \<le> 32 \<and> m = prefix_len_to_netmask p"
  then have "length (takeWhile (\<lambda>i. bit m (31 - i)) [0..<32]) = unat p"
    using leading_ones_netmask [of "unat p"] by simp
  with * show "netmask_to_prefix_len m = Inr p"
    using expected_netmask [of "unat p"] by (simp add: netmask_to_prefix_len_def Let_def)
qed

section \<open>IPv6 assignment\<close>

lemma bit_v6_mask: "bit (v6_mask p) i \<longleftrightarrow> i < 128 \<and> 128 \<le> i + unat p"
  by (auto simp: v6_mask_def bit_simps)

lemma ipv6_gateway_Inr:
  assumes "ipv6_gateway c = Inr (g, p)"
  shows "0 < p \<and> p \<le> 96 \<and> g \<noteq> 1 \<and> (\<exists>a. g = (a AND v6_mask p) OR 1 \<and> \<not> is_multicast a)"
  using assms unfolding ipv6_gateway_def Let_def
  by (auto split: option.splits prod.splits if_splits simp: is_loopback_def word_gt_0 not_less)

lemma v6_base:
  assumes "p \<le> 96"
  shows "((a AND v6_mask p) OR 1) AND v6_mask p = a AND v6_mask p"
    and "ucast ((a AND v6_mask p) OR ucast ip) = (ip :: u32)"
proof -
  have p: "unat p \<le> 96" using assms by (simp add: word_le_nat_alt)
  show "((a AND v6_mask p) OR 1) AND v6_mask p = a AND v6_mask p"
    using p by (intro bit_word_eqI) (auto simp: bit_simps bit_v6_mask)
  show "ucast ((a AND v6_mask p) OR ucast ip) = ip"
    using p by (intro bit_word_eqI) (auto simp: bit_simps bit_v6_mask)
qed

lemma vnc_client_ipv6_Some:
  assumes "vnc_client_ipv6 c ip = Inr (Some (v, p))"
  obtains a where "0 < p" "p \<le> 96" "v = (a AND v6_mask p) OR ucast ip"
    "a AND v6_mask p \<noteq> 0" "\<not> is_multicast a"
proof -
  obtain g where g: "ipv6_gateway c = Inr (g, p)" and v: "v = (g AND v6_mask p) OR ucast ip"
    using assms unfolding vnc_client_ipv6_def Let_def by (auto split: if_splits simp: bind_eq_Inr)
  from ipv6_gateway_Inr [OF g] obtain a
    where "0 < p" "p \<le> 96" "g = (a AND v6_mask p) OR 1" "g \<noteq> 1" "\<not> is_multicast a" by blast
  with v show ?thesis by (intro that [of a]) (auto simp: v6_base)
qed

lemma client_ip_for_ipv6_iff:
  "client_ip_for_ipv6 c v = Some ip \<longleftrightarrow> (\<exists>p. vnc_client_ipv6 c ip = Inr (Some (v, p)))"
proof
  assume "client_ip_for_ipv6 c v = Some ip"
  then show "\<exists>p. vnc_client_ipv6 c ip = Inr (Some (v, p))"
    by (auto simp: client_ip_for_ipv6_def Let_def split: sum.splits option.splits prod.splits if_splits)
next
  assume "\<exists>p. vnc_client_ipv6 c ip = Inr (Some (v, p))"
  then obtain p where p: "vnc_client_ipv6 c ip = Inr (Some (v, p))" ..
  then have "ucast v = ip" by (auto elim!: vnc_client_ipv6_Some simp: v6_base)
  with p show "client_ip_for_ipv6 c v = Some ip" by (simp add: client_ip_for_ipv6_def Let_def)
qed

section \<open>The wire form\<close>

text \<open>
  What the wire form keeps of a configuration: it has to be valid, with the default
  header length, a non-zero keepalive and an IPv6 address in its printed form.
\<close>

definition wire_client_config :: "ClientNetworkConfig \<Rightarrow> bool" where
  "wire_client_config x \<longleftrightarrow>
     cnc_validate x = Inr () \<and> cnc_mdh_len x = default_mdh_len \<and>
     cnc_keepalive_secs x \<noteq> Some 0 \<and>
     (case cnc_ipv6_address x of
        None \<Rightarrow> True
      | Some s \<Rightarrow> (case parse_ipv6 s of None \<Rightarrow> False | Some a \<Rightarrow> show_ipv6 a = s))"

lemma vnc_validate_prefix: "vnc_validate c = Inr () \<Longrightarrow> 1 \<le> vnc_prefix_len c \<and> vnc_prefix_len c \<le> 30"
  by (auto simp: vnc_validate_def bind_eq_Inr split: if_splits)

lemma client_config_Inr:
  "client_config c ip = Inr x \<longleftrightarrow>
     vnc_validate c = Inr () \<and> is_usable_host c ip \<and> ip \<noteq> vnc_server_vpn_ip c \<and>
     (\<exists>v6. vnc_client_ipv6 c ip = Inr v6 \<and>
       x = \<lparr>cnc_client_ip = ip, cnc_server_vpn_ip = vnc_server_vpn_ip c,
            cnc_prefix_len = vnc_prefix_len c, cnc_mtu = min (vnc_mtu c) MAX_MASK_TUN_MTU,
            cnc_mdh_len = default_mdh_len, cnc_keepalive_secs = vnc_keepalive_secs c,
            cnc_ipv6_address = map_option (show_ipv6 \<circ> fst) v6,
            cnc_ipv6_prefix_len = map_option snd v6\<rparr>)"
  by (auto simp: client_config_def bind_eq_Inr)

lemma subnet_cong:
  assumes "vnc_server_vpn_ip c = vnc_server_vpn_ip d" "vnc_prefix_len c = vnc_prefix_len d"
  shows "is_usable_host c = is_usable_host d" "network_addr c = network_addr d"
    "broadcast_addr c = broadcast_addr d"
  using assms
  by (auto simp: is_usable_host_def contains_def network_addr_def broadcast_addr_def
      network_u32_def mask_u32_def fun_eq_iff)

text \<open>The IPv4 part of a client configuration as a subnet of its own.\<close>

definition subnet_of :: "ClientNetworkConfig \<Rightarrow> VpnNetworkConfig" where
  "subnet_of x = \<lparr>vnc_server_vpn_ip = cnc_server_vpn_ip x, vnc_prefix_len = cnc_prefix_len x,
     vnc_mtu = cnc_mtu x, vnc_keepalive_secs = None, vnc_ipv6_enabled = False,
     vnc_ipv6_prefix = default_ipv6_prefix\<rparr>"

lemma cnc_validate_iff:
  "cnc_validate x = Inr () \<longleftrightarrow>
     (\<exists>v6. cnc_client_ipv6 x = Inr v6) \<and> vnc_validate (subnet_of x) = Inr () \<and>
     is_usable_host (subnet_of x) (cnc_client_ip x) \<and> cnc_client_ip x \<noteq> cnc_server_vpn_ip x"
  unfolding cnc_validate_def subnet_of_def
  by (auto simp: bind_eq_Inr client_config_Inr vnc_client_ipv6_def)

lemma cnc_client_ipv6_Inr:
  "cnc_client_ipv6 x = Inr v6 \<longleftrightarrow>
     (v6 = None \<and> cnc_ipv6_address x = None \<and> cnc_ipv6_prefix_len x = None) \<or>
     (\<exists>s a p. v6 = Some (a, p) \<and> cnc_ipv6_address x = Some s \<and> cnc_ipv6_prefix_len x = Some p \<and>
        1 \<le> p \<and> p \<le> 96 \<and> 1280 \<le> cnc_mtu x \<and> parse_ipv6 s = Some a \<and>
        \<not> is_unspecified a \<and> \<not> is_loopback a \<and> \<not> is_multicast a)"
  unfolding cnc_client_ipv6_def by (auto split: option.splits if_splits)

lemma length_encode_wire [simp]: "length (encode_wire x) = 30"
  by (auto simp: encode_wire_def split: sum.splits option.splits)

lemma encode_wire_fields:
  "encode_wire x ! 0 = WIRE_VERSION" "encode_wire x ! Suc 0 = cnc_prefix_len x"
  "take 2 (drop 2 (encode_wire x)) = to_le 2 (cnc_mtu x)"
  "take 4 (drop 4 (encode_wire x)) = to_be 4 (cnc_server_vpn_ip x)"
  "take 4 (drop 8 (encode_wire x)) = to_be 4 (cnc_client_ip x)"
  by (simp_all add: encode_wire_def nth_append)

lemma encode_wire_keepalive:
  "encode_wire x ! 12 = (case cnc_keepalive_secs x of None \<Rightarrow> 0 | Some k \<Rightarrow> k)"
  by (simp add: encode_wire_def nth_append)

lemma encode_wire_tail:
  "drop 13 (encode_wire x) =
     (case cnc_client_ipv6 x of Inr (Some (a, p)) \<Rightarrow> p # to_be 16 a | _ \<Rightarrow> replicate 17 0)"
  by (simp add: encode_wire_def)

lemma encode_wire_v6:
  "cnc_client_ipv6 x = Inr (Some (a, p)) \<Longrightarrow> encode_wire x ! 13 = p"
  "cnc_client_ipv6 x = Inr (Some (a, p)) \<Longrightarrow> drop 14 (encode_wire x) = to_be 16 a"
  "cnc_client_ipv6 x = Inr None \<Longrightarrow> encode_wire x ! 13 = 0"
  "cnc_client_ipv6 x = Inr None \<Longrightarrow> drop 14 (encode_wire x) = replicate 16 0"
  using encode_wire_tail [of x] nth_drop [of 13 "encode_wire x" 0] drop_drop [of 1 13 "encode_wire x"]
  by simp_all

lemma decode_encode_wire:
  assumes "wire_client_config x"
  shows "decode_wire (encode_wire x) = Inr x"
proof -
  have val: "cnc_validate x = Inr ()" and m: "cnc_mdh_len x = default_mdh_len"
    using assms by (simp_all add: wire_client_config_def)
  then obtain v6 where v6: "cnc_client_ipv6 x = Inr v6" by (auto simp: cnc_validate_iff)
  have p: "1 \<le> cnc_prefix_len x" "cnc_prefix_len x \<le> 30"
    using val vnc_validate_prefix [of "subnet_of x"] by (auto simp: cnc_validate_iff subnet_of_def)
  have k: "(if 0 < encode_wire x ! 12 then Some (encode_wire x ! 12) else None) = cnc_keepalive_secs x"
    using assms by (auto simp: encode_wire_keepalive wire_client_config_def word_gt_0 split: option.splits)
  define y where "y ad pl = \<lparr>cnc_client_ip = cnc_client_ip x, cnc_server_vpn_ip = cnc_server_vpn_ip x,
    cnc_prefix_len = cnc_prefix_len x, cnc_mtu = cnc_mtu x, cnc_mdh_len = default_mdh_len,
    cnc_keepalive_secs = cnc_keepalive_secs x, cnc_ipv6_address = ad, cnc_ipv6_prefix_len = pl\<rparr>" for ad pl
  have y: "y (cnc_ipv6_address x) (cnc_ipv6_prefix_len x) = x"
    unfolding y_def m [symmetric] by simp
  show ?thesis
  proof (cases v6)
    case None
    with v6 have a: "cnc_ipv6_address x = None" "cnc_ipv6_prefix_len x = None"
      by (simp_all add: cnc_client_ipv6_Inr)
    have "decode_wire (encode_wire x) = bind (cnc_validate (y None None)) (\<lambda>_. Inr (y None None))"
      using v6 None p
      by (simp add: decode_wire_def WIRE_SIZE_def encode_wire_fields encode_wire_v6
          list_ex_iff Let_def k y_def split del: if_split)
    with y a val show ?thesis by simp
  next
    case (Some ap)
    then obtain a q where ap: "v6 = Some (a, q)" by force
    with v6 have a: "cnc_ipv6_prefix_len x = Some q" "cnc_ipv6_address x = Some (show_ipv6 a)" "q \<noteq> 0"
      using assms by (auto simp: cnc_client_ipv6_Inr wire_client_config_def)
    have "decode_wire (encode_wire x) =
        bind (cnc_validate (y (Some (show_ipv6 a)) (Some q))) (\<lambda>_. Inr (y (Some (show_ipv6 a)) (Some q)))"
      using v6 ap p a(3)
      by (simp add: decode_wire_def WIRE_SIZE_def encode_wire_fields encode_wire_v6
          Let_def k y_def split del: if_split)
    with y a val show ?thesis by simp
  qed
qed
lemma gateway_no_panic [no_panic]: "ipv6_gateway c \<noteq> Inl Panic"
  by (auto simp: ipv6_gateway_def Let_def split: option.splits prod.splits)

lemma vnc_validate_no_panic [no_panic]: "vnc_validate c \<noteq> Inl Panic"
  using gateway_no_panic [of c] by (auto simp: vnc_validate_def bind_eq_Inl split: if_splits)

lemma client_config_no_panic [no_panic]: "client_config c ip \<noteq> Inl Panic"
  using vnc_validate_no_panic [of c] gateway_no_panic [of c]
  by (auto simp: client_config_def vnc_client_ipv6_def Let_def bind_eq_Inl split: if_splits)

lemma cnc_client_ipv6_no_panic [no_panic]: "cnc_client_ipv6 x \<noteq> Inl Panic"
  by (auto simp: cnc_client_ipv6_def split: option.splits)

lemma cnc_validate_no_panic [no_panic]: "cnc_validate x \<noteq> Inl Panic"
  unfolding cnc_validate_def by (intro no_panic)

lemma decode_wire_no_panic [no_panic]: "decode_wire data \<noteq> Inl Panic"
  unfolding decode_wire_def Let_def WIRE_SIZE_def
  by (intro no_panic; (elim conjE)?; (linarith | simp (no_asm)))

lemma decode_wire_Inr:
  assumes "decode_wire d = Inr x"
  shows "wire_client_config x" "12 \<le> length d"
    "d ! 0 = WIRE_VERSION" "cnc_prefix_len x = d ! 1" "cnc_mtu x = from_le (take 2 (drop 2 d))"
    "cnc_server_vpn_ip x = from_be (take 4 (drop 4 d))" "cnc_client_ip x = from_be (take 4 (drop 8 d))"
    "length d = 30 \<Longrightarrow> cnc_keepalive_secs x = (if d ! 12 = 0 then None else Some (d ! 12))"
    "length d = 30 \<Longrightarrow> d ! 13 = 0 \<Longrightarrow> cnc_client_ipv6 x = Inr None \<and> drop 14 d = replicate 16 0"
    "length d = 30 \<Longrightarrow> d ! 13 \<noteq> 0 \<Longrightarrow> cnc_client_ipv6 x = Inr (Some (from_be (drop 14 d), d ! 13))"
proof -
  show "wire_client_config x"
    using assms unfolding decode_wire_def Let_def wire_client_config_def
    by (auto simp: bind_eq_Inr parse_show_ipv6 word_gt_0 split: if_splits)
  show "12 \<le> length d" "d ! 0 = WIRE_VERSION" "cnc_prefix_len x = d ! 1"
    "cnc_mtu x = from_le (take 2 (drop 2 d))" "cnc_server_vpn_ip x = from_be (take 4 (drop 4 d))"
    "cnc_client_ip x = from_be (take 4 (drop 8 d))"
    using assms unfolding decode_wire_def Let_def
    by (auto simp: bind_eq_Inr idx_eq_Inr split: if_splits)
  show "length d = 30 \<Longrightarrow> cnc_keepalive_secs x = (if d ! 12 = 0 then None else Some (d ! 12))"
    using assms unfolding decode_wire_def Let_def
    by (auto simp: bind_eq_Inr word_gt_0 split: if_splits)
  assume l: "length d = 30"
  {
    assume z: "d ! 13 = 0"
    then have "\<forall>b \<in> set (drop 14 d). b = 0" "cnc_ipv6_address x = None" "cnc_ipv6_prefix_len x = None"
      using assms l unfolding decode_wire_def Let_def WIRE_SIZE_def
      by (auto simp: bind_eq_Inr list_ex_iff split: if_splits)
    then show "cnc_client_ipv6 x = Inr None \<and> drop 14 d = replicate 16 0"
      using l replicate_eqI [of "drop 14 d" 16 0] by (simp add: cnc_client_ipv6_Inr)
  }
  {
    assume z: "d ! 13 \<noteq> 0"
    then have "cnc_ipv6_address x = Some (show_ipv6 (from_be (drop 14 d)))" "cnc_ipv6_prefix_len x = Some (d ! 13)"
      using assms l unfolding decode_wire_def Let_def WIRE_SIZE_def
      by (auto simp: bind_eq_Inr idx_eq_Inr split: if_splits)
    moreover obtain v6 where "cnc_client_ipv6 x = Inr v6"
      using \<open>wire_client_config x\<close> by (auto simp: wire_client_config_def cnc_validate_iff)
    ultimately show "cnc_client_ipv6 x = Inr (Some (from_be (drop 14 d), d ! 13))"
      by (auto simp: cnc_client_ipv6_Inr parse_show_ipv6)
  }
qed

lemma wire_layout:
  assumes "length (d :: bytes) = 30"
  shows "d = [d ! 0, d ! 1] @ take 2 (drop 2 d) @ take 4 (drop 4 d) @ take 4 (drop 8 d) @
    [d ! 12] @ d ! 13 # drop 14 d"
  using assms by (simp add: glue)

lemma encode_decode_wire:
  assumes "decode_wire d = Inr x" "length d = 30"
  shows "encode_wire x = d"
proof -
  note f = decode_wire_Inr [OF assms(1)]
  have k: "(case cnc_keepalive_secs x of None \<Rightarrow> 0 | Some k \<Rightarrow> k) = d ! 12"
    using f(8) assms(2) by simp
  have t: "(case cnc_client_ipv6 x of Inr (Some (a, p)) \<Rightarrow> p # to_be 16 a | _ \<Rightarrow> replicate 17 0) =
      d ! 13 # drop 14 d"
  proof (cases "d ! 13 = 0")
    case True
    then show ?thesis using f(9) assms(2) by (simp flip: replicate_Suc)
  next
    case False
    then show ?thesis using f(10) assms(2) by (simp add: to_be_from_be)
  qed
  show ?thesis
    using assms(2) f(3-7)
    by (subst (2) wire_layout) (simp_all add: encode_wire_def k t to_le_from_le to_be_from_be)
qed

lemma client_v6_ordinary:
  fixes ip :: u32
  assumes "p \<le> 96" "b AND v6_mask p \<noteq> 0" "\<not> is_multicast b"
  defines "a \<equiv> (b AND v6_mask p) OR ucast ip"
  shows "\<not> is_unspecified a" "\<not> is_loopback a" "\<not> is_multicast a"
proof -
  have p: "unat p \<le> 96" using assms(1) by (simp add: word_le_nat_alt)
  from assms(2) obtain i where i: "bit (b AND v6_mask p) i" by (auto simp: bit_eq_iff)
  then have "32 \<le> i" "bit a i" using p by (auto simp: a_def bit_simps bit_v6_mask)
  then show "\<not> is_unspecified a" "\<not> is_loopback a"
    by (auto simp: is_unspecified_def is_loopback_def bit_simps)
  have "bit b (i + 120)" if "bit a (i + 120)" for i
    using that by (auto simp: a_def bit_simps dest: bit_imp_le_length)
  moreover have m: "is_multicast v \<longleftrightarrow> (\<forall>i < 8. bit v (i + 120))" for v :: u128
  proof -
    have "is_multicast v \<longleftrightarrow> drop_bit 120 v = mask 8"
      by (simp add: is_multicast_def mask_eq_exp_minus_1)
    also have "\<dots> \<longleftrightarrow> (\<forall>i < 8. bit v (i + 120))"
      by (auto simp: bit_eq_iff bit_simps add.commute dest: bit_imp_le_length)
    finally show ?thesis .
  qed
  ultimately show "\<not> is_multicast a" using assms(3) by auto
qed

lemma client_config_wire:
  assumes "client_config c ip = Inr x" "vnc_keepalive_secs c \<noteq> Some 0"
  shows "wire_client_config x"
proof -
  obtain v6 where v: "vnc_validate c = Inr ()" "is_usable_host c ip" "ip \<noteq> vnc_server_vpn_ip c"
      "vnc_client_ipv6 c ip = Inr v6" and
    x: "cnc_client_ip x = ip" "cnc_server_vpn_ip x = vnc_server_vpn_ip c"
      "cnc_prefix_len x = vnc_prefix_len c" "cnc_mtu x = min (vnc_mtu c) MAX_MASK_TUN_MTU"
      "cnc_mdh_len x = default_mdh_len" "cnc_keepalive_secs x = vnc_keepalive_secs c"
      "cnc_ipv6_address x = map_option (show_ipv6 \<circ> fst) v6" "cnc_ipv6_prefix_len x = map_option snd v6"
    using assms(1) by (auto simp: client_config_Inr)
  have s: "is_usable_host (subnet_of x) = is_usable_host c" "network_addr (subnet_of x) = network_addr c"
    "broadcast_addr (subnet_of x) = broadcast_addr c"
    using subnet_cong [of "subnet_of x" c] x by (simp_all add: subnet_of_def)
  have val: "vnc_validate (subnet_of x) = Inr ()"
    using v(1) s(2,3) x unfolding vnc_validate_def
    by (auto simp: subnet_of_def bind_eq_Inr split: if_splits)
  have "\<exists>v. cnc_client_ipv6 x = Inr v"
  proof (cases v6)
    case None
    then show ?thesis using x by (simp add: cnc_client_ipv6_Inr)
  next
    case (Some ap)
    then obtain a p where ap: "v6 = Some (a, p)" by force
    with v(4) obtain b where b: "0 < p" "p \<le> 96" "a = (b AND v6_mask p) OR ucast ip"
      "b AND v6_mask p \<noteq> 0" "\<not> is_multicast b" by (auto elim: vnc_client_ipv6_Some)
    have "vnc_ipv6_enabled c" using v(4) ap by (auto simp: vnc_client_ipv6_def split: if_splits)
    with v(1) x(4) have "1280 \<le> cnc_mtu x"
      by (auto simp: vnc_validate_def bind_eq_Inr MAX_MASK_TUN_MTU_def split: if_splits)
    moreover have "1 \<le> p" using b(1) by (simp add: word_le_nat_alt word_less_nat_alt Suc_le_eq)
    ultimately show ?thesis
      using x(7,8) ap b client_v6_ordinary [OF b(2,4,5), of ip]
      by (auto simp: cnc_client_ipv6_Inr parse_show_ipv6)
  qed
  with val s x v assms(2) show ?thesis
    by (auto simp: wire_client_config_def cnc_validate_iff parse_show_ipv6 split: option.splits)
qed
section \<open>Interfaces\<close>

interpretation network_wire: wire_codec "\<lambda>x. Inr (encode_wire x)" decode_wire wire_client_config
  by unfold_locales (auto simp: decode_encode_wire)

interpretation network_parser: total_parser decode_wire
  by unfold_locales (rule decode_wire_no_panic)

section \<open>Properties\<close>

text \<open>
  C19: the network assignment the server computes for a client (\<open>client_config\<close>, IPv6 address
  included) is what the client decodes from the 30-byte wire form, unless the configured
  keepalive is zero, which the wire form reads as absent.
\<close>

theorem assignment_roundtrip:
  assumes "client_config c ip = Inr x" "vnc_keepalive_secs c \<noteq> Some 0"
  shows "decode_wire (encode_wire x) = Inr x"
  using network_wire.roundtrip [of x "encode_wire x"] client_config_wire [OF assms] by simp

text \<open>The default subnet with IPv6 switched on, and what its second host is assigned.\<close>

definition sample_network :: VpnNetworkConfig where
  "sample_network =
     \<lparr>vnc_server_vpn_ip = 0x0A000001, vnc_prefix_len = 24, vnc_mtu = 1280,
      vnc_keepalive_secs = Some 8, vnc_ipv6_enabled = True, vnc_ipv6_prefix = default_ipv6_prefix\<rparr>"

definition sample_assignment :: ClientNetworkConfig where
  "sample_assignment =
     \<lparr>cnc_client_ip = 0x0A000002, cnc_server_vpn_ip = 0x0A000001, cnc_prefix_len = 24,
      cnc_mtu = 1280, cnc_mdh_len = 20, cnc_keepalive_secs = Some 8,
      cnc_ipv6_address = Some (ascii ''fd10:cafe::a00:2''), cnc_ipv6_prefix_len = Some 48\<rparr>"

lemma sample_parse: "parse_ipv6 (ascii ''fd10:cafe::'') = Some 0xfd10cafe000000000000000000000000"
proof -
  have "read_groups 8 True (ascii ''fd10:cafe::'') = ([0xfd10, 0xcafe], False, [58, 58])"
    "read_groups 5 True [] = ([], False, [])"
    by code_simp+
  moreover have "replicate 6 (0 :: u16) = [0, 0, 0, 0, 0, 0]"
    by (simp add: eval_nat_numeral)
  ultimately show ?thesis
    by (simp add: parse_ipv6_def read_given_char_def of_segments_def to_be_def to_le_expand
        byte_at_def from_be_def)
qed

lemma sample_v6_mask: "v6_mask 48 = 0xffffffffffff00000000000000000000"
  by (simp add: v6_mask_def mask_eq_exp_minus_1)

lemma sample_gateway: "ipv6_gateway sample_network = Inr (0xfd10cafe000000000000000000000001, 48)"
proof -
  have "split_once 47 default_ipv6_prefix = Some (ascii ''fd10:cafe::'', ascii ''48'')"
    "parse_u8 (ascii ''48'') = Some 48"
    by code_simp+
  then show ?thesis
    by (simp add: ipv6_gateway_def sample_network_def sample_parse sample_v6_mask Let_def
        is_multicast_def is_loopback_def is_unicast_link_local_def is_ipv4_mapped_def)
qed

lemma sample_show: "show_ipv6 0xfd10cafe00000000000000000a000002 = ascii ''fd10:cafe::a00:2''"
proof -
  have "segments 0xfd10cafe00000000000000000a000002 = [0xfd10, 0xcafe, 0, 0, 0, 0, 0xa00, 2]"
    by (simp add: segments_def to_be_def from_be_def to_le_def byte_at_def upt_conv_Cons)
  then show ?thesis
    by (simp add: show_ipv6_def is_ipv4_mapped_def ascii_def hex16_def hex_digit_def)
qed

lemma sample_usable: "is_usable_host sample_network 0x0A000002" "vnc_validate sample_network = Inr ()"
proof -
  show "is_usable_host sample_network 0x0A000002" by code_simp
  have "network_addr sample_network \<noteq> 0x0A000001" "broadcast_addr sample_network \<noteq> 0x0A000001"
    by code_simp+
  then show "vnc_validate sample_network = Inr ()"
    by (auto simp: vnc_validate_def sample_gateway) (auto simp: sample_network_def)
qed

lemma sample_client_ipv6:
  "vnc_client_ipv6 sample_network 0x0A000002 = Inr (Some (0xfd10cafe00000000000000000a000002, 48))"
  using sample_usable by (simp add: vnc_client_ipv6_def sample_gateway sample_v6_mask)
    (simp add: sample_network_def)

lemma sample_config: "client_config sample_network 0x0A000002 = Inr sample_assignment"
  using sample_usable
  by (simp add: client_config_def sample_client_ipv6 sample_show)
    (simp add: sample_assignment_def sample_network_def MAX_MASK_TUN_MTU_def default_mdh_len_def)

theorem assignment_roundtrip_witness:
  "decode_wire (encode_wire sample_assignment) = Inr sample_assignment"
  using assignment_roundtrip [OF sample_config] by (simp add: sample_network_def)

text \<open>
  C21: whatever bytes arrive, decoding an assignment never panics, and an accepted one is valid: the
  client's address is a usable host of the announced subnet and not the server's, and a full
  30-byte message is the encoding of what was read from it, so no two messages mean the same.
\<close>

theorem decode_wire_sound:
  "decode_wire d \<noteq> Inl Panic \<and>
   (decode_wire d = Inr x \<longrightarrow>
      cnc_validate x = Inr () \<and> is_usable_host (subnet_of x) (cnc_client_ip x) \<and>
      cnc_client_ip x \<noteq> cnc_server_vpn_ip x \<and> (length d = 30 \<longrightarrow> encode_wire x = d))"
  using network_parser.no_panic [of d] decode_wire_Inr(1) [of d x] encode_decode_wire [of d x]
  by (auto simp: wire_client_config_def cnc_validate_iff)

theorem decode_wire_sound_witness:
  "decode_wire (encode_wire sample_assignment) = Inr sample_assignment \<and>
   cnc_validate sample_assignment = Inr () \<and>
   is_usable_host (subnet_of sample_assignment) (cnc_client_ip sample_assignment)"
proof -
  have "decode_wire (encode_wire sample_assignment) = Inr sample_assignment"
    using client_config_wire [OF sample_config] by (intro decode_encode_wire) (simp add: sample_network_def)
  with decode_wire_sound [of "encode_wire sample_assignment" sample_assignment] show ?thesis by simp
qed

text \<open>
  host offsets and usable client addresses correspond one to one, for every prefix length:
  \<open>ip_for_host_offset\<close> yields an address exactly when it is a usable host of the subnet and
  \<open>host_offset\<close> maps it back; the network and the broadcast address are never handed out.
\<close>

lemma host_offset_bijection:
  "ip_for_host_offset c off = Some ip \<longleftrightarrow> is_usable_host c ip \<and> host_offset c ip = off"
  by (rule usable_host_offset)

text \<open>
  C26: an IPv6 source address is attributed to the client it was assigned to and to nobody else:
  \<open>client_ip_for_ipv6\<close> is the exact inverse of the assignment \<open>client_ipv6\<close>.
\<close>

theorem client_ipv6_attribution:
  "client_ip_for_ipv6 c v = Some ip \<longleftrightarrow> (\<exists>p. vnc_client_ipv6 c ip = Inr (Some (v, p)))"
  by (rule client_ip_for_ipv6_iff)

text \<open>
  \<open>netmask_to_prefix_len\<close> accepts exactly the contiguous netmasks, with the prefix length
  that \<open>prefix_len_to_netmask\<close> turns back into the mask.
\<close>

lemma netmask_prefix_roundtrip:
  "netmask_to_prefix_len m = Inr p \<longleftrightarrow> unat p \<le> 32 \<and> m = prefix_len_to_netmask p"
  by (rule netmask_prefix_iff)

end
