(* ===== verification/Framing.thy ===== *)
theory Framing
  imports Interfaces
begin

text \<open>
  The outer layers of \<open>aivpn_common::protocol\<close>: inner payload types and headers, control
  subtypes, the data packet with its mask-dependent header and padding, and the selective
  acknowledgement.  A \<open>usize\<close> is a natural number.
\<close>

section \<open>Constants\<close>

definition MAX_PACKET_SIZE :: nat where "MAX_PACKET_SIZE = 1500"
definition MAX_MGMT_BODY_SIZE :: nat where "MAX_MGMT_BODY_SIZE = 512 * 1024"
definition MAX_MGMT_PATH_SIZE :: nat where "MAX_MGMT_PATH_SIZE = 512"
definition CLIENT_PACKET_FEATURES :: u32 where "CLIENT_PACKET_FEATURES = push_bit 31 1"
definition CLIENT_FEC_ACTIVE :: u32 where "CLIENT_FEC_ACTIVE = push_bit 30 1"
definition UDP_RECV_BUF_SIZE :: nat where "UDP_RECV_BUF_SIZE = 65536"
definition TAG_SIZE :: nat where "TAG_SIZE = 8"
definition POLY1305_TAG_SIZE :: nat where "POLY1305_TAG_SIZE = 16"
definition MIN_HEADER_OVERHEAD :: nat where
  "MIN_HEADER_OVERHEAD = TAG_SIZE + 2 + 4 + POLY1305_TAG_SIZE"
definition MAX_PAYLOAD_SIZE :: nat where
  "MAX_PAYLOAD_SIZE = MAX_PACKET_SIZE - MIN_HEADER_OVERHEAD"

section \<open>Types on the wire\<close>

datatype InnerType = Data | Control | Fragment | Ack | FecRepair

fun InnerType_as_u16 :: "InnerType \<Rightarrow> u16" where
  "InnerType_as_u16 Data = 0x0001"
| "InnerType_as_u16 Control = 0x0002"
| "InnerType_as_u16 Fragment = 0x0003"
| "InnerType_as_u16 Ack = 0x0004"
| "InnerType_as_u16 FecRepair = 0x0005"

definition InnerType_from_u16 :: "u16 \<Rightarrow> InnerType option" where
  "InnerType_from_u16 v =
     (if v = 0x0001 then Some Data
      else if v = 0x0002 then Some Control
      else if v = 0x0003 then Some Fragment
      else if v = 0x0004 then Some Ack
      else if v = 0x0005 then Some FecRepair
      else None)"

datatype ControlSubtype =
    ST_KeyRotate | ST_MaskUpdate | ST_Keepalive | ST_TelemetryRequest | ST_TelemetryResponse
  | ST_TimeSync | ST_Shutdown | ST_ControlAck | ST_ServerHello | ST_RecordingStart
  | ST_RecordingAck | ST_RecordingStop | ST_RecordingComplete | ST_RecordingFailed
  | ST_RecordingStatusRequest | ST_RecordingStatus | ST_BootstrapDescriptorUpdate
  | ST_PoolSync | ST_RouteSync | ST_ChainForward | ST_ClientCert | ST_CertRejected
  | ST_DeviceEnrollment | ST_KeepaliveAck | ST_QualityReport | ST_AdaptiveHint
  | ST_MaskPreference | ST_MaskFeedback | ST_RegionalMaskHints | ST_FeedbackConfig
  | ST_MaskCatalog | ST_HandshakeReject | ST_PoolStateDigest | ST_PoolBucketDigests
  | ST_NodeEnrollment | ST_Capabilities | ST_MgmtRequest | ST_MgmtResponse
  | ST_PartitionAnnounce | ST_SiteData | ST_ClientHello | ST_MaskState

fun ControlSubtype_as_u8 :: "ControlSubtype \<Rightarrow> u8" where
  "ControlSubtype_as_u8 ST_KeyRotate = 0x01"
| "ControlSubtype_as_u8 ST_MaskUpdate = 0x02"
| "ControlSubtype_as_u8 ST_Keepalive = 0x03"
| "ControlSubtype_as_u8 ST_TelemetryRequest = 0x04"
| "ControlSubtype_as_u8 ST_TelemetryResponse = 0x05"
| "ControlSubtype_as_u8 ST_TimeSync = 0x06"
| "ControlSubtype_as_u8 ST_Shutdown = 0x07"
| "ControlSubtype_as_u8 ST_ControlAck = 0x08"
| "ControlSubtype_as_u8 ST_ServerHello = 0x09"
| "ControlSubtype_as_u8 ST_RecordingStart = 0x0A"
| "ControlSubtype_as_u8 ST_RecordingAck = 0x0B"
| "ControlSubtype_as_u8 ST_RecordingStop = 0x0C"
| "ControlSubtype_as_u8 ST_RecordingComplete = 0x0D"
| "ControlSubtype_as_u8 ST_RecordingFailed = 0x0E"
| "ControlSubtype_as_u8 ST_RecordingStatusRequest = 0x0F"
| "ControlSubtype_as_u8 ST_RecordingStatus = 0x10"
| "ControlSubtype_as_u8 ST_BootstrapDescriptorUpdate = 0x11"
| "ControlSubtype_as_u8 ST_PoolSync = 0x12"
| "ControlSubtype_as_u8 ST_RouteSync = 0x13"
| "ControlSubtype_as_u8 ST_ChainForward = 0x14"
| "ControlSubtype_as_u8 ST_ClientCert = 0x15"
| "ControlSubtype_as_u8 ST_CertRejected = 0x16"
| "ControlSubtype_as_u8 ST_DeviceEnrollment = 0x17"
| "ControlSubtype_as_u8 ST_KeepaliveAck = 0x18"
| "ControlSubtype_as_u8 ST_QualityReport = 0x19"
| "ControlSubtype_as_u8 ST_AdaptiveHint = 0x1A"
| "ControlSubtype_as_u8 ST_MaskPreference = 0x1B"
| "ControlSubtype_as_u8 ST_MaskFeedback = 0x1C"
| "ControlSubtype_as_u8 ST_RegionalMaskHints = 0x1D"
| "ControlSubtype_as_u8 ST_FeedbackConfig = 0x1E"
| "ControlSubtype_as_u8 ST_MaskCatalog = 0x1F"
| "ControlSubtype_as_u8 ST_HandshakeReject = 0x20"
| "ControlSubtype_as_u8 ST_PoolStateDigest = 0x21"
| "ControlSubtype_as_u8 ST_PoolBucketDigests = 0x22"
| "ControlSubtype_as_u8 ST_NodeEnrollment = 0x23"
| "ControlSubtype_as_u8 ST_Capabilities = 0x24"
| "ControlSubtype_as_u8 ST_MgmtRequest = 0x25"
| "ControlSubtype_as_u8 ST_MgmtResponse = 0x26"
| "ControlSubtype_as_u8 ST_PartitionAnnounce = 0x27"
| "ControlSubtype_as_u8 ST_SiteData = 0x28"
| "ControlSubtype_as_u8 ST_ClientHello = 0x29"
| "ControlSubtype_as_u8 ST_MaskState = 0x2A"

definition ControlSubtype_from_u8 :: "u8 \<Rightarrow> ControlSubtype option" where
  "ControlSubtype_from_u8 v =
     (if v = 0x01 then Some ST_KeyRotate
      else if v = 0x02 then Some ST_MaskUpdate
      else if v = 0x03 then Some ST_Keepalive
      else if v = 0x04 then Some ST_TelemetryRequest
      else if v = 0x05 then Some ST_TelemetryResponse
      else if v = 0x06 then Some ST_TimeSync
      else if v = 0x07 then Some ST_Shutdown
      else if v = 0x08 then Some ST_ControlAck
      else if v = 0x09 then Some ST_ServerHello
      else if v = 0x0A then Some ST_RecordingStart
      else if v = 0x0B then Some ST_RecordingAck
      else if v = 0x0C then Some ST_RecordingStop
      else if v = 0x0D then Some ST_RecordingComplete
      else if v = 0x0E then Some ST_RecordingFailed
      else if v = 0x0F then Some ST_RecordingStatusRequest
      else if v = 0x10 then Some ST_RecordingStatus
      else if v = 0x11 then Some ST_BootstrapDescriptorUpdate
      else if v = 0x12 then Some ST_PoolSync
      else if v = 0x13 then Some ST_RouteSync
      else if v = 0x14 then Some ST_ChainForward
      else if v = 0x15 then Some ST_ClientCert
      else if v = 0x16 then Some ST_CertRejected
      else if v = 0x17 then Some ST_DeviceEnrollment
      else if v = 0x18 then Some ST_KeepaliveAck
      else if v = 0x19 then Some ST_QualityReport
      else if v = 0x1A then Some ST_AdaptiveHint
      else if v = 0x1B then Some ST_MaskPreference
      else if v = 0x1C then Some ST_MaskFeedback
      else if v = 0x1D then Some ST_RegionalMaskHints
      else if v = 0x1E then Some ST_FeedbackConfig
      else if v = 0x1F then Some ST_MaskCatalog
      else if v = 0x20 then Some ST_HandshakeReject
      else if v = 0x21 then Some ST_PoolStateDigest
      else if v = 0x22 then Some ST_PoolBucketDigests
      else if v = 0x23 then Some ST_NodeEnrollment
      else if v = 0x24 then Some ST_Capabilities
      else if v = 0x25 then Some ST_MgmtRequest
      else if v = 0x26 then Some ST_MgmtResponse
      else if v = 0x27 then Some ST_PartitionAnnounce
      else if v = 0x28 then Some ST_SiteData
      else if v = 0x29 then Some ST_ClientHello
      else if v = 0x2A then Some ST_MaskState
      else None)"

section \<open>Inner header\<close>

record InnerHeader =
  inner_type :: InnerType
  seq_num :: u16

definition InnerHeader_encode :: "InnerHeader \<Rightarrow> bytes" where
  "InnerHeader_encode h = to_le 2 (InnerType_as_u16 (inner_type h)) @ to_le 2 (seq_num h)"

definition InnerHeader_decode :: "bytes \<Rightarrow> InnerHeader result" where
  "InnerHeader_decode data =
     (if length data < 4 then Inl (InvalidPacket ''Inner header too short'')
      else bind (read_u16 data 0) (\<lambda>t.
        case InnerType_from_u16 t of
          None \<Rightarrow> Inl (InvalidPacket ''Unknown inner type'')
        | Some ty \<Rightarrow> bind (read_u16 data 2) (\<lambda>s. Inr \<lparr>inner_type = ty, seq_num = s\<rparr>)))"

section \<open>Data packets\<close>

record AivpnPacket =
  resonance_tag :: bytes
  mask_dependent_header :: bytes
  pad_len :: u16
  encrypted_payload :: bytes
  random_padding :: bytes

text \<open>\<open>AivpnPacket::new\<close>; the random padding it draws is the argument \<open>pad\<close>.\<close>

definition AivpnPacket_new :: "bytes \<Rightarrow> bytes \<Rightarrow> bytes \<Rightarrow> u16 \<Rightarrow> bytes \<Rightarrow> AivpnPacket" where
  "AivpnPacket_new tag mdh payload padding_len pad =
     \<lparr>resonance_tag = tag, mask_dependent_header = mdh, pad_len = padding_len,
      encrypted_payload = payload, random_padding = take (unat padding_len) pad\<rparr>"

definition to_bytes :: "AivpnPacket \<Rightarrow> bytes" where
  "to_bytes p = resonance_tag p @ mask_dependent_header p @ to_le 2 (pad_len p) @
     encrypted_payload p @ random_padding p"

definition from_bytes :: "bytes \<Rightarrow> AivpnPacket result" where
  "from_bytes data =
     (if length data < TAG_SIZE + 2 then Inl (InvalidPacket ''Packet too short'')
      else bind (slice data 0 TAG_SIZE) (\<lambda>tag.
        Inr \<lparr>resonance_tag = tag, mask_dependent_header = [], pad_len = 0,
             encrypted_payload = [], random_padding = []\<rparr>))"

definition from_bytes_with_mdh_len :: "bytes \<Rightarrow> nat \<Rightarrow> AivpnPacket result" where
  "from_bytes_with_mdh_len data mdh_len =
     (if length data < TAG_SIZE + mdh_len + 2 then Inl (InvalidPacket ''Packet too short'')
      else bind (slice data 0 TAG_SIZE) (\<lambda>tag.
      (let cursor = TAG_SIZE in
      bind (slice data cursor (cursor + mdh_len)) (\<lambda>mdh.
      (let cursor = cursor + mdh_len in
      bind (read_u16 data cursor) (\<lambda>pl.
      (let cursor = cursor + 2; remaining = length data - cursor in
       if unat pl > remaining then Inl (InvalidPacket ''pad_len exceeds packet bounds'')
       else
         (let payload_len = remaining - unat pl in
          bind (slice data cursor (cursor + payload_len)) (\<lambda>payload.
          (let cursor = cursor + payload_len in
          bind (slice data cursor (length data)) (\<lambda>padding.
          Inr \<lparr>resonance_tag = tag, mask_dependent_header = mdh, pad_len = pl,
               encrypted_payload = payload, random_padding = padding\<rparr>)))))))))))"

section \<open>Acknowledgements\<close>

record AckPacket =
  ack_seq :: u16
  ack_base :: u16
  bitmap :: bytes

definition AckPacket_encode :: "AckPacket \<Rightarrow> bytes" where
  "AckPacket_encode a =
     to_le 2 (InnerType_as_u16 Ack) @ to_le 2 (ack_seq a) @ to_le 2 (ack_base a) @
     [of_nat (length (bitmap a))] @ bitmap a"

definition AckPacket_decode :: "bytes \<Rightarrow> AckPacket result" where
  "AckPacket_decode data =
     (if length data < 7 then Inl (InvalidPacket ''ACK too short'')
      else bind (read_u16 data 2) (\<lambda>s. bind (read_u16 data 4) (\<lambda>b. bind (idx data 6) (\<lambda>n.
        (let bitmap_len = unat n in
         if length data < 7 + bitmap_len then Inl (InvalidPacket ''ACK invalid length'')
         else bind (slice data 7 (7 + bitmap_len)) (\<lambda>m.
           Inr \<lparr>ack_seq = s, ack_base = b, bitmap = m\<rparr>))))))"

section \<open>Lemmas\<close>

lemma InnerType_from_as [simp]: "InnerType_from_u16 (InnerType_as_u16 t) = Some t"
  by (cases t) (simp_all add: InnerType_from_u16_def)

lemma InnerType_from_u16_Some: "InnerType_from_u16 v = Some t \<longleftrightarrow> v = InnerType_as_u16 t"
  by (cases t) (auto simp: InnerType_from_u16_def)

lemma ControlSubtype_from_as [simp]: "ControlSubtype_from_u8 (ControlSubtype_as_u8 t) = Some t"
  by (cases t) (simp_all add: ControlSubtype_from_u8_def)

lemma ControlSubtype_from_u8_Some:
  "ControlSubtype_from_u8 v = Some t \<longleftrightarrow> v = ControlSubtype_as_u8 t"
proof
  assume "ControlSubtype_from_u8 v = Some t"
  then show "v = ControlSubtype_as_u8 t"
    unfolding ControlSubtype_from_u8_def by (auto split: if_split_asm)
qed simp

lemma InnerHeader_roundtrip: "InnerHeader_decode (InnerHeader_encode h) = Inr h"
  by (simp add: InnerHeader_decode_def InnerHeader_encode_def)

lemma InnerHeader_decode_Inr:
  "InnerHeader_decode d = Inr h \<longleftrightarrow> 4 \<le> length d \<and> take 4 d = InnerHeader_encode h"
proof (cases "4 \<le> length d")
  case True
  have t: "take 4 d = take 2 d @ take 2 (drop 2 d)" using take_add [of 2 2 d] by simp
  have l: "to_le 2 (from_le (take 2 d) :: u16) = take 2 d"
    "to_le 2 (from_le (take 2 (drop 2 d)) :: u16) = take 2 (drop 2 d)"
    using True by (simp_all add: to_le_from_le)
  show ?thesis
  proof
    assume "InnerHeader_decode d = Inr h"
    with True have "from_le (take 2 d) = InnerType_as_u16 (inner_type h)"
      "from_le (take 2 (drop 2 d)) = seq_num h"
      by (auto simp: InnerHeader_decode_def InnerType_from_u16_Some split: option.splits)
    with True t l show "4 \<le> length d \<and> take 4 d = InnerHeader_encode h"
      by (simp add: InnerHeader_encode_def)
  next
    assume "4 \<le> length d \<and> take 4 d = InnerHeader_encode h"
    with True t have "take 2 d = to_le 2 (InnerType_as_u16 (inner_type h))"
      "take 2 (drop 2 d) = to_le 2 (seq_num h)"
      by (simp_all add: InnerHeader_encode_def)
    with True show "InnerHeader_decode d = Inr h" by (simp add: InnerHeader_decode_def)
  qed
qed (simp add: InnerHeader_decode_def)

lemma InnerHeader_no_panic [no_panic]: "InnerHeader_decode d \<noteq> Inl Panic"
  unfolding InnerHeader_decode_def by (intro no_panic; simp)

lemma packet_roundtrip:
  assumes "length (resonance_tag p) = TAG_SIZE" "length (mask_dependent_header p) = n"
    "length (random_padding p) = unat (pad_len p)"
  shows "from_bytes_with_mdh_len (to_bytes p) n = Inr p"
  using assms
  by (simp add: from_bytes_with_mdh_len_def to_bytes_def TAG_SIZE_def Let_def drop_numeral_add)

lemma packet_reparse:
  assumes "from_bytes_with_mdh_len d n = Inr p"
  shows "to_bytes p = d" "length (resonance_tag p) = TAG_SIZE" "length (mask_dependent_header p) = n"
    "length (random_padding p) = unat (pad_len p)"
proof -
  have l: "TAG_SIZE + n + 2 \<le> length d"
    using assms by (auto simp: from_bytes_with_mdh_len_def split: if_splits)
  define c where "c = TAG_SIZE + n + 2"
  define k where "k = length d - c - unat (pad_len p)"
  have pl: "unat (pad_len p) \<le> length d - c"
    and p: "resonance_tag p = take TAG_SIZE d" "mask_dependent_header p = take n (drop TAG_SIZE d)"
    "pad_len p = from_le (take 2 (drop (TAG_SIZE + n) d))"
    "encrypted_payload p = take k (drop c d)" "random_padding p = drop (c + k) d"
    using assms l unfolding from_bytes_with_mdh_len_def Let_def c_def [symmetric] k_def
    by (auto simp: c_def ac_simps split: if_splits simp del: add_2_eq_Suc')
  show "length (resonance_tag p) = TAG_SIZE" "length (mask_dependent_header p) = n"
    "length (random_padding p) = unat (pad_len p)"
    using l p(1,2,5) pl by (simp_all add: c_def k_def)
  have "to_le 2 (pad_len p) = take 2 (drop (TAG_SIZE + n) d)"
    using l p(3) by (simp add: to_le_from_le)
  moreover have "encrypted_payload p @ random_padding p = drop 2 (drop (TAG_SIZE + n) d)"
    using append_take_drop_id [of k "drop c d"] p(4,5) by (simp add: c_def add.commute)
  moreover have "drop (TAG_SIZE + n) d = drop n (drop TAG_SIZE d)" by (simp add: add.commute)
  ultimately show "to_bytes p = d"
    using p(1,2) append_take_drop_id [of 2 "drop (TAG_SIZE + n) d"]
      append_take_drop_id [of n "drop TAG_SIZE d"]
    by (metis append_assoc append_take_drop_id to_bytes_def)
qed

lemma packet_no_panic [no_panic]: "from_bytes_with_mdh_len d n \<noteq> Inl Panic"
  unfolding from_bytes_with_mdh_len_def Let_def by (intro no_panic; simp)

lemma from_bytes_no_panic [no_panic]: "from_bytes d \<noteq> Inl Panic"
  unfolding from_bytes_def by (intro no_panic; simp)

lemma ack_roundtrip: "length (bitmap a) \<le> 255 \<Longrightarrow> AckPacket_decode (AckPacket_encode a) = Inr a"
  by (simp add: AckPacket_decode_def AckPacket_encode_def nth_append unat_of_nat Let_def)

text \<open>
  The length byte of an acknowledgement wraps: 256 bitmap bytes are announced as none.
\<close>

lemma ack_long_bitmap_lost:
  "length (bitmap a) = 256 \<Longrightarrow> AckPacket_decode (AckPacket_encode a) = Inr (a \<lparr>bitmap := []\<rparr>)"
  by (simp add: AckPacket_decode_def AckPacket_encode_def nth_append unat_of_nat Let_def)

lemma ack_no_panic [no_panic]: "AckPacket_decode d \<noteq> Inl Panic"
  unfolding AckPacket_decode_def Let_def by (intro no_panic; simp)

section \<open>Interfaces\<close>

interpretation inner_header: wire_codec "\<lambda>h. Inr (InnerHeader_encode h)" InnerHeader_decode "\<lambda>_. True"
  by unfold_locales (auto simp: InnerHeader_roundtrip)

interpretation inner_header_parser: total_parser InnerHeader_decode
  by unfold_locales (rule InnerHeader_no_panic)

interpretation ack: wire_codec "\<lambda>a. Inr (AckPacket_encode a)" AckPacket_decode
    "\<lambda>a. length (bitmap a) \<le> 255"
  by unfold_locales (auto simp: ack_roundtrip)

interpretation ack_parser: total_parser AckPacket_decode
  by unfold_locales (rule ack_no_panic)

interpretation packet: wire_codec "\<lambda>p. Inr (to_bytes p)" "\<lambda>d. from_bytes_with_mdh_len d n"
    "\<lambda>p. length (resonance_tag p) = TAG_SIZE \<and> length (mask_dependent_header p) = n \<and>
         length (random_padding p) = unat (pad_len p)" for n
  by unfold_locales (auto simp: packet_roundtrip)

interpretation packet_parser: total_parser "\<lambda>d. from_bytes_with_mdh_len d n" for n
  by unfold_locales (rule packet_no_panic)


section \<open>Properties\<close>

text \<open>
  C15: parsing a data packet with the mask's header length never panics and is the exact inverse of
  its serialisation: it succeeds precisely on the bytes of a packet whose tag has eight bytes,
  whose header has the given length and whose padding has the announced length.
\<close>

theorem packet_codec_exact:
  "from_bytes_with_mdh_len d n \<noteq> Inl Panic \<and>
   (from_bytes_with_mdh_len d n = Inr p \<longleftrightarrow>
      length (resonance_tag p) = TAG_SIZE \<and> length (mask_dependent_header p) = n \<and>
      length (random_padding p) = unat (pad_len p) \<and> to_bytes p = d)"
  using packet_parser.no_panic [of d n] packet_reparse [of d n p] packet_roundtrip [of p n] by blast

text \<open>
  decoding an inner header never panics and accepts exactly the byte strings that start with the
  encoding of a header, which is the header it returns.
\<close>

lemma inner_header_exact:
  "InnerHeader_decode d \<noteq> Inl Panic \<and>
   (InnerHeader_decode d = Inr h \<longleftrightarrow> 4 \<le> length d \<and> take 4 d = InnerHeader_encode h)"
  using inner_header_parser.no_panic [of d] InnerHeader_decode_Inr [of d h] by simp

end
