(* ===== verification/Mask_State.thy ===== *)
theory Mask_State
  imports Framing Ipv6_Text
begin

text \<open>
  \<open>aivpn_common::mask_state\<close>: the mask parameters two peers negotiate inside the
  protected channel, their validation and their control message.  A socket address keeps
  the flow label and the scope of its IPv6 form, which validation requires to be zero.
\<close>

section \<open>Data\<close>

datatype SocketAddr = V4 u32 u16 | V6 u128 u16 u32 u32

fun port :: "SocketAddr \<Rightarrow> u16" where
  "port (V4 a p) = p"
| "port (V6 a p fl sc) = p"

fun addr_is_unspecified :: "SocketAddr \<Rightarrow> bool" where
  "addr_is_unspecified (V4 a p) = (a = 0)"
| "addr_is_unspecified (V6 a p fl sc) = is_unspecified a"

fun addr_is_multicast :: "SocketAddr \<Rightarrow> bool" where
  "addr_is_multicast (V4 a p) = is_ipv4_multicast a"
| "addr_is_multicast (V6 a p fl sc) = is_multicast a"

fun has_scope_or_flow :: "SocketAddr \<Rightarrow> bool" where
  "has_scope_or_flow (V4 a p) = False"
| "has_scope_or_flow (V6 a p fl sc) = (sc \<noteq> 0 \<or> fl \<noteq> 0)"

record RtcParameters =
  fingerprint :: bytes
  rtc_ice_ufrag :: rstring
  rtc_ice_password :: rstring
  rtc_ssrc :: u32
  rtc_server_addr :: SocketAddr

record SrtpParameters =
  master_secret :: bytes
  srtp_ice_ufrag :: rstring
  srtp_ice_password :: rstring
  srtp_ssrc :: u32
  srtp_server_addr :: SocketAddr

datatype MaskParameters = Rtc RtcParameters | Srtp SrtpParameters

record MaskState =
  offer_id :: bytes
  answer :: bool
  mask_id :: rstring
  mask_version :: u16
  parameters :: MaskParameters

section \<open>Validation\<close>

definition MAX_CONTROL :: nat where "MAX_CONTROL = 512"

definition ice_char :: "u8 \<Rightarrow> bool" where
  "ice_char b \<longleftrightarrow>
     (48 \<le> b \<and> b \<le> 57) \<or> (65 \<le> b \<and> b \<le> 90) \<or> (97 \<le> b \<and> b \<le> 122) \<or> b = 43 \<or> b = 47"

definition validate_ice :: "rstring \<Rightarrow> rstring \<Rightarrow> u32 \<Rightarrow> SocketAddr \<Rightarrow> unit result" where
  "validate_ice ufrag password ssrc server_addr =
     (if \<not> (4 \<le> length ufrag \<and> length ufrag \<le> 32) \<or>
         \<not> (22 \<le> length password \<and> length password \<le> 64) \<or>
         \<not> list_all ice_char ufrag \<or> \<not> list_all ice_char password \<or> ssrc = 0 \<or>
         port server_addr = 0 \<or> addr_is_unspecified server_addr \<or>
         addr_is_multicast server_addr \<or> has_scope_or_flow server_addr
      then Inl (InvalidPacket ''Invalid RTC mask parameters'')
      else Inr ())"

definition RtcParameters_validate :: "RtcParameters \<Rightarrow> unit result" where
  "RtcParameters_validate p =
     bind (validate_ice (rtc_ice_ufrag p) (rtc_ice_password p) (rtc_ssrc p) (rtc_server_addr p)) (\<lambda>_.
     if fingerprint p = replicate 32 0 then Inl (InvalidPacket ''Empty RTC fingerprint'') else Inr ())"

definition SrtpParameters_validate :: "SrtpParameters \<Rightarrow> unit result" where
  "SrtpParameters_validate p =
     bind (validate_ice (srtp_ice_ufrag p) (srtp_ice_password p) (srtp_ssrc p) (srtp_server_addr p)) (\<lambda>_.
     if master_secret p = replicate 32 0 then Inl (InvalidPacket ''Empty SRTP secret'') else Inr ())"

fun rtc :: "MaskParameters \<Rightarrow> RtcParameters result" where
  "rtc (Rtc p) = Inr p"
| "rtc _ = Inl (InvalidPacket ''Expected DTLS parameters'')"

fun srtp :: "MaskParameters \<Rightarrow> SrtpParameters result" where
  "srtp (Srtp p) = Inr p"
| "srtp _ = Inl (InvalidPacket ''Expected SRTP parameters without DTLS'')"

fun server_addr :: "MaskParameters \<Rightarrow> SocketAddr" where
  "server_addr (Rtc p) = rtc_server_addr p"
| "server_addr (Srtp p) = srtp_server_addr p"

fun MaskParameters_validate :: "MaskParameters \<Rightarrow> unit result" where
  "MaskParameters_validate (Rtc p) = RtcParameters_validate p"
| "MaskParameters_validate (Srtp p) = SrtpParameters_validate p"

definition MaskState_validate :: "MaskState \<Rightarrow> unit result" where
  "MaskState_validate m =
     (if mask_version m = 0 \<or> mask_id m = [] \<or> length (mask_id m) > 128 \<or>
         \<not> list_all (\<lambda>b. 0x21 \<le> b \<and> b \<le> 0x7e) (mask_id m)
      then Inl (InvalidPacket ''Invalid RTC mask profile'')
      else MaskParameters_validate (parameters m))"

section \<open>Control message\<close>

fun control_fields :: "MaskParameters \<Rightarrow> u8 \<times> bytes \<times> rstring \<times> rstring \<times> u32 \<times> SocketAddr" where
  "control_fields (Rtc p) =
     (1, fingerprint p, rtc_ice_ufrag p, rtc_ice_password p, rtc_ssrc p, rtc_server_addr p)"
| "control_fields (Srtp p) =
     (2, master_secret p, srtp_ice_ufrag p, srtp_ice_password p, srtp_ssrc p, srtp_server_addr p)"

fun addr_bytes :: "SocketAddr \<Rightarrow> bytes" where
  "addr_bytes (V4 a p) = 4 # to_be 4 a"
| "addr_bytes (V6 a p fl sc) = 6 # to_be 16 a"

definition encode_control :: "MaskState \<Rightarrow> bytes result" where
  "encode_control m =
     bind (MaskState_validate m) (\<lambda>_.
     (case control_fields (parameters m) of
        (format, material, ufrag, password, ssrc, server) \<Rightarrow>
          Inr ([ControlSubtype_as_u8 ST_MaskState, format, of_bool (answer m)] @
               to_le 2 (mask_version m) @ offer_id m @
               [of_nat (length (mask_id m)), of_nat (length ufrag), of_nat (length password)] @
               addr_bytes server @ to_be 2 (port server) @ material @ to_be 4 ssrc @
               mask_id m @ ufrag @ password)))"

definition text_at :: "bytes \<Rightarrow> nat \<Rightarrow> nat \<Rightarrow> rstring result" where
  "text_at data start len =
     bind (slice data start (start + len)) (\<lambda>s.
     if utf8_valid s then Inr s else Inl (InvalidPacket ''Invalid RTC parameter text''))"

definition decode_control :: "bytes \<Rightarrow> MaskState result" where
  "decode_control data =
     (let malformed = Inl (InvalidPacket ''Malformed RTC mask message'') in
      if \<not> (25 \<le> length data \<and> length data \<le> MAX_CONTROL) then malformed
      else bind (idx data 0) (\<lambda>d0. bind (idx data 1) (\<lambda>format. bind (idx data 2) (\<lambda>ans.
      if d0 \<noteq> ControlSubtype_as_u8 ST_MaskState \<or> \<not> (format = 1 \<or> format = 2) \<or> ans > 1
      then malformed
      else bind (idx data 21) (\<lambda>d21. bind (idx data 22) (\<lambda>d22. bind (idx data 23) (\<lambda>d23.
           bind (idx data 24) (\<lambda>family.
      (let mask_len = unat d21; ufrag_len = unat d22; password_len = unat d23 in
      bind (if family = 4 then Inr 4
            else if family = 6 then Inr 16
            else Inl (InvalidPacket ''Unknown RTC address family'')) (\<lambda>address_len.
      (let fixed_end = 25 + address_len + 2 + 32 + 4 in
      if \<not> (1 \<le> mask_len \<and> mask_len \<le> 128) \<or> \<not> (4 \<le> ufrag_len \<and> ufrag_len \<le> 32) \<or>
         \<not> (22 \<le> password_len \<and> password_len \<le> 64) \<or>
         length data \<noteq> fixed_end + mask_len + ufrag_len + password_len
      then Inl (InvalidPacket ''Invalid RTC message length'')
      else
      bind (if address_len = 4
            then bind (slice data 25 29) (\<lambda>a. Inr (\<lambda>p. V4 (from_be a) p))
            else bind (slice data 25 41) (\<lambda>a. Inr (\<lambda>p. V6 (from_be a) p 0 0))) (\<lambda>addr.
      (let cursor = 25 + address_len in
      bind (slice data cursor (cursor + 2)) (\<lambda>port_bytes.
      (let cursor = cursor + 2 in
      bind (slice data cursor (cursor + 32)) (\<lambda>material.
      (let cursor = cursor + 32 in
      bind (slice data cursor (cursor + 4)) (\<lambda>ssrc_bytes.
      bind (slice data 5 21) (\<lambda>offer.
      bind (read_u16 data 3) (\<lambda>version.
      bind (text_at data fixed_end mask_len) (\<lambda>mid.
      bind (text_at data (fixed_end + mask_len) ufrag_len) (\<lambda>ufrag.
      bind (text_at data (fixed_end + mask_len + ufrag_len) password_len) (\<lambda>password.
      (let params =
             (if format = 1
              then Rtc \<lparr>fingerprint = material, rtc_ice_ufrag = ufrag, rtc_ice_password = password,
                        rtc_ssrc = from_be ssrc_bytes, rtc_server_addr = addr (from_be port_bytes)\<rparr>
              else Srtp \<lparr>master_secret = material, srtp_ice_ufrag = ufrag,
                         srtp_ice_password = password, srtp_ssrc = from_be ssrc_bytes,
                         srtp_server_addr = addr (from_be port_bytes)\<rparr>);
           result = \<lparr>offer_id = offer, answer = (ans = 1), mask_id = mid, mask_version = version,
                     parameters = params\<rparr>
       in bind (MaskState_validate result) (\<lambda>_. Inr result)))))))))))))))))))))))))"

section \<open>Lemmas\<close>

definition wf_mask_state :: "MaskState \<Rightarrow> bool" where
  "wf_mask_state m \<longleftrightarrow>
     length (offer_id m) = 16 \<and> length (fst (snd (control_fields (parameters m)))) = 32"

lemma validate_ice_Inr:
  "validate_ice uf pw ssrc sa = Inr () \<longleftrightarrow>
     4 \<le> length uf \<and> length uf \<le> 32 \<and> 22 \<le> length pw \<and> length pw \<le> 64 \<and>
     list_all ice_char uf \<and> list_all ice_char pw \<and> ssrc \<noteq> 0 \<and> port sa \<noteq> 0 \<and>
     \<not> addr_is_unspecified sa \<and> \<not> addr_is_multicast sa \<and> \<not> has_scope_or_flow sa"
  by (auto simp: validate_ice_def)

lemma ice_char_utf8: "list_all ice_char s \<Longrightarrow> utf8_valid s"
  by (rule utf8_valid_ascii)
    (auto simp: list_all_iff ice_char_def word_less_nat_alt word_le_nat_alt)

lemma mask_id_utf8: "list_all (\<lambda>b. 0x21 \<le> b \<and> b \<le> 0x7e) s \<Longrightarrow> utf8_valid s"
  by (rule utf8_valid_ascii) (auto simp: list_all_iff word_less_nat_alt word_le_nat_alt)

lemma text_at_eq_Inr:
  "text_at d i n = Inr s \<longleftrightarrow> i + n \<le> length d \<and> s = take n (drop i d) \<and> utf8_valid s"
  by (auto simp: text_at_def bind_eq_Inr slice_eq_Inr)

lemma text_at_no_panic [no_panic]: "i + n \<le> length d \<Longrightarrow> text_at d i n \<noteq> Inl Panic"
  by (simp add: text_at_def)

lemma MaskState_validate_Inr:
  "MaskState_validate m = Inr () \<longleftrightarrow>
     mask_version m \<noteq> 0 \<and> mask_id m \<noteq> [] \<and> length (mask_id m) \<le> 128 \<and>
     list_all (\<lambda>b. 0x21 \<le> b \<and> b \<le> 0x7e) (mask_id m) \<and>
     (case control_fields (parameters m) of (format, material, uf, pw, ssrc, sa) \<Rightarrow>
        validate_ice uf pw ssrc sa = Inr () \<and> material \<noteq> replicate 32 0)"
  by (cases "parameters m")
    (auto simp: MaskState_validate_def RtcParameters_validate_def SrtpParameters_validate_def
      bind_eq_Inr split: if_splits)

lemma no_scope_cases:
  assumes "\<not> has_scope_or_flow sa"
  obtains a p where "sa = V4 a p" | a p where "sa = V6 a p 0 0"
  using assms by (cases sa) auto

text \<open>The message of a valid state, and that reading it gives its fields back.\<close>

definition control_bytes :: "u8 \<Rightarrow> bool \<Rightarrow> u16 \<Rightarrow> bytes \<Rightarrow> rstring \<Rightarrow> rstring \<Rightarrow> rstring \<Rightarrow> SocketAddr \<Rightarrow> bytes \<Rightarrow> u32 \<Rightarrow> bytes" where
  "control_bytes format an version offer mid uf pw sa material ssrc =
     [0x2A, format, of_bool an] @ to_le 2 version @ offer @
     [of_nat (length mid), of_nat (length uf), of_nat (length pw)] @
     addr_bytes sa @ to_be 2 (port sa) @ material @ to_be 4 ssrc @ mid @ uf @ pw"

definition assemble :: "u8 \<Rightarrow> bool \<Rightarrow> u16 \<Rightarrow> bytes \<Rightarrow> rstring \<Rightarrow> rstring \<Rightarrow> rstring \<Rightarrow> SocketAddr \<Rightarrow> bytes \<Rightarrow> u32 \<Rightarrow> MaskState" where
  "assemble format an version offer mid uf pw sa material ssrc =
     \<lparr>offer_id = offer, answer = an, mask_id = mid, mask_version = version,
      parameters =
        (if format = 1
         then Rtc \<lparr>fingerprint = material, rtc_ice_ufrag = uf, rtc_ice_password = pw, rtc_ssrc = ssrc,
                   rtc_server_addr = sa\<rparr>
         else Srtp \<lparr>master_secret = material, srtp_ice_ufrag = uf, srtp_ice_password = pw,
                    srtp_ssrc = ssrc, srtp_server_addr = sa\<rparr>)\<rparr>"

lemma decode_control_bytes:
  assumes "length offer = 16" "length material = 32" "format = 1 \<or> format = 2"
    "utf8_valid mid" "utf8_valid uf" "utf8_valid pw" "mid \<noteq> []" "length mid \<le> 128"
    "4 \<le> length uf" "length uf \<le> 32" "22 \<le> length pw" "length pw \<le> 64" "\<not> has_scope_or_flow sa"
    and m_def: "m = assemble format an version offer mid uf pw sa material ssrc"
  shows "decode_control (control_bytes format an version offer mid uf pw sa material ssrc) =
    bind (MaskState_validate m) (\<lambda>_. Inr m)"
proof -
  have n: "unat (of_nat (length mid) :: u8) = length mid"
    "unat (of_nat (length uf) :: u8) = length uf" "unat (of_nat (length pw) :: u8) = length pw"
    using assms by (simp_all add: unat_of_nat)
  have ml: "Suc 0 \<le> length mid" "length mid + (length uf + length pw) \<le> 445"
    using assms by (simp_all add: Suc_le_eq)
  have an: "\<not> 1 < (of_bool an :: u8)" "(of_bool an :: u8) = 1 \<longleftrightarrow> an"
    by (cases an; simp)+
  from assms(13) show ?thesis
  proof (cases rule: no_scope_cases)
    case (1 a p)
    then show ?thesis
      using assms(1-12) ml
      by (simp add: control_bytes_def m_def assemble_def n ml an decode_control_def MAX_CONTROL_def Let_def nth_append
          text_at_def drop_numeral_add drop_numeral_add2 del: of_bool_eq_1_iff)
        (use assms(3) in blast)
  next
    case (2 a p)
    then show ?thesis
      using assms(1-12) ml
      by (simp add: control_bytes_def m_def assemble_def n ml an decode_control_def MAX_CONTROL_def Let_def nth_append
          text_at_def drop_numeral_add drop_numeral_add2 del: of_bool_eq_1_iff)
        (use assms(3) in blast)
  qed
qed

lemma assemble_cases:
  obtains format an version offer mid uf pw sa material ssrc
  where "format = 1 \<or> format = 2" "m = assemble format an version offer mid uf pw sa material ssrc"
proof (cases "parameters m")
  case (Rtc r)
  then show ?thesis
    by (intro that [of 1 "answer m" "mask_version m" "offer_id m" "mask_id m" "rtc_ice_ufrag r"
          "rtc_ice_password r" "rtc_server_addr r" "fingerprint r" "rtc_ssrc r"])
      (auto simp: assemble_def)
next
  case (Srtp r)
  then show ?thesis
    by (intro that [of 2 "answer m" "mask_version m" "offer_id m" "mask_id m" "srtp_ice_ufrag r"
          "srtp_ice_password r" "srtp_server_addr r" "master_secret r" "srtp_ssrc r"])
      (auto simp: assemble_def)
qed

lemma control_fields_assemble:
  "format = 1 \<or> format = 2 \<Longrightarrow>
   control_fields (parameters (assemble format an version offer mid uf pw sa material ssrc)) =
     (format, material, uf, pw, ssrc, sa)"
  by (auto simp: assemble_def)

lemma encode_assemble:
  "format = 1 \<or> format = 2 \<Longrightarrow> m = assemble format an version offer mid uf pw sa material ssrc \<Longrightarrow>
   encode_control m = bind (MaskState_validate m)
     (\<lambda>_. Inr (control_bytes format an version offer mid uf pw sa material ssrc))"
  by (simp add: encode_control_def control_fields_assemble control_bytes_def) (simp add: assemble_def)

lemma validate_assemble:
  assumes "format = 1 \<or> format = 2" "m = assemble format an version offer mid uf pw sa material ssrc"
    "MaskState_validate m = Inr ()"
  shows "utf8_valid mid" "utf8_valid uf" "utf8_valid pw" "mid \<noteq> []" "length mid \<le> 128"
    "4 \<le> length uf" "length uf \<le> 32" "22 \<le> length pw" "length pw \<le> 64" "\<not> has_scope_or_flow sa"
  using assms(3) control_fields_assemble [OF assms(1)] assms(2)
  by (auto simp: MaskState_validate_Inr validate_ice_Inr mask_id_utf8 ice_char_utf8)
    (auto simp: assemble_def mask_id_utf8)

lemma mask_state_roundtrip:
  assumes "wf_mask_state m" "encode_control m = Inr bs"
  shows "decode_control bs = Inr m"
proof -
  obtain format an version offer mid uf pw sa material ssrc
    where fm: "format = 1 \<or> format = 2" "m = assemble format an version offer mid uf pw sa material ssrc"
    using assemble_cases by blast
  have v: "MaskState_validate m = Inr ()"
    and bs: "bs = control_bytes format an version offer mid uf pw sa material ssrc"
    using assms(2) unfolding encode_assemble [OF fm] by (auto simp: bind_eq_Inr)
  have "length offer = 16" "length material = 32"
    using assms(1) control_fields_assemble [OF fm(1)] fm(2) by (auto simp: wf_mask_state_def assemble_def)
  with decode_control_bytes [OF _ _ fm(1) validate_assemble [OF fm v] fm(2)] v bs show ?thesis by simp
qed

lemma control_layout:
  assumes "length d = c + 38 + ml + ul + pl" "25 \<le> c"
  shows "d = [d ! 0, d ! 1, d ! 2] @ take 2 (drop 3 d) @ take 16 (drop 5 d) @
    [d ! 21, d ! 22, d ! 23] @ (d ! 24 # take (c - 25) (drop 25 d)) @ take 2 (drop c d) @
    take 32 (drop (c + 2) d) @ take 4 (drop (c + 34) d) @ take ml (drop (c + 38) d) @
    take ul (drop (c + 38 + ml) d) @ take pl (drop (c + 38 + ml + ul) d)"
  using assms by (simp add: glue)

text \<open>The fields of a message by their position in the bytes.\<close>

definition addr_end :: "bytes \<Rightarrow> nat" where
  "addr_end d = (if d ! 24 = 4 then 29 else 41)"

definition addr_at :: "bytes \<Rightarrow> SocketAddr" where
  "addr_at d = (let p = from_be (take 2 (drop (addr_end d) d)) in
     if d ! 24 = 4 then V4 (from_be (take 4 (drop 25 d))) p
     else V6 (from_be (take 16 (drop 25 d))) p 0 0)"

definition state_at :: "bytes \<Rightarrow> rstring \<Rightarrow> rstring \<Rightarrow> rstring \<Rightarrow> MaskState" where
  "state_at d mid uf pw = assemble (d ! 1) (d ! 2 = 1) (from_le (take 2 (drop 3 d)))
     (take 16 (drop 5 d)) mid uf pw (addr_at d) (take 32 (drop (addr_end d + 2) d))
     (from_be (take 4 (drop (addr_end d + 34) d)))"

definition control_shape :: "bytes \<Rightarrow> nat \<Rightarrow> nat \<Rightarrow> nat \<Rightarrow> bool" where
  "control_shape d ml ul pl \<longleftrightarrow>
     ml = unat (d ! 21) \<and> ul = unat (d ! 22) \<and> pl = unat (d ! 23) \<and>
     length d = addr_end d + 38 + ml + ul + pl \<and>
     d ! 0 = 0x2A \<and> (d ! 1 = 1 \<or> d ! 1 = 2) \<and> \<not> 1 < d ! 2 \<and> (d ! 24 = 4 \<or> d ! 24 = 6) \<and>
     ml \<noteq> 0 \<and> ml \<le> 128 \<and> 4 \<le> ul \<and> ul \<le> 32 \<and> 22 \<le> pl \<and> pl \<le> 64"

lemma decode_control_shape:
  assumes "decode_control d = Inr m"
  shows "control_shape d (unat (d ! 21)) (unat (d ! 22)) (unat (d ! 23))"
  using assms unfolding decode_control_def Let_def control_shape_def addr_end_def
  by (auto simp: bind_eq_Inr idx_eq_Inr split: if_splits)

lemma decode_control_staged:
  assumes "control_shape d ml ul pl"
  shows "decode_control d =
    bind (text_at d (addr_end d + 38) ml) (\<lambda>mid. bind (text_at d (addr_end d + 38 + ml) ul) (\<lambda>uf.
    bind (text_at d (addr_end d + 38 + ml + ul) pl) (\<lambda>pw.
    bind (MaskState_validate (state_at d mid uf pw)) (\<lambda>_. Inr (state_at d mid uf pw)))))"
proof -
  have len: "length d = addr_end d + 38 + ml + ul + pl" "d \<noteq> []" "Suc 0 \<le> ml"
    using assms by (auto simp: control_shape_def addr_end_def)
  note s = assms [unfolded control_shape_def]
  show ?thesis
  proof (cases "d ! 24 = 4")
    case True
    then have c: "addr_end d = 29" by (simp add: addr_end_def)
    show ?thesis
      using len s True
      by (simp add: decode_control_def Let_def MAX_CONTROL_def c addr_at_def state_at_def assemble_def)
        auto
  next
    case False
    then have c: "addr_end d = 41" "d ! 24 = 6" using s by (auto simp: addr_end_def)
    show ?thesis
      using len s
      by (simp add: decode_control_def Let_def MAX_CONTROL_def c addr_at_def state_at_def assemble_def)
        auto
  qed
qed

lemma control_bytes_at:
  assumes "control_shape d ml ul pl"
  shows "control_bytes (d ! 1) (d ! 2 = 1) (from_le (take 2 (drop 3 d))) (take 16 (drop 5 d))
    (take ml (drop (addr_end d + 38) d)) (take ul (drop (addr_end d + 38 + ml) d))
    (take pl (drop (addr_end d + 38 + ml + ul) d)) (addr_at d) (take 32 (drop (addr_end d + 2) d))
    (from_be (take 4 (drop (addr_end d + 34) d))) = d"
proof -
  note s = assms [unfolded control_shape_def]
  have l: "length d = addr_end d + 38 + ml + ul + pl" "25 \<le> addr_end d"
    using s by (auto simp: addr_end_def)
  have b: "of_bool (d ! 2 = 1) = d ! 2"
    using s by (cases "d ! 2 = 1") (auto simp: not_less word_le_nat_alt le_Suc_eq word_unat_eq_iff)
  have a: "addr_bytes (addr_at d) @ to_be 2 (port (addr_at d)) @ r =
      d ! 24 # take (addr_end d - 25) (drop 25 d) @ take 2 (drop (addr_end d) d) @ r" for r
    using s by (auto simp: addr_at_def addr_end_def Let_def to_be_from_be)
  have n: "of_nat ml = d ! 21" "of_nat ul = d ! 22" "of_nat pl = d ! 23" "d ! 0 = 0x2A"
    using s by simp_all
  show ?thesis
    using control_layout [OF l] l by (simp add: control_bytes_def n b a to_le_from_le to_be_from_be)
qed

lemma decode_control_Inr:
  assumes "decode_control d = Inr m"
  shows "wf_mask_state m \<and> encode_control m = Inr d"
proof -
  let ?c = "addr_end d + 38" and ?ml = "unat (d ! 21)" and ?ul = "unat (d ! 22)" and ?pl = "unat (d ! 23)"
  note s = decode_control_shape [OF assms]
  define x where "x = state_at d (take ?ml (drop ?c d)) (take ?ul (drop (?c + ?ml) d))
    (take ?pl (drop (?c + ?ml + ?ul) d))"
  have "bind (MaskState_validate x) (\<lambda>_. Inr x) = Inr m"
    using assms [unfolded decode_control_staged [OF s] bind_eq_Inr text_at_eq_Inr]
    by (auto simp: x_def bind_eq_Inr)
  then have v: "MaskState_validate m = Inr ()" and m: "m = x"
    by (auto simp: bind_eq_Inr)
  have f: "d ! 1 = 1 \<or> d ! 1 = 2" and l: "length d = ?c + ?ml + ?ul + ?pl"
    using s by (auto simp: control_shape_def)
  have "encode_control m = Inr d"
    using encode_assemble [OF f m [unfolded x_def state_at_def]] v control_bytes_at [OF s] by simp
  moreover have "wf_mask_state m"
    using control_fields_assemble [OF f] l m
    by (simp add: wf_mask_state_def x_def state_at_def) (simp add: assemble_def addr_end_def split: if_splits)
  ultimately show ?thesis by simp
qed

lemma MaskState_validate_no_panic [no_panic]: "MaskState_validate m \<noteq> Inl Panic"
  by (cases "parameters m")
    (auto simp: MaskState_validate_def RtcParameters_validate_def SrtpParameters_validate_def
      validate_ice_def bind_eq_Inl)

lemma family_len:
  "(if f = 4 then Inr 4 else if f = 6 then Inr 16 else Inl e) = Inr n \<Longrightarrow> n = 4 \<or> n = 16"
  by (auto split: if_splits)

lemma decode_control_no_panic [no_panic]: "decode_control d \<noteq> Inl Panic"
  unfolding decode_control_def Let_def
  by (intro no_panic; (simp (no_asm); fail | linarith | drule family_len, linarith))

section \<open>Interfaces\<close>

interpretation mask_state: wire_codec encode_control decode_control wf_mask_state
  by unfold_locales (rule mask_state_roundtrip)

interpretation mask_state_parser: total_parser decode_control
  by unfold_locales (rule decode_control_no_panic)

section \<open>Properties\<close>

text \<open>
  C29: the mask-state message is an exact codec: decoding never panics, and it accepts precisely the
  bytes the encoder produces from a valid state, giving that state back; a message in any other
  form, or one whose parameters do not validate, is refused.
\<close>

theorem mask_state_codec_exact:
  "decode_control d \<noteq> Inl Panic \<and>
   (decode_control d = Inr m \<longleftrightarrow> wf_mask_state m \<and> encode_control m = Inr d)"
  using mask_state_parser.no_panic [of d] decode_control_Inr [of d m] mask_state.roundtrip [of m d]
  by blast

end
