(* ===== verification/Control_Payload.thy ===== *)
theory Control_Payload
  imports Network_Config Mask_State
begin

text \<open>
  The control messages of \<open>aivpn_common::protocol\<close>: \<open>ControlPayload\<close> with the encoder and
  the decoder of every message, one definition for each arm of the two matches, in the
  order of the source.  An array \<open>[u8; n]\<close> is a byte string whose length is part of
  \<open>wf_control\<close>; a string is valid UTF-8.  \<open>u16::try_from\<close> fails on a longer field, while
  \<open>as u32\<close> wraps.
\<close>

section \<open>Messages\<close>

record MaskOutcome =
  outcome_mask_id :: rstring
  success :: u16
  fail :: u16

datatype ControlPayload =
    KeyRotate bytes
  | MaskUpdate bytes bytes
  | Keepalive u64
  | TelemetryRequest u8
  | TelemetryResponse u16 u16 u16 u8
  | TimeSync u64
  | Shutdown u8
  | HandshakeReject u8
  | ControlAck u16 u8
  | ServerHello bytes bytes "ClientNetworkConfig option"
  | RecordingStart rstring
  | RecordingAck bytes rstring
  | RecordingStop bytes
  | RecordingComplete rstring rstring f32
  | RecordingFailed rstring
  | RecordingStatusRequest
  | RecordingStatus bool "rstring option"
  | BootstrapDescriptorUpdate bytes
  | PoolSync bytes
  | PoolStateDigest bytes
  | PoolBucketDigests bytes bool
  | NodeEnrollment rstring bytes u64 bytes
  | RouteSync bytes
  | ChainForward bytes
  | ClientCert bytes
  | CertRejected
  | DeviceEnrollment bytes bytes
  | KeepaliveAck u64
  | QualityReport u8 u16 u32 u16
  | AdaptiveHint u8
  | MaskPreference rstring
  | MaskFeedback "MaskOutcome list" bytes
  | RegionalMaskHints bytes "(rstring \<times> f32) list"
  | FeedbackConfig u8 u32
  | MaskCatalog "(rstring \<times> rstring \<times> bool) list"
  | Capabilities u8 u32
  | MgmtRequest u32 u8 rstring bytes
  | MgmtResponse u32 u16 bytes
  | PartitionAnnounce rstring u32 u32 u32 bool
  | SiteData bytes
  | ClientHello rstring
  | MaskStateMsg MaskState

section \<open>Encoding\<close>

text \<open>\<open>u16::try_from(len)\<close> with its error, and \<open>len as u32\<close>, as little-endian bytes.\<close>

definition len_u16 :: "bytes \<Rightarrow> bytes result" where
  "len_u16 s =
     (if length s \<le> 65535 then Inr (to_le 2 (of_nat (length s) :: u16))
      else Inl (InvalidPacket ''Control field longer than u16''))"

definition len_u32 :: "bytes \<Rightarrow> bytes" where
  "len_u32 s = to_le 4 (of_nat (length s) :: u32)"

definition encode_KeyRotate :: "bytes \<Rightarrow> bytes result" where
  "encode_KeyRotate new_eph_pub =
     bind (len_u16 new_eph_pub) (\<lambda>n.
     Inr ([ControlSubtype_as_u8 ST_KeyRotate, 0] @ n @ new_eph_pub))"

definition encode_MaskUpdate :: "bytes \<Rightarrow> bytes \<Rightarrow> bytes result" where
  "encode_MaskUpdate mask_data signature =
     bind (len_u16 mask_data) (\<lambda>n.
     Inr ([ControlSubtype_as_u8 ST_MaskUpdate] @ n @ mask_data @ signature))"

definition encode_Keepalive :: "u64 \<Rightarrow> bytes result" where
  "encode_Keepalive send_ts = Inr ([ControlSubtype_as_u8 ST_Keepalive] @ to_le 8 send_ts)"

definition encode_TelemetryRequest :: "u8 \<Rightarrow> bytes result" where
  "encode_TelemetryRequest metric_flags =
     Inr [ControlSubtype_as_u8 ST_TelemetryRequest, metric_flags]"

definition encode_TelemetryResponse :: "u16 \<Rightarrow> u16 \<Rightarrow> u16 \<Rightarrow> u8 \<Rightarrow> bytes result" where
  "encode_TelemetryResponse packet_loss rtt_ms jitter_ms buffer_pct =
     Inr ([ControlSubtype_as_u8 ST_TelemetryResponse, 0] @ to_le 2 packet_loss @ to_le 2 rtt_ms @
          to_le 2 jitter_ms @ [buffer_pct] @ [0, 0, 0])"

definition encode_TimeSync :: "u64 \<Rightarrow> bytes result" where
  "encode_TimeSync server_ts_ms = Inr ([ControlSubtype_as_u8 ST_TimeSync] @ to_le 8 server_ts_ms)"

definition encode_Shutdown :: "u8 \<Rightarrow> bytes result" where
  "encode_Shutdown reason = Inr [ControlSubtype_as_u8 ST_Shutdown, reason]"

definition encode_HandshakeReject :: "u8 \<Rightarrow> bytes result" where
  "encode_HandshakeReject reason = Inr [ControlSubtype_as_u8 ST_HandshakeReject, reason]"

definition encode_PoolStateDigest :: "bytes \<Rightarrow> bytes result" where
  "encode_PoolStateDigest digest = Inr ([ControlSubtype_as_u8 ST_PoolStateDigest] @ digest)"

definition encode_PoolBucketDigests :: "bytes \<Rightarrow> bool \<Rightarrow> bytes result" where
  "encode_PoolBucketDigests digests reply_requested =
     Inr ([ControlSubtype_as_u8 ST_PoolBucketDigests] @
          to_le 4 (of_nat (1 + length digests) :: u32) @ [of_bool reply_requested] @ digests)"

definition encode_NodeEnrollment :: "rstring \<Rightarrow> bytes \<Rightarrow> u64 \<Rightarrow> bytes \<Rightarrow> bytes result" where
  "encode_NodeEnrollment node_id node_pub time_window signature =
     (let total_len = (of_nat (4 + length node_id + 32 + 8 + 64) :: u32) in
      Inr ([ControlSubtype_as_u8 ST_NodeEnrollment] @ to_le 4 total_len @ len_u32 node_id @
           node_id @ node_pub @ to_le 8 time_window @ signature))"

definition encode_ControlAck :: "u16 \<Rightarrow> u8 \<Rightarrow> bytes result" where
  "encode_ControlAck ack_sq ack_for_subtype =
     Inr ([ControlSubtype_as_u8 ST_ControlAck] @ to_le 2 ack_sq @ [ack_for_subtype])"

definition encode_ServerHello :: "bytes \<Rightarrow> bytes \<Rightarrow> ClientNetworkConfig option \<Rightarrow> bytes result" where
  "encode_ServerHello server_eph_pub signature network_config =
     (let buf = [ControlSubtype_as_u8 ST_ServerHello] @ server_eph_pub @ signature in
      case network_config of
        None \<Rightarrow> Inr buf
      | Some nc \<Rightarrow> bind (cnc_validate nc) (\<lambda>_. Inr (buf @ encode_wire nc)))"

definition encode_RecordingStart :: "rstring \<Rightarrow> bytes result" where
  "encode_RecordingStart service =
     bind (len_u16 service) (\<lambda>n.
     Inr ([ControlSubtype_as_u8 ST_RecordingStart] @ n @ service))"

definition encode_RecordingAck :: "bytes \<Rightarrow> rstring \<Rightarrow> bytes result" where
  "encode_RecordingAck session_id status =
     bind (len_u16 status) (\<lambda>n.
     Inr ([ControlSubtype_as_u8 ST_RecordingAck] @ session_id @ n @ status))"

definition encode_RecordingStop :: "bytes \<Rightarrow> bytes result" where
  "encode_RecordingStop session_id = Inr ([ControlSubtype_as_u8 ST_RecordingStop] @ session_id)"

definition encode_RecordingComplete :: "rstring \<Rightarrow> rstring \<Rightarrow> f32 \<Rightarrow> bytes result" where
  "encode_RecordingComplete service msk_id confidence =
     bind (len_u16 service) (\<lambda>n. bind (len_u16 msk_id) (\<lambda>k.
     Inr ([ControlSubtype_as_u8 ST_RecordingComplete] @ n @ service @ k @ msk_id @
          to_le 4 confidence)))"

definition encode_RecordingFailed :: "rstring \<Rightarrow> bytes result" where
  "encode_RecordingFailed reason =
     bind (len_u16 reason) (\<lambda>n.
     Inr ([ControlSubtype_as_u8 ST_RecordingFailed] @ n @ reason))"

definition encode_RecordingStatusRequest :: "bytes result" where
  "encode_RecordingStatusRequest = Inr [ControlSubtype_as_u8 ST_RecordingStatusRequest]"

definition encode_RecordingStatus :: "bool \<Rightarrow> rstring option \<Rightarrow> bytes result" where
  "encode_RecordingStatus can_record active_service =
     (let flags = (if can_record then 0x01 else 0 :: u8);
          flags = (if active_service \<noteq> None then flags OR 0x02 else flags);
          buf = [ControlSubtype_as_u8 ST_RecordingStatus, flags]
      in case active_service of
           None \<Rightarrow> Inr buf
         | Some service \<Rightarrow> bind (len_u16 service) (\<lambda>n. Inr (buf @ n @ service)))"

definition encode_BootstrapDescriptorUpdate :: "bytes \<Rightarrow> bytes result" where
  "encode_BootstrapDescriptorUpdate descriptor_data =
     bind (len_u16 descriptor_data) (\<lambda>n.
     Inr ([ControlSubtype_as_u8 ST_BootstrapDescriptorUpdate] @ n @ descriptor_data))"

definition encode_PoolSync :: "bytes \<Rightarrow> bytes result" where
  "encode_PoolSync clients_json =
     Inr ([ControlSubtype_as_u8 ST_PoolSync] @ len_u32 clients_json @ clients_json)"

definition encode_RouteSync :: "bytes \<Rightarrow> bytes result" where
  "encode_RouteSync subnets_json =
     Inr ([ControlSubtype_as_u8 ST_RouteSync] @ len_u32 subnets_json @ subnets_json)"

definition encode_ChainForward :: "bytes \<Rightarrow> bytes result" where
  "encode_ChainForward payload =
     Inr ([ControlSubtype_as_u8 ST_ChainForward] @ len_u32 payload @ payload)"

definition encode_ClientCert :: "bytes \<Rightarrow> bytes result" where
  "encode_ClientCert cert_bytes =
     Inr ([ControlSubtype_as_u8 ST_ClientCert] @ len_u32 cert_bytes @ cert_bytes)"

definition encode_CertRejected :: "bytes result" where
  "encode_CertRejected = Inr [ControlSubtype_as_u8 ST_CertRejected]"

definition encode_DeviceEnrollment :: "bytes \<Rightarrow> bytes \<Rightarrow> bytes result" where
  "encode_DeviceEnrollment static_pub dh_proof =
     Inr ([ControlSubtype_as_u8 ST_DeviceEnrollment] @ static_pub @ dh_proof)"

definition encode_KeepaliveAck :: "u64 \<Rightarrow> bytes result" where
  "encode_KeepaliveAck echo_ts = Inr ([ControlSubtype_as_u8 ST_KeepaliveAck] @ to_le 8 echo_ts)"

definition encode_QualityReport :: "u8 \<Rightarrow> u16 \<Rightarrow> u32 \<Rightarrow> u16 \<Rightarrow> bytes result" where
  "encode_QualityReport quality rtt_ms loss_ppm jitter_ms =
     Inr ([ControlSubtype_as_u8 ST_QualityReport, quality] @ to_le 2 rtt_ms @ to_le 4 loss_ppm @
          to_le 2 jitter_ms)"

definition encode_AdaptiveHint :: "u8 \<Rightarrow> bytes result" where
  "encode_AdaptiveHint level = Inr [ControlSubtype_as_u8 ST_AdaptiveHint, level]"

definition encode_ClientHello :: "rstring \<Rightarrow> bytes result" where
  "encode_ClientHello msk_id =
     (if msk_id = [] \<or> length msk_id > 96
      then Inl (InvalidPacket ''Invalid ClientHello profile length'')
      else Inr ([ControlSubtype_as_u8 ST_ClientHello, of_nat (length msk_id)] @ msk_id))"

definition encode_MaskPreference :: "rstring \<Rightarrow> bytes result" where
  "encode_MaskPreference base_mask_id =
     bind (len_u16 base_mask_id) (\<lambda>n.
     Inr ([ControlSubtype_as_u8 ST_MaskPreference] @ n @ base_mask_id))"

definition encode_outcome :: "MaskOutcome \<Rightarrow> bytes result" where
  "encode_outcome e =
     bind (len_u16 (outcome_mask_id e)) (\<lambda>n.
     Inr (n @ outcome_mask_id e @ to_le 2 (success e) @ to_le 2 (fail e)))"

definition encode_MaskFeedback :: "MaskOutcome list \<Rightarrow> bytes \<Rightarrow> bytes result" where
  "encode_MaskFeedback entries country_code =
     (let count = min (length entries) 64 in
      bind (encode_entries encode_outcome (take count entries)) (\<lambda>es.
      Inr ([ControlSubtype_as_u8 ST_MaskFeedback, of_nat count] @ es @ country_code)))"

definition encode_hint :: "rstring \<times> f32 \<Rightarrow> bytes result" where
  "encode_hint h =
     (case h of (msk_id, score) \<Rightarrow>
        bind (len_u16 msk_id) (\<lambda>n. Inr (n @ msk_id @ to_le 4 score)))"

definition encode_RegionalMaskHints :: "bytes \<Rightarrow> (rstring \<times> f32) list \<Rightarrow> bytes result" where
  "encode_RegionalMaskHints country_code masks =
     (let count = min (length masks) 32 in
      bind (encode_entries encode_hint (take count masks)) (\<lambda>ms.
      Inr ([ControlSubtype_as_u8 ST_RegionalMaskHints] @ country_code @ [of_nat count] @ ms)))"

definition encode_FeedbackConfig :: "u8 \<Rightarrow> u32 \<Rightarrow> bytes result" where
  "encode_FeedbackConfig report_failure_threshold report_interval_secs =
     Inr ([ControlSubtype_as_u8 ST_FeedbackConfig, report_failure_threshold] @
          to_le 4 report_interval_secs)"

definition encode_catalog_entry :: "rstring \<times> rstring \<times> bool \<Rightarrow> bytes result" where
  "encode_catalog_entry m =
     (case m of (msk_id, label, generated) \<Rightarrow>
        bind (len_u16 msk_id) (\<lambda>n. bind (len_u16 label) (\<lambda>k.
        Inr (n @ msk_id @ k @ label @ [if generated then 1 else 0]))))"

definition encode_MaskCatalog :: "(rstring \<times> rstring \<times> bool) list \<Rightarrow> bytes result" where
  "encode_MaskCatalog masks =
     (let count = min (length masks) 64 in
      bind (encode_entries encode_catalog_entry (take count masks)) (\<lambda>ms.
      Inr ([ControlSubtype_as_u8 ST_MaskCatalog, of_nat count] @ ms)))"

definition encode_Capabilities :: "u8 \<Rightarrow> u32 \<Rightarrow> bytes result" where
  "encode_Capabilities role features =
     Inr ([ControlSubtype_as_u8 ST_Capabilities, role] @ to_le 4 features)"

definition encode_MgmtRequest :: "u32 \<Rightarrow> u8 \<Rightarrow> rstring \<Rightarrow> bytes \<Rightarrow> bytes result" where
  "encode_MgmtRequest req_id mthd path body =
     (if length path > MAX_MGMT_PATH_SIZE then Inl (InvalidPacket ''MgmtRequest path too long'')
      else if length body > MAX_MGMT_BODY_SIZE
      then Inl (InvalidPacket ''MgmtRequest body too long'')
      else bind (len_u16 path) (\<lambda>n.
        Inr ([ControlSubtype_as_u8 ST_MgmtRequest] @ to_le 4 req_id @ [mthd] @ n @ path @
             len_u32 body @ body)))"

definition encode_MgmtResponse :: "u32 \<Rightarrow> u16 \<Rightarrow> bytes \<Rightarrow> bytes result" where
  "encode_MgmtResponse req_id status body =
     (if length body > MAX_MGMT_BODY_SIZE then Inl (InvalidPacket ''MgmtResponse body too long'')
      else Inr ([ControlSubtype_as_u8 ST_MgmtResponse] @ to_le 4 req_id @ to_le 2 status @
                len_u32 body @ body))"

definition encode_PartitionAnnounce :: "rstring \<Rightarrow> u32 \<Rightarrow> u32 \<Rightarrow> u32 \<Rightarrow> bool \<Rightarrow> bytes result" where
  "encode_PartitionAnnounce subnet_cidr partition_index partition_size num_partitions explicit =
     (if length subnet_cidr > 65535
      then Inl (InvalidPacket ''PartitionAnnounce subnet_cidr too long'')
      else bind (len_u16 subnet_cidr) (\<lambda>n.
        Inr ([ControlSubtype_as_u8 ST_PartitionAnnounce] @ n @ subnet_cidr @
             to_le 4 partition_index @ to_le 4 partition_size @ to_le 4 num_partitions @
             [of_bool explicit])))"

definition encode_SiteData :: "bytes \<Rightarrow> bytes result" where
  "encode_SiteData payload =
     Inr ([ControlSubtype_as_u8 ST_SiteData] @ len_u32 payload @ payload)"

fun encode :: "ControlPayload \<Rightarrow> bytes result" where
  "encode (MaskStateMsg state) = encode_control state"
| "encode (KeyRotate k) = encode_KeyRotate k"
| "encode (MaskUpdate m s) = encode_MaskUpdate m s"
| "encode (Keepalive t) = encode_Keepalive t"
| "encode (TelemetryRequest f) = encode_TelemetryRequest f"
| "encode (TelemetryResponse l r j b) = encode_TelemetryResponse l r j b"
| "encode (TimeSync t) = encode_TimeSync t"
| "encode (Shutdown r) = encode_Shutdown r"
| "encode (HandshakeReject r) = encode_HandshakeReject r"
| "encode (PoolStateDigest d) = encode_PoolStateDigest d"
| "encode (PoolBucketDigests d r) = encode_PoolBucketDigests d r"
| "encode (NodeEnrollment i p w s) = encode_NodeEnrollment i p w s"
| "encode (ControlAck s t) = encode_ControlAck s t"
| "encode (ServerHello k s c) = encode_ServerHello k s c"
| "encode (RecordingStart s) = encode_RecordingStart s"
| "encode (RecordingAck i s) = encode_RecordingAck i s"
| "encode (RecordingStop i) = encode_RecordingStop i"
| "encode (RecordingComplete s m c) = encode_RecordingComplete s m c"
| "encode (RecordingFailed r) = encode_RecordingFailed r"
| "encode RecordingStatusRequest = encode_RecordingStatusRequest"
| "encode (RecordingStatus c s) = encode_RecordingStatus c s"
| "encode (BootstrapDescriptorUpdate d) = encode_BootstrapDescriptorUpdate d"
| "encode (PoolSync j) = encode_PoolSync j"
| "encode (RouteSync j) = encode_RouteSync j"
| "encode (ChainForward p) = encode_ChainForward p"
| "encode (ClientCert c) = encode_ClientCert c"
| "encode CertRejected = encode_CertRejected"
| "encode (DeviceEnrollment p d) = encode_DeviceEnrollment p d"
| "encode (KeepaliveAck t) = encode_KeepaliveAck t"
| "encode (QualityReport q r l j) = encode_QualityReport q r l j"
| "encode (AdaptiveHint l) = encode_AdaptiveHint l"
| "encode (ClientHello m) = encode_ClientHello m"
| "encode (MaskPreference m) = encode_MaskPreference m"
| "encode (MaskFeedback es c) = encode_MaskFeedback es c"
| "encode (RegionalMaskHints c ms) = encode_RegionalMaskHints c ms"
| "encode (FeedbackConfig t i) = encode_FeedbackConfig t i"
| "encode (MaskCatalog ms) = encode_MaskCatalog ms"
| "encode (Capabilities r f) = encode_Capabilities r f"
| "encode (MgmtRequest i m p b) = encode_MgmtRequest i m p b"
| "encode (MgmtResponse i s b) = encode_MgmtResponse i s b"
| "encode (PartitionAnnounce c i s n e) = encode_PartitionAnnounce c i s n e"
| "encode (SiteData p) = encode_SiteData p"

section \<open>Decoding\<close>

text \<open>\<open>String::from_utf8_lossy\<close> of a slice.\<close>

definition lossy_at :: "bytes \<Rightarrow> nat \<Rightarrow> nat \<Rightarrow> rstring result" where
  "lossy_at data i j = bind (slice data i j) (\<lambda>s. Inr (utf8_lossy s))"

definition decode_KeyRotate :: "bytes \<Rightarrow> ControlPayload result" where
  "decode_KeyRotate data =
     (if length data < 6 then Inl (InvalidPacket ''KeyRotate too short'')
      else bind (read_u16 data 2) (\<lambda>n.
        (let new_eph_pub_len = unat n in
         if new_eph_pub_len \<noteq> 32
         then Inl (InvalidPacket ''KeyRotate: invalid eph pub key length'')
         else if length data < 4 + new_eph_pub_len
         then Inl (InvalidPacket ''KeyRotate invalid length'')
         else bind (slice data 4 (4 + 32)) (\<lambda>k. Inr (KeyRotate k)))))"

definition decode_MaskUpdate :: "bytes \<Rightarrow> ControlPayload result" where
  "decode_MaskUpdate data =
     (if length data < 4 then Inl (InvalidPacket ''MaskUpdate too short'')
      else bind (read_u16 data 1) (\<lambda>n.
        (let mask_len = unat n in
         if length data < 3 + mask_len + 64 then Inl (InvalidPacket ''MaskUpdate invalid length'')
         else bind (slice data 3 (3 + mask_len)) (\<lambda>m.
              bind (slice data (3 + mask_len) (3 + mask_len + 64)) (\<lambda>s. Inr (MaskUpdate m s))))))"

definition decode_Keepalive :: "bytes \<Rightarrow> ControlPayload result" where
  "decode_Keepalive data =
     bind (if 9 \<le> length data then read_u64 data 1 else Inr 0) (\<lambda>t. Inr (Keepalive t))"

definition decode_TelemetryRequest :: "bytes \<Rightarrow> ControlPayload result" where
  "decode_TelemetryRequest data =
     (if length data < 2 then Inl (InvalidPacket ''TelemetryRequest too short'')
      else bind (idx data 1) (\<lambda>f. Inr (TelemetryRequest f)))"

definition decode_TelemetryResponse :: "bytes \<Rightarrow> ControlPayload result" where
  "decode_TelemetryResponse data =
     (if length data < 12 then Inl (InvalidPacket ''TelemetryResponse too short'')
      else bind (read_u16 data 2) (\<lambda>l. bind (read_u16 data 4) (\<lambda>r.
           bind (read_u16 data 6) (\<lambda>j. bind (idx data 8) (\<lambda>b.
           Inr (TelemetryResponse l r j b))))))"

definition decode_TimeSync :: "bytes \<Rightarrow> ControlPayload result" where
  "decode_TimeSync data =
     (if length data < 9 then Inl (InvalidPacket ''TimeSync too short'')
      else bind (read_u64 data 1) (\<lambda>t. Inr (TimeSync t)))"

definition decode_Shutdown :: "bytes \<Rightarrow> ControlPayload result" where
  "decode_Shutdown data =
     (if length data < 2 then Inl (InvalidPacket ''Shutdown too short'')
      else bind (idx data 1) (\<lambda>r. Inr (Shutdown r)))"

definition decode_HandshakeReject :: "bytes \<Rightarrow> ControlPayload result" where
  "decode_HandshakeReject data =
     (if length data < 2 then Inl (InvalidPacket ''HandshakeReject too short'')
      else bind (idx data 1) (\<lambda>r. Inr (HandshakeReject r)))"

definition decode_PoolStateDigest :: "bytes \<Rightarrow> ControlPayload result" where
  "decode_PoolStateDigest data =
     (if length data < 1 + 32 then Inl (InvalidPacket ''PoolStateDigest too short'')
      else bind (slice data 1 (1 + 32)) (\<lambda>d. Inr (PoolStateDigest d)))"

definition decode_PoolBucketDigests :: "bytes \<Rightarrow> ControlPayload result" where
  "decode_PoolBucketDigests data =
     (if length data < 6 then Inl (InvalidPacket ''PoolBucketDigests too short'')
      else bind (read_u32 data 1) (\<lambda>n.
        (let payload_len = unat n in
         if payload_len < 1 then Inl (InvalidPacket ''PoolBucketDigests invalid length'')
         else if length data - 5 < payload_len
         then Inl (InvalidPacket ''PoolBucketDigests invalid length'')
         else bind (idx data 5) (\<lambda>r.
           (let digests_len = payload_len - 1 in
            bind (slice data 6 (6 + digests_len)) (\<lambda>d. Inr (PoolBucketDigests d (r \<noteq> 0))))))))"

definition decode_NodeEnrollment :: "bytes \<Rightarrow> ControlPayload result" where
  "decode_NodeEnrollment data =
     (if length data < 9 then Inl (InvalidPacket ''NodeEnrollment too short'')
      else bind (read_u32 data 1) (\<lambda>n.
        (let total_len = unat n in
         if length data - 5 < total_len then Inl (InvalidPacket ''NodeEnrollment invalid length'')
         else if total_len < 4 + 32 + 8 + 64
         then Inl (InvalidPacket ''NodeEnrollment invalid length'')
         else bind (read_u32 data 5) (\<lambda>k.
           (let node_id_len = unat k in
            if node_id_len \<noteq> total_len - (4 + 32 + 8 + 64)
            then Inl (InvalidPacket ''NodeEnrollment length mismatch'')
            else
              (let offset = 9 in
               if length data < offset + node_id_len
               then Inl (InvalidPacket ''NodeEnrollment node_id truncated'')
               else bind (lossy_at data offset (offset + node_id_len)) (\<lambda>node_id.
                 (let offset = offset + node_id_len in
                  if length data < offset + 32 + 8 + 64
                  then Inl (InvalidPacket ''NodeEnrollment truncated'')
                  else bind (slice data offset (offset + 32)) (\<lambda>node_pub.
                    (let offset = offset + 32 in
                     bind (read_u64 data offset) (\<lambda>time_window.
                     (let offset = offset + 8 in
                      bind (slice data offset (offset + 64)) (\<lambda>signature.
                      Inr (NodeEnrollment node_id node_pub time_window signature))))))))))))))"

definition decode_ControlAck :: "bytes \<Rightarrow> ControlPayload result" where
  "decode_ControlAck data =
     (if length data < 4 then Inl (InvalidPacket ''ControlAck too short'')
      else bind (read_u16 data 1) (\<lambda>s. bind (idx data 3) (\<lambda>t. Inr (ControlAck s t))))"

definition decode_ServerHello :: "bytes \<Rightarrow> ControlPayload result" where
  "decode_ServerHello data =
     (if length data < 1 + 32 + 64 then Inl (InvalidPacket ''ServerHello too short'')
      else bind (slice data 1 33) (\<lambda>server_eph_pub. bind (slice data 33 97) (\<lambda>signature.
        bind (if 97 + 12 \<le> length data
              then (let e = min (97 + WIRE_SIZE) (length data) in
                    bind (slice data 97 e) (\<lambda>w. bind (decode_wire w) (\<lambda>c. Inr (Some c))))
              else Inr None) (\<lambda>network_config.
        Inr (ServerHello server_eph_pub signature network_config)))))"

definition decode_RecordingStart :: "bytes \<Rightarrow> ControlPayload result" where
  "decode_RecordingStart data =
     (if length data < 3 then Inl (InvalidPacket ''RecordingStart too short'')
      else bind (read_u16 data 1) (\<lambda>n.
        (let svc_len = unat n in
         if length data < 3 + svc_len then Inl (InvalidPacket ''RecordingStart invalid length'')
         else bind (lossy_at data 3 (3 + svc_len)) (\<lambda>s. Inr (RecordingStart s)))))"

definition decode_RecordingAck :: "bytes \<Rightarrow> ControlPayload result" where
  "decode_RecordingAck data =
     (if length data < 1 + 16 + 2 then Inl (InvalidPacket ''RecordingAck too short'')
      else bind (slice data 1 17) (\<lambda>session_id. bind (read_u16 data 17) (\<lambda>n.
        (let status_len = unat n in
         if length data < 19 + status_len then Inl (InvalidPacket ''RecordingAck invalid length'')
         else bind (lossy_at data 19 (19 + status_len)) (\<lambda>s. Inr (RecordingAck session_id s))))))"

definition decode_RecordingStop :: "bytes \<Rightarrow> ControlPayload result" where
  "decode_RecordingStop data =
     (if length data < 17 then Inl (InvalidPacket ''RecordingStop too short'')
      else bind (slice data 1 17) (\<lambda>i. Inr (RecordingStop i)))"

definition decode_RecordingComplete :: "bytes \<Rightarrow> ControlPayload result" where
  "decode_RecordingComplete data =
     (if length data < 3 then Inl (InvalidPacket ''RecordingComplete too short'')
      else bind (read_u16 data 1) (\<lambda>n.
        (let svc_len = unat n; cursor = 3 in
         if length data < cursor + svc_len + 2 + 4
         then Inl (InvalidPacket ''RecordingComplete invalid length'')
         else bind (lossy_at data cursor (cursor + svc_len)) (\<lambda>service.
           (let cursor = cursor + svc_len in
            bind (read_u16 data cursor) (\<lambda>k.
            (let mid_len = unat k; cursor = cursor + 2 in
             if length data < cursor + mid_len + 4
             then Inl (InvalidPacket ''RecordingComplete invalid mask_id'')
             else bind (lossy_at data cursor (cursor + mid_len)) (\<lambda>msk_id.
               (let cursor = cursor + mid_len in
                bind (read_u32 data cursor) (\<lambda>confidence.
                Inr (RecordingComplete service msk_id confidence)))))))))))"

definition decode_RecordingFailed :: "bytes \<Rightarrow> ControlPayload result" where
  "decode_RecordingFailed data =
     (if length data < 3 then Inl (InvalidPacket ''RecordingFailed too short'')
      else bind (read_u16 data 1) (\<lambda>n.
        (let reason_len = unat n in
         if length data < 3 + reason_len
         then Inl (InvalidPacket ''RecordingFailed invalid length'')
         else bind (lossy_at data 3 (3 + reason_len)) (\<lambda>s. Inr (RecordingFailed s)))))"

definition decode_RecordingStatusRequest :: "bytes \<Rightarrow> ControlPayload result" where
  "decode_RecordingStatusRequest data = Inr RecordingStatusRequest"

definition decode_RecordingStatus :: "bytes \<Rightarrow> ControlPayload result" where
  "decode_RecordingStatus data =
     (if length data < 2 then Inl (InvalidPacket ''RecordingStatus too short'')
      else bind (idx data 1) (\<lambda>flags.
        (let can_record = (flags AND 0x01 \<noteq> 0); has_service = (flags AND 0x02 \<noteq> 0) in
         bind (if has_service then
                 (if length data < 4
                  then Inl (InvalidPacket ''RecordingStatus missing service length'')
                  else bind (read_u16 data 2) (\<lambda>n.
                    (let service_len = unat n in
                     if length data < 4 + service_len
                     then Inl (InvalidPacket ''RecordingStatus invalid service length'')
                     else bind (lossy_at data 4 (4 + service_len)) (\<lambda>s. Inr (Some s)))))
               else Inr None) (\<lambda>active_service.
         Inr (RecordingStatus can_record active_service)))))"

definition decode_BootstrapDescriptorUpdate :: "bytes \<Rightarrow> ControlPayload result" where
  "decode_BootstrapDescriptorUpdate data =
     (if length data < 3 then Inl (InvalidPacket ''BootstrapDescriptorUpdate too short'')
      else bind (read_u16 data 1) (\<lambda>n.
        (let descriptor_len = unat n in
         if length data < 3 + descriptor_len
         then Inl (InvalidPacket ''BootstrapDescriptorUpdate invalid length'')
         else bind (slice data 3 (3 + descriptor_len)) (\<lambda>d.
           Inr (BootstrapDescriptorUpdate d)))))"

definition decode_PoolSync :: "bytes \<Rightarrow> ControlPayload result" where
  "decode_PoolSync data =
     (if length data < 5 then Inl (InvalidPacket ''PoolSync too short'')
      else bind (read_u32 data 1) (\<lambda>n.
        (let payload_len = unat n in
         if length data - 5 < payload_len then Inl (InvalidPacket ''PoolSync invalid length'')
         else bind (slice data 5 (5 + payload_len)) (\<lambda>j. Inr (PoolSync j)))))"

definition decode_RouteSync :: "bytes \<Rightarrow> ControlPayload result" where
  "decode_RouteSync data =
     (if length data < 5 then Inl (InvalidPacket ''RouteSync too short'')
      else bind (read_u32 data 1) (\<lambda>n.
        (let len = unat n in
         if length data - 5 < len then Inl (InvalidPacket ''RouteSync invalid length'')
         else bind (slice data 5 (5 + len)) (\<lambda>j. Inr (RouteSync j)))))"

definition decode_ChainForward :: "bytes \<Rightarrow> ControlPayload result" where
  "decode_ChainForward data =
     (if length data < 5 then Inl (InvalidPacket ''ChainForward too short'')
      else bind (read_u32 data 1) (\<lambda>n.
        (let len = unat n in
         if length data - 5 < len then Inl (InvalidPacket ''ChainForward invalid length'')
         else bind (slice data 5 (5 + len)) (\<lambda>p. Inr (ChainForward p)))))"

definition decode_SiteData :: "bytes \<Rightarrow> ControlPayload result" where
  "decode_SiteData data =
     (if length data < 5 then Inl (InvalidPacket ''SiteData too short'')
      else bind (read_u32 data 1) (\<lambda>n.
        (let len = unat n in
         if length data - 5 < len then Inl (InvalidPacket ''SiteData invalid length'')
         else bind (slice data 5 (5 + len)) (\<lambda>p. Inr (SiteData p)))))"

definition decode_ClientCert :: "bytes \<Rightarrow> ControlPayload result" where
  "decode_ClientCert data =
     (if length data < 5 then Inl (InvalidPacket ''ClientCert too short'')
      else bind (read_u32 data 1) (\<lambda>n.
        (let len = unat n in
         if length data - 5 < len then Inl (InvalidPacket ''ClientCert invalid length'')
         else bind (slice data 5 (5 + len)) (\<lambda>c. Inr (ClientCert c)))))"

definition decode_CertRejected :: "bytes \<Rightarrow> ControlPayload result" where
  "decode_CertRejected data = Inr CertRejected"

definition decode_DeviceEnrollment :: "bytes \<Rightarrow> ControlPayload result" where
  "decode_DeviceEnrollment data =
     (if length data < 65 then Inl (InvalidPacket ''DeviceEnrollment too short'')
      else bind (slice data 1 33) (\<lambda>static_pub. bind (slice data 33 65) (\<lambda>dh_proof.
        Inr (DeviceEnrollment static_pub dh_proof))))"

definition decode_KeepaliveAck :: "bytes \<Rightarrow> ControlPayload result" where
  "decode_KeepaliveAck data =
     (if length data < 9 then Inl (InvalidPacket ''KeepaliveAck too short'')
      else bind (read_u64 data 1) (\<lambda>t. Inr (KeepaliveAck t)))"

definition decode_QualityReport :: "bytes \<Rightarrow> ControlPayload result" where
  "decode_QualityReport data =
     (if length data < 10 then Inl (InvalidPacket ''QualityReport too short'')
      else bind (idx data 1) (\<lambda>q. bind (read_u16 data 2) (\<lambda>r.
           bind (read_u32 data 4) (\<lambda>l. bind (read_u16 data 8) (\<lambda>j.
           Inr (QualityReport q r l j))))))"

definition decode_AdaptiveHint :: "bytes \<Rightarrow> ControlPayload result" where
  "decode_AdaptiveHint data =
     (if length data < 2 then Inl (InvalidPacket ''AdaptiveHint too short'')
      else bind (idx data 1) (\<lambda>l. Inr (AdaptiveHint l)))"

definition decode_ClientHello :: "bytes \<Rightarrow> ControlPayload result" where
  "decode_ClientHello data =
     (let malformed = Inl (InvalidPacket ''Malformed ClientHello'') in
      if length data < 2 then malformed
      else bind (idx data 1) (\<lambda>n.
        if n = 0 \<or> n > 96 \<or> length data \<noteq> 2 + unat n then malformed
        else bind (slice data 2 (length data)) (\<lambda>s.
          if utf8_valid s then Inr (ClientHello s)
          else Inl (InvalidPacket ''Invalid ClientHello profile id''))))"

definition decode_MaskPreference :: "bytes \<Rightarrow> ControlPayload result" where
  "decode_MaskPreference data =
     (if length data < 3 then Inl (InvalidPacket ''MaskPreference too short'')
      else bind (read_u16 data 1) (\<lambda>n.
        (let id_len = unat n in
         if length data < 3 + id_len then Inl (InvalidPacket ''MaskPreference invalid length'')
         else bind (lossy_at data 3 (3 + id_len)) (\<lambda>s. Inr (MaskPreference s)))))"

definition decode_outcome :: "bytes \<Rightarrow> nat \<Rightarrow> (MaskOutcome \<times> nat) result" where
  "decode_outcome data offset =
     (if length data < offset + 2 then Inl (InvalidPacket ''MaskFeedback entry truncated'')
      else bind (read_u16 data offset) (\<lambda>n.
        (let id_len = unat n; offset = offset + 2 in
         if length data < offset + id_len + 4
         then Inl (InvalidPacket ''MaskFeedback entry truncated'')
         else bind (lossy_at data offset (offset + id_len)) (\<lambda>msk_id.
           (let offset = offset + id_len in
            bind (read_u16 data offset) (\<lambda>s.
            (let offset = offset + 2 in
             bind (read_u16 data offset) (\<lambda>f.
             (let offset = offset + 2 in
              Inr (\<lparr>outcome_mask_id = msk_id, success = s, fail = f\<rparr>, offset))))))))))"

definition decode_MaskFeedback :: "bytes \<Rightarrow> ControlPayload result" where
  "decode_MaskFeedback data =
     (if length data < 2 then Inl (InvalidPacket ''MaskFeedback too short'')
      else bind (idx data 1) (\<lambda>n.
        (let entry_count = unat n in
         if entry_count > 64 then Inl (InvalidPacket ''MaskFeedback entry_count exceeds cap'')
         else bind (decode_entries decode_outcome data 2 entry_count) (\<lambda>(entries, offset).
           if length data < offset + 2
           then Inl (InvalidPacket ''MaskFeedback missing country code'')
           else bind (slice data offset (offset + 2)) (\<lambda>country_code.
             Inr (MaskFeedback entries country_code))))))"

text \<open>\<open>f32::is_finite\<close> and \<open>(0.0..=1.0).contains\<close> on the bit pattern; minus zero is in range.\<close>

definition f32_is_finite :: "f32 \<Rightarrow> bool" where
  "f32_is_finite b \<longleftrightarrow> b AND 0x7F800000 \<noteq> 0x7F800000"

definition f32_in_unit :: "f32 \<Rightarrow> bool" where
  "f32_in_unit b \<longleftrightarrow> b \<le> 0x3F800000 \<or> b = 0x80000000"

definition decode_hint :: "bytes \<Rightarrow> nat \<Rightarrow> ((rstring \<times> f32) \<times> nat) result" where
  "decode_hint data offset =
     (if length data < offset + 2 then Inl (InvalidPacket ''RegionalMaskHints entry truncated'')
      else bind (read_u16 data offset) (\<lambda>n.
        (let id_len = unat n; offset = offset + 2 in
         if length data < offset + id_len + 4
         then Inl (InvalidPacket ''RegionalMaskHints entry truncated'')
         else bind (lossy_at data offset (offset + id_len)) (\<lambda>msk_id.
           (let offset = offset + id_len in
            bind (read_u32 data offset) (\<lambda>score.
            (let offset = offset + 4 in
             if \<not> f32_is_finite score \<or> \<not> f32_in_unit score
             then Inl (InvalidPacket ''RegionalMaskHints score out of range'')
             else Inr ((msk_id, score), offset))))))))"

definition decode_RegionalMaskHints :: "bytes \<Rightarrow> ControlPayload result" where
  "decode_RegionalMaskHints data =
     (if length data < 4 then Inl (InvalidPacket ''RegionalMaskHints too short'')
      else bind (slice data 1 3) (\<lambda>country_code. bind (idx data 3) (\<lambda>n.
        (let count = unat n in
         if count > 32 then Inl (InvalidPacket ''RegionalMaskHints count exceeds cap'')
         else bind (decode_entries decode_hint data 4 count) (\<lambda>(masks, offset).
           Inr (RegionalMaskHints country_code masks))))))"

definition decode_FeedbackConfig :: "bytes \<Rightarrow> ControlPayload result" where
  "decode_FeedbackConfig data =
     (if length data < 6 then Inl (InvalidPacket ''FeedbackConfig too short'')
      else bind (idx data 1) (\<lambda>t. bind (read_u32 data 2) (\<lambda>i. Inr (FeedbackConfig t i))))"

definition decode_catalog_entry :: "bytes \<Rightarrow> nat \<Rightarrow> ((rstring \<times> rstring \<times> bool) \<times> nat) result" where
  "decode_catalog_entry data offset =
     (if length data < offset + 2 then Inl (InvalidPacket ''MaskCatalog entry truncated'')
      else bind (read_u16 data offset) (\<lambda>n.
        (let id_len = unat n; offset = offset + 2 in
         if length data < offset + id_len + 2
         then Inl (InvalidPacket ''MaskCatalog entry truncated'')
         else bind (lossy_at data offset (offset + id_len)) (\<lambda>msk_id.
           (let offset = offset + id_len in
            bind (read_u16 data offset) (\<lambda>l.
            (let label_len = unat l; offset = offset + 2 in
             if length data < offset + label_len + 1
             then Inl (InvalidPacket ''MaskCatalog entry truncated'')
             else bind (lossy_at data offset (offset + label_len)) (\<lambda>label.
               (let offset = offset + label_len in
                bind (idx data offset) (\<lambda>g.
                (let offset = offset + 1 in
                 Inr ((msk_id, label, g \<noteq> 0), offset))))))))))))"

definition decode_MaskCatalog :: "bytes \<Rightarrow> ControlPayload result" where
  "decode_MaskCatalog data =
     (if length data < 2 then Inl (InvalidPacket ''MaskCatalog too short'')
      else bind (idx data 1) (\<lambda>n.
        (let count = unat n in
         if count > 64 then Inl (InvalidPacket ''MaskCatalog count exceeds cap'')
         else bind (decode_entries decode_catalog_entry data 2 count) (\<lambda>(masks, offset). Inr (MaskCatalog masks)))))"

definition decode_Capabilities :: "bytes \<Rightarrow> ControlPayload result" where
  "decode_Capabilities data =
     (if length data < 6 then Inl (InvalidPacket ''Capabilities too short'')
      else bind (idx data 1) (\<lambda>r. bind (read_u32 data 2) (\<lambda>f. Inr (Capabilities r f))))"

definition decode_MgmtRequest :: "bytes \<Rightarrow> ControlPayload result" where
  "decode_MgmtRequest data =
     (if length data < 8 then Inl (InvalidPacket ''MgmtRequest too short'')
      else bind (read_u32 data 1) (\<lambda>req_id. bind (idx data 5) (\<lambda>mthd. bind (read_u16 data 6) (\<lambda>n.
        (let path_len = unat n in
         if path_len > MAX_MGMT_PATH_SIZE then Inl (InvalidPacket ''MgmtRequest path too long'')
         else if length data - 8 < path_len then Inl (InvalidPacket ''MgmtRequest path truncated'')
         else
           (let path_start = 8; path_end = path_start + path_len in
            bind (lossy_at data path_start path_end) (\<lambda>path.
            if length data - path_end < 4
            then Inl (InvalidPacket ''MgmtRequest missing body length'')
            else bind (read_u32 data path_end) (\<lambda>k.
              (let body_len = unat k; body_start = path_end + 4 in
               if body_len > MAX_MGMT_BODY_SIZE
               then Inl (InvalidPacket ''MgmtRequest body too long'')
               else if length data - body_start < body_len
               then Inl (InvalidPacket ''MgmtRequest body truncated'')
               else bind (slice data body_start (body_start + body_len)) (\<lambda>body.
                 Inr (MgmtRequest req_id mthd path body)))))))))))"

definition decode_MgmtResponse :: "bytes \<Rightarrow> ControlPayload result" where
  "decode_MgmtResponse data =
     (if length data < 11 then Inl (InvalidPacket ''MgmtResponse too short'')
      else bind (read_u32 data 1) (\<lambda>req_id. bind (read_u16 data 5) (\<lambda>status.
        bind (read_u32 data 7) (\<lambda>k.
        (let body_len = unat k in
         if body_len > MAX_MGMT_BODY_SIZE then Inl (InvalidPacket ''MgmtResponse body too long'')
         else if length data - 11 < body_len
         then Inl (InvalidPacket ''MgmtResponse body truncated'')
         else bind (slice data 11 (11 + body_len)) (\<lambda>body.
           Inr (MgmtResponse req_id status body)))))))"

definition decode_PartitionAnnounce :: "bytes \<Rightarrow> ControlPayload result" where
  "decode_PartitionAnnounce data =
     (if length data < 3 then Inl (InvalidPacket ''PartitionAnnounce too short'')
      else bind (read_u16 data 1) (\<lambda>n.
        (let cidr_len = unat n; cidr_start = 3 in
         if length data - cidr_start < cidr_len
         then Inl (InvalidPacket ''PartitionAnnounce subnet_cidr truncated'')
         else
           (let cidr_end = cidr_start + cidr_len in
            bind (lossy_at data cidr_start cidr_end) (\<lambda>subnet_cidr.
            if length data - cidr_end < 13
            then Inl (InvalidPacket ''PartitionAnnounce truncated'')
            else bind (read_u32 data cidr_end) (\<lambda>partition_index.
                 bind (read_u32 data (cidr_end + 4)) (\<lambda>partition_size.
                 bind (read_u32 data (cidr_end + 8)) (\<lambda>num_partitions.
                 bind (idx data (cidr_end + 12)) (\<lambda>e.
                 Inr (PartitionAnnounce subnet_cidr partition_index partition_size
                        num_partitions (e \<noteq> 0)))))))))))"

definition decode_MaskState :: "bytes \<Rightarrow> ControlPayload result" where
  "decode_MaskState data = bind (decode_control data) (\<lambda>m. Inr (MaskStateMsg m))"

fun decode_subtype :: "ControlSubtype \<Rightarrow> bytes \<Rightarrow> ControlPayload result" where
  "decode_subtype ST_MaskState = decode_MaskState"
| "decode_subtype ST_KeyRotate = decode_KeyRotate"
| "decode_subtype ST_MaskUpdate = decode_MaskUpdate"
| "decode_subtype ST_Keepalive = decode_Keepalive"
| "decode_subtype ST_TelemetryRequest = decode_TelemetryRequest"
| "decode_subtype ST_TelemetryResponse = decode_TelemetryResponse"
| "decode_subtype ST_TimeSync = decode_TimeSync"
| "decode_subtype ST_Shutdown = decode_Shutdown"
| "decode_subtype ST_HandshakeReject = decode_HandshakeReject"
| "decode_subtype ST_PoolStateDigest = decode_PoolStateDigest"
| "decode_subtype ST_PoolBucketDigests = decode_PoolBucketDigests"
| "decode_subtype ST_NodeEnrollment = decode_NodeEnrollment"
| "decode_subtype ST_ControlAck = decode_ControlAck"
| "decode_subtype ST_ServerHello = decode_ServerHello"
| "decode_subtype ST_RecordingStart = decode_RecordingStart"
| "decode_subtype ST_RecordingAck = decode_RecordingAck"
| "decode_subtype ST_RecordingStop = decode_RecordingStop"
| "decode_subtype ST_RecordingComplete = decode_RecordingComplete"
| "decode_subtype ST_RecordingFailed = decode_RecordingFailed"
| "decode_subtype ST_RecordingStatusRequest = decode_RecordingStatusRequest"
| "decode_subtype ST_RecordingStatus = decode_RecordingStatus"
| "decode_subtype ST_BootstrapDescriptorUpdate = decode_BootstrapDescriptorUpdate"
| "decode_subtype ST_PoolSync = decode_PoolSync"
| "decode_subtype ST_RouteSync = decode_RouteSync"
| "decode_subtype ST_ChainForward = decode_ChainForward"
| "decode_subtype ST_SiteData = decode_SiteData"
| "decode_subtype ST_ClientCert = decode_ClientCert"
| "decode_subtype ST_CertRejected = decode_CertRejected"
| "decode_subtype ST_DeviceEnrollment = decode_DeviceEnrollment"
| "decode_subtype ST_KeepaliveAck = decode_KeepaliveAck"
| "decode_subtype ST_QualityReport = decode_QualityReport"
| "decode_subtype ST_AdaptiveHint = decode_AdaptiveHint"
| "decode_subtype ST_ClientHello = decode_ClientHello"
| "decode_subtype ST_MaskPreference = decode_MaskPreference"
| "decode_subtype ST_MaskFeedback = decode_MaskFeedback"
| "decode_subtype ST_RegionalMaskHints = decode_RegionalMaskHints"
| "decode_subtype ST_FeedbackConfig = decode_FeedbackConfig"
| "decode_subtype ST_MaskCatalog = decode_MaskCatalog"
| "decode_subtype ST_Capabilities = decode_Capabilities"
| "decode_subtype ST_MgmtRequest = decode_MgmtRequest"
| "decode_subtype ST_MgmtResponse = decode_MgmtResponse"
| "decode_subtype ST_PartitionAnnounce = decode_PartitionAnnounce"

definition decode :: "bytes \<Rightarrow> ControlPayload result" where
  "decode data =
     (if data = [] then Inl (InvalidPacket ''Empty control payload'')
      else bind (idx data 0) (\<lambda>b.
        case ControlSubtype_from_u8 b of
          None \<Rightarrow> Inl (InvalidPacket ''Unknown control subtype'')
        | Some subtype \<Rightarrow> decode_subtype subtype data))"

end
