(* ===== verification/Control_Roundtrip.thy ===== *)
theory Control_Roundtrip
  imports Control_Payload
begin

text \<open>
  The control messages survive the wire: for every arm of \<open>ControlPayload::encode\<close> the
  matching arm of \<open>decode\<close> reads the message back, the decoder never panics, and what it
  returns is well formed.  The three repeated fields are instances of \<open>entry_codec\<close>.
\<close>

section \<open>Well-formed messages\<close>

definition fits_u32 :: "nat \<Rightarrow> bool" where
  "fits_u32 n \<longleftrightarrow> n < 2 ^ 32"

definition wf_score :: "f32 \<Rightarrow> bool" where
  "wf_score b \<longleftrightarrow> f32_is_finite b \<and> f32_in_unit b"

fun wf_control :: "ControlPayload \<Rightarrow> bool" where
  "wf_control (KeyRotate k) = (length k = 32)"
| "wf_control (MaskUpdate m s) = (length s = 64)"
| "wf_control (PoolStateDigest d) = (length d = 32)"
| "wf_control (PoolBucketDigests d r) = fits_u32 (1 + length d)"
| "wf_control (NodeEnrollment i p w s) =
     (utf8_valid i \<and> length p = 32 \<and> length s = 64 \<and> fits_u32 (4 + length i + 32 + 8 + 64))"
| "wf_control (ServerHello k s c) =
     (length k = 32 \<and> length s = 64 \<and>
      (case c of None \<Rightarrow> True | Some x \<Rightarrow> wire_client_config x))"
| "wf_control (RecordingStart s) = utf8_valid s"
| "wf_control (RecordingAck i s) = (length i = 16 \<and> utf8_valid s)"
| "wf_control (RecordingStop i) = (length i = 16)"
| "wf_control (RecordingComplete s m c) = (utf8_valid s \<and> utf8_valid m)"
| "wf_control (RecordingFailed s) = utf8_valid s"
| "wf_control (RecordingStatus c s) = (case s of None \<Rightarrow> True | Some t \<Rightarrow> utf8_valid t)"
| "wf_control (PoolSync p) = fits_u32 (length p)"
| "wf_control (RouteSync p) = fits_u32 (length p)"
| "wf_control (ChainForward p) = fits_u32 (length p)"
| "wf_control (SiteData p) = fits_u32 (length p)"
| "wf_control (ClientCert p) = fits_u32 (length p)"
| "wf_control (DeviceEnrollment p d) = (length p = 32 \<and> length d = 32)"
| "wf_control (ClientHello m) = utf8_valid m"
| "wf_control (MaskPreference m) = utf8_valid m"
| "wf_control (MaskFeedback es c) =
     (length es \<le> 64 \<and> length c = 2 \<and> list_all (\<lambda>e. utf8_valid (outcome_mask_id e)) es)"
| "wf_control (RegionalMaskHints c ms) =
     (length ms \<le> 32 \<and> length c = 2 \<and> list_all (\<lambda>(m, s). utf8_valid m \<and> wf_score s) ms)"
| "wf_control (MaskCatalog ms) =
     (length ms \<le> 64 \<and> list_all (\<lambda>(m, l, g). utf8_valid m \<and> utf8_valid l) ms)"
| "wf_control (MgmtRequest i m p b) = utf8_valid p"
| "wf_control (PartitionAnnounce c i s n e) = utf8_valid c"
| "wf_control (MaskStateMsg m) = wf_mask_state m"
| "wf_control (Keepalive t) = True"
| "wf_control (TelemetryRequest f) = True"
| "wf_control (TelemetryResponse l r j b) = True"
| "wf_control (TimeSync t) = True"
| "wf_control (Shutdown r) = True"
| "wf_control (HandshakeReject r) = True"
| "wf_control (ControlAck s t) = True"
| "wf_control RecordingStatusRequest = True"
| "wf_control (BootstrapDescriptorUpdate d) = True"
| "wf_control CertRejected = True"
| "wf_control (KeepaliveAck t) = True"
| "wf_control (QualityReport q r l j) = True"
| "wf_control (AdaptiveHint l) = True"
| "wf_control (FeedbackConfig t i) = True"
| "wf_control (Capabilities r f) = True"
| "wf_control (MgmtResponse i s b) = True"

section \<open>Reading back what was written\<close>

lemma len_u16_Inr: "len_u16 s = Inr n \<longleftrightarrow> length s \<le> 65535 \<and> n = to_le 2 (of_nat (length s) :: u16)"
  by (auto simp: len_u16_def)

lemma unat_len:
  "n \<le> 65535 \<Longrightarrow> unat (of_nat n :: u16) = n"
  "fits_u32 n \<Longrightarrow> unat (of_nat n :: u32) = n"
  by (simp_all add: unat_of_nat fits_u32_def)

lemma mgmt_body_fits: "n \<le> MAX_MGMT_BODY_SIZE \<Longrightarrow> fits_u32 n"
  by (simp add: MAX_MGMT_BODY_SIZE_def fits_u32_def)

lemmas arm_simps =
  len_u16_Inr len_u32_def lossy_at_def Let_def nth_append unat_len drop_numeral_add drop_numeral_add2
  drop_add_numeral   bind_eq_Inr

lemma roundtrip_fixed:
  "encode_KeyRotate k = Inr bs \<Longrightarrow> length k = 32 \<Longrightarrow> decode_KeyRotate bs = Inr (KeyRotate k)"
  "encode_Keepalive t = Inr bs \<Longrightarrow> decode_Keepalive bs = Inr (Keepalive t)"
  "encode_TelemetryRequest f = Inr bs \<Longrightarrow> decode_TelemetryRequest bs = Inr (TelemetryRequest f)"
  "encode_TelemetryResponse l r j b = Inr bs \<Longrightarrow>
     decode_TelemetryResponse bs = Inr (TelemetryResponse l r j b)"
  "encode_TimeSync t = Inr bs \<Longrightarrow> decode_TimeSync bs = Inr (TimeSync t)"
  "encode_Shutdown x = Inr bs \<Longrightarrow> decode_Shutdown bs = Inr (Shutdown x)"
  "encode_HandshakeReject x = Inr bs \<Longrightarrow> decode_HandshakeReject bs = Inr (HandshakeReject x)"
  "encode_PoolStateDigest k = Inr bs \<Longrightarrow> length k = 32 \<Longrightarrow>
     decode_PoolStateDigest bs = Inr (PoolStateDigest k)"
  "encode_ControlAck s x = Inr bs \<Longrightarrow> decode_ControlAck bs = Inr (ControlAck s x)"
  "encode_RecordingStop i = Inr bs \<Longrightarrow> length i = 16 \<Longrightarrow> decode_RecordingStop bs = Inr (RecordingStop i)"
  "encode_RecordingStatusRequest = Inr bs \<Longrightarrow>
     decode_RecordingStatusRequest bs = Inr RecordingStatusRequest"
  "encode_CertRejected = Inr bs \<Longrightarrow> decode_CertRejected bs = Inr CertRejected"
  "encode_DeviceEnrollment k d = Inr bs \<Longrightarrow> length k = 32 \<Longrightarrow> length d = 32 \<Longrightarrow>
     decode_DeviceEnrollment bs = Inr (DeviceEnrollment k d)"
  "encode_KeepaliveAck t = Inr bs \<Longrightarrow> decode_KeepaliveAck bs = Inr (KeepaliveAck t)"
  "encode_QualityReport x r q j = Inr bs \<Longrightarrow> decode_QualityReport bs = Inr (QualityReport x r q j)"
  "encode_AdaptiveHint x = Inr bs \<Longrightarrow> decode_AdaptiveHint bs = Inr (AdaptiveHint x)"
  "encode_FeedbackConfig x q = Inr bs \<Longrightarrow> decode_FeedbackConfig bs = Inr (FeedbackConfig x q)"
  "encode_Capabilities x q = Inr bs \<Longrightarrow> decode_Capabilities bs = Inr (Capabilities x q)"
  by (auto simp: encode_KeyRotate_def decode_KeyRotate_def encode_Keepalive_def decode_Keepalive_def
      encode_TelemetryRequest_def decode_TelemetryRequest_def encode_TelemetryResponse_def
      decode_TelemetryResponse_def encode_TimeSync_def decode_TimeSync_def encode_Shutdown_def
      decode_Shutdown_def encode_HandshakeReject_def decode_HandshakeReject_def
      encode_PoolStateDigest_def decode_PoolStateDigest_def encode_ControlAck_def decode_ControlAck_def
      encode_RecordingStop_def decode_RecordingStop_def decode_RecordingStatusRequest_def
      decode_CertRejected_def encode_DeviceEnrollment_def decode_DeviceEnrollment_def
      encode_KeepaliveAck_def decode_KeepaliveAck_def encode_QualityReport_def decode_QualityReport_def
      encode_AdaptiveHint_def decode_AdaptiveHint_def encode_FeedbackConfig_def
      decode_FeedbackConfig_def encode_Capabilities_def decode_Capabilities_def arm_simps)

lemma roundtrip_u16_fields:
  "encode_MaskUpdate m s = Inr bs \<Longrightarrow> length s = 64 \<Longrightarrow> decode_MaskUpdate bs = Inr (MaskUpdate m s)"
  "encode_RecordingStart t = Inr bs \<Longrightarrow> utf8_valid t \<Longrightarrow> decode_RecordingStart bs = Inr (RecordingStart t)"
  "encode_RecordingAck i t = Inr bs \<Longrightarrow> length i = 16 \<Longrightarrow> utf8_valid t \<Longrightarrow>
     decode_RecordingAck bs = Inr (RecordingAck i t)"
  "encode_RecordingFailed t = Inr bs \<Longrightarrow> utf8_valid t \<Longrightarrow>
     decode_RecordingFailed bs = Inr (RecordingFailed t)"
  "encode_BootstrapDescriptorUpdate m = Inr bs \<Longrightarrow>
     decode_BootstrapDescriptorUpdate bs = Inr (BootstrapDescriptorUpdate m)"
  "encode_MaskPreference t = Inr bs \<Longrightarrow> utf8_valid t \<Longrightarrow>
     decode_MaskPreference bs = Inr (MaskPreference t)"
  by (auto simp: encode_MaskUpdate_def decode_MaskUpdate_def encode_RecordingStart_def
      decode_RecordingStart_def encode_RecordingAck_def decode_RecordingAck_def
      encode_RecordingFailed_def decode_RecordingFailed_def encode_BootstrapDescriptorUpdate_def
      decode_BootstrapDescriptorUpdate_def encode_MaskPreference_def decode_MaskPreference_def arm_simps simp del: drop_drop)

lemma roundtrip_u32_fields:
  "encode_PoolSync p = Inr bs \<Longrightarrow> fits_u32 (length p) \<Longrightarrow> decode_PoolSync bs = Inr (PoolSync p)"
  "encode_RouteSync p = Inr bs \<Longrightarrow> fits_u32 (length p) \<Longrightarrow> decode_RouteSync bs = Inr (RouteSync p)"
  "encode_ChainForward p = Inr bs \<Longrightarrow> fits_u32 (length p) \<Longrightarrow> decode_ChainForward bs = Inr (ChainForward p)"
  "encode_SiteData p = Inr bs \<Longrightarrow> fits_u32 (length p) \<Longrightarrow> decode_SiteData bs = Inr (SiteData p)"
  "encode_ClientCert p = Inr bs \<Longrightarrow> fits_u32 (length p) \<Longrightarrow> decode_ClientCert bs = Inr (ClientCert p)"
  by (auto simp: encode_PoolSync_def decode_PoolSync_def encode_RouteSync_def decode_RouteSync_def
      encode_ChainForward_def decode_ChainForward_def encode_SiteData_def decode_SiteData_def
      encode_ClientCert_def decode_ClientCert_def arm_simps simp del: drop_drop)

lemma roundtrip_PoolBucketDigests:
  assumes "encode_PoolBucketDigests d r = Inr bs" "fits_u32 (1 + length d)"
  shows "decode_PoolBucketDigests bs = Inr (PoolBucketDigests d r)"
  using assms unat_len(2) [OF assms(2)]
  by (auto simp: encode_PoolBucketDigests_def decode_PoolBucketDigests_def arm_simps simp del: drop_drop)

lemma roundtrip_NodeEnrollment:
  assumes "encode_NodeEnrollment i p w s = Inr bs" "utf8_valid i" "length p = 32" "length s = 64"
    "fits_u32 (4 + length i + 32 + 8 + 64)"
  shows "decode_NodeEnrollment bs = Inr (NodeEnrollment i p w s)"
proof -
  have "fits_u32 (length i)" using assms(5) by (simp add: fits_u32_def)
  then have n: "unat (of_nat (length i) :: u32) = length i"
    "unat (of_nat (4 + length i + 32 + 8 + 64) :: u32) = 4 + length i + 32 + 8 + 64"
    using assms(5) by (simp_all add: unat_len del: of_nat_add)
  show ?thesis
    using assms(1-4) n
    by (auto simp: encode_NodeEnrollment_def decode_NodeEnrollment_def arm_simps simp del: of_nat_add drop_drop)
qed

lemma roundtrip_ServerHello:
  assumes "encode_ServerHello k s c = Inr bs" "length k = 32" "length s = 64"
    "case c of None \<Rightarrow> True | Some x \<Rightarrow> wire_client_config x"
  shows "decode_ServerHello bs = Inr (ServerHello k s c)"
  using assms decode_encode_wire
  by (cases c)
    (auto simp: encode_ServerHello_def decode_ServerHello_def WIRE_SIZE_def arm_simps simp del: drop_drop)

lemma roundtrip_RecordingComplete:
  assumes "encode_RecordingComplete s m c = Inr bs" "utf8_valid s" "utf8_valid m"
  shows "decode_RecordingComplete bs = Inr (RecordingComplete s m c)"
  using assms by (auto simp: encode_RecordingComplete_def decode_RecordingComplete_def arm_simps simp del: drop_drop)

lemma roundtrip_RecordingStatus:
  assumes "encode_RecordingStatus c s = Inr bs" "case s of None \<Rightarrow> True | Some t \<Rightarrow> utf8_valid t"
  shows "decode_RecordingStatus bs = Inr (RecordingStatus c s)"
  using assms
  by (cases c; cases s) (auto simp: encode_RecordingStatus_def decode_RecordingStatus_def arm_simps simp del: drop_drop)

lemma roundtrip_ClientHello:
  assumes "encode_ClientHello m = Inr bs" "utf8_valid m"
  shows "decode_ClientHello bs = Inr (ClientHello m)"
proof -
  have m: "m \<noteq> []" "length m \<le> 96" using assms(1) by (auto simp: encode_ClientHello_def split: if_splits)
  then have n: "unat (of_nat (length m) :: u8) = length m" by (simp add: unat_of_nat)
  then have "(of_nat (length m) :: u8) \<noteq> 0" "\<not> (96 :: u8) < of_nat (length m)"
    using m by (auto simp: word_less_nat_alt unat_eq_0 simp flip: unat_eq_0)
  with m n assms show ?thesis
    by (auto simp: encode_ClientHello_def decode_ClientHello_def)
qed

lemma roundtrip_Mgmt:
  "encode_MgmtRequest i x p b = Inr bs \<Longrightarrow> utf8_valid p \<Longrightarrow> decode_MgmtRequest bs = Inr (MgmtRequest i x p b)"
  "encode_MgmtResponse i st b = Inr bs \<Longrightarrow> decode_MgmtResponse bs = Inr (MgmtResponse i st b)"
  by (auto simp: encode_MgmtRequest_def decode_MgmtRequest_def encode_MgmtResponse_def
      decode_MgmtResponse_def arm_simps mgmt_body_fits not_less
      simp del: drop_drop split: if_splits)

lemma roundtrip_PartitionAnnounce:
  assumes "encode_PartitionAnnounce c i s n e = Inr bs" "utf8_valid c"
  shows "decode_PartitionAnnounce bs = Inr (PartitionAnnounce c i s n e)"
  using assms
  by (auto simp: encode_PartitionAnnounce_def decode_PartitionAnnounce_def arm_simps not_less
      simp del: drop_drop split: if_splits)

section \<open>Repeated fields\<close>

text \<open>What an entry at an offset of a longer message reads.\<close>

lemma entry_reads:
  assumes "drop off data = to_le 2 (of_nat (length s) :: u16) @ s @ rest" "off \<le> length data"
    "length s \<le> 65535"
  shows "off + 2 + length s + length rest = length data"
    "read_u16 data off = Inr (of_nat (length s))"
    "slice data (off + 2) (off + 2 + length s) = Inr s"
    "drop (off + 2 + length s) data = rest"
proof -
  have "length data - off = 2 + length s + length rest"
    using assms(1) by (metis (no_types, lifting) add.assoc length_append length_drop length_to_le)
  then show l: "off + 2 + length s + length rest = length data" using assms(2) by simp
  have d: "drop (off + k) data = drop k (to_le 2 (of_nat (length s) :: u16) @ s @ rest)" for k
    using assms(1) by (metis add.commute drop_drop)
  show "read_u16 data off = Inr (of_nat (length s))" using l assms(1) by simp
  show "slice data (off + 2) (off + 2 + length s) = Inr s" using l d [of 2] by simp
  show "drop (off + 2 + length s) data = rest" using d [of "2 + length s"] by (simp add: add.assoc)
qed

lemma number_reads:
  "drop off data = to_le 2 x @ rest \<Longrightarrow> off + 2 \<le> length data \<Longrightarrow>
     read_u16 data off = Inr (x :: u16) \<and> drop (off + 2) data = rest"
  "drop off data = to_le 4 y @ rest \<Longrightarrow> off + 4 \<le> length data \<Longrightarrow>
     read_u32 data off = Inr (y :: u32) \<and> drop (off + 4) data = rest"
  using drop_drop [of 2 off data] drop_drop [of 4 off data] by (simp_all add: add.commute)

lemma lossy_at_no_panic [no_panic]: "i \<le> j \<Longrightarrow> j \<le> length d \<Longrightarrow> lossy_at d i j \<noteq> Inl Panic"
  by (simp add: lossy_at_def)

interpretation outcomes: entry_codec encode_outcome decode_outcome "\<lambda>e. utf8_valid (outcome_mask_id e)"
proof unfold_locales
  fix e b off data post
  assume u: "utf8_valid (outcome_mask_id e)" and e: "encode_outcome e = Inr b"
    and d: "drop off data = b @ post" "off \<le> length data"
  then have n: "length (outcome_mask_id e) \<le> 65535"
    and b: "b = to_le 2 (of_nat (length (outcome_mask_id e)) :: u16) @ outcome_mask_id e @
      to_le 2 (success e) @ to_le 2 (fail e)"
    by (auto simp: encode_outcome_def bind_eq_Inr len_u16_Inr)
  note r = entry_reads [OF _ d(2) n, of "to_le 2 (success e) @ to_le 2 (fail e) @ post"]
  note s = number_reads(1) [OF r(4)]
  note f = number_reads(1) [OF conjunct2 [OF s]]
  show "decode_outcome data off = Inr (e, off + length b)"
    using r s f d(1) n u by (simp add: decode_outcome_def lossy_at_def Let_def b unat_len)
next
  show "decode_outcome data off = Inr (e, off') \<Longrightarrow> utf8_valid (outcome_mask_id e)" for data off e off'
    by (auto simp: decode_outcome_def lossy_at_def Let_def bind_eq_Inr utf8_valid_lossy split: if_splits)
  show "decode_outcome data off \<noteq> Inl Panic" for data off
    unfolding decode_outcome_def Let_def by (intro no_panic; (simp (no_asm); fail | linarith))
qed

interpretation hints: entry_codec encode_hint decode_hint "\<lambda>(m, s). utf8_valid m \<and> wf_score s"
proof unfold_locales
  fix e :: "rstring \<times> f32" and b off data post
  obtain m s where ms: "e = (m, s)" by force
  assume u: "case e of (m, s) \<Rightarrow> utf8_valid m \<and> wf_score s" and e: "encode_hint e = Inr b"
    and d: "drop off data = b @ post" "off \<le> length data"
  then have n: "length m \<le> 65535" and b: "b = to_le 2 (of_nat (length m) :: u16) @ m @ to_le 4 s"
    by (auto simp: ms encode_hint_def bind_eq_Inr len_u16_Inr)
  note r = entry_reads [OF _ d(2) n, of "to_le 4 s @ post"]
  note f = number_reads(2) [OF r(4)]
  show "decode_hint data off = Inr (e, off + length b)"
    using r f d(1) n u
    by (simp add: decode_hint_def lossy_at_def Let_def b unat_len ms wf_score_def)
next
  show "decode_hint data off = Inr (e, off') \<Longrightarrow> case e of (m, s) \<Rightarrow> utf8_valid m \<and> wf_score s"
    for data off e off'
    by (auto simp: decode_hint_def lossy_at_def Let_def bind_eq_Inr utf8_valid_lossy wf_score_def
        split: if_splits)
  show "decode_hint data off \<noteq> Inl Panic" for data off
    unfolding decode_hint_def Let_def by (intro no_panic; (simp (no_asm); fail | linarith))
qed

interpretation catalog: entry_codec encode_catalog_entry decode_catalog_entry
    "\<lambda>(m, l, g). utf8_valid m \<and> utf8_valid l"
proof unfold_locales
  fix e :: "rstring \<times> rstring \<times> bool" and b off data post
  obtain m l g where ms: "e = (m, l, g)" by (cases e)
  assume u: "case e of (m, l, g) \<Rightarrow> utf8_valid m \<and> utf8_valid l" and e: "encode_catalog_entry e = Inr b"
    and d: "drop off data = b @ post" "off \<le> length data"
  then have n: "length m \<le> 65535" "length l \<le> 65535"
    and b: "b = to_le 2 (of_nat (length m) :: u16) @ m @ to_le 2 (of_nat (length l) :: u16) @ l @
      [if g then 1 else 0]"
    by (auto simp: ms encode_catalog_entry_def bind_eq_Inr len_u16_Inr)
  note r = entry_reads [OF _ d(2) n(1), of "to_le 2 (of_nat (length l) :: u16) @ l @ (if g then 1 else 0) # post"]
  have d1: "drop off data = to_le 2 (of_nat (length m) :: u16) @ m @
      to_le 2 (of_nat (length l) :: u16) @ l @ (if g then 1 else 0) # post"
    using d(1) by (simp add: b)
  note r = r [OF d1]
  have "off + 2 + length m \<le> length data" using r(1) by simp
  note q = entry_reads [OF r(4) this n(2)]
  have g: "data ! (off + 2 + length m + 2 + length l) = (if g then 1 else 0)"
    by (rule nth_via_drop [OF q(4)])
  show "decode_catalog_entry data off = Inr (e, off + length b)"
    using r(1-3) q(1-3) g n u
    by (simp add: decode_catalog_entry_def lossy_at_def Let_def b unat_len ms)
next
  show "decode_catalog_entry data off = Inr (e, off') \<Longrightarrow> case e of (m, l, g) \<Rightarrow> utf8_valid m \<and> utf8_valid l"
    for data off e off'
    by (auto simp: decode_catalog_entry_def lossy_at_def Let_def bind_eq_Inr utf8_valid_lossy
        split: if_splits)
  show "decode_catalog_entry data off \<noteq> Inl Panic" for data off
    unfolding decode_catalog_entry_def Let_def by (intro no_panic; (simp (no_asm); fail | linarith))
qed

lemma roundtrip_MaskFeedback:
  assumes "encode_MaskFeedback es c = Inr bs" "length es \<le> 64" "length c = 2"
    "list_all (\<lambda>e. utf8_valid (outcome_mask_id e)) es"
  shows "decode_MaskFeedback bs = Inr (MaskFeedback es c)"
proof -
  obtain eb where eb: "encode_entries encode_outcome es = Inr eb"
    and bs: "bs = [0x1C, of_nat (length es)] @ eb @ c"
    using assms(1,2) by (auto simp: encode_MaskFeedback_def Let_def bind_eq_Inr)
  have n: "unat (of_nat (length es) :: u8) = length es" using assms(2) by (simp add: unat_of_nat)
  have "decode_entries decode_outcome bs 2 (length es) = Inr (es, 2 + length eb)"
    using outcomes.entries_roundtrip [OF eb assms(4), of 2 bs c] by (simp add: bs)
  with assms(2,3) n show ?thesis by (simp add: decode_MaskFeedback_def bs Let_def)
qed

lemma roundtrip_RegionalMaskHints:
  assumes "encode_RegionalMaskHints c ms = Inr bs" "length ms \<le> 32" "length c = 2"
    "list_all (\<lambda>(m, s). utf8_valid m \<and> wf_score s) ms"
  shows "decode_RegionalMaskHints bs = Inr (RegionalMaskHints c ms)"
proof -
  obtain eb where eb: "encode_entries encode_hint ms = Inr eb"
    and bs: "bs = [0x1D] @ c @ [of_nat (length ms)] @ eb"
    using assms(1,2) by (auto simp: encode_RegionalMaskHints_def Let_def bind_eq_Inr)
  have n: "unat (of_nat (length ms) :: u8) = length ms" using assms(2) by (simp add: unat_of_nat)
  have "decode_entries decode_hint bs 4 (length ms) = Inr (ms, 4 + length eb)"
    using hints.entries_roundtrip [OF eb assms(4), of 4 bs "[]"] assms(3) by (simp add: bs)
  with assms(2,3) n show ?thesis by (simp add: decode_RegionalMaskHints_def bs Let_def nth_append)
qed

lemma roundtrip_MaskCatalog:
  assumes "encode_MaskCatalog ms = Inr bs" "length ms \<le> 64"
    "list_all (\<lambda>(m, l, g). utf8_valid m \<and> utf8_valid l) ms"
  shows "decode_MaskCatalog bs = Inr (MaskCatalog ms)"
proof -
  obtain eb where eb: "encode_entries encode_catalog_entry ms = Inr eb"
    and bs: "bs = [0x1F, of_nat (length ms)] @ eb"
    using assms(1,2) by (auto simp: encode_MaskCatalog_def Let_def bind_eq_Inr)
  have n: "unat (of_nat (length ms) :: u8) = length ms" using assms(2) by (simp add: unat_of_nat)
  have "decode_entries decode_catalog_entry bs 2 (length ms) = Inr (ms, 2 + length eb)"
    using catalog.entries_roundtrip [OF eb assms(3), of 2 bs "[]"] by (simp add: bs)
  with assms(2) n show ?thesis by (simp add: decode_MaskCatalog_def bs Let_def)
qed

section \<open>Dispatch\<close>

fun subtype_of :: "ControlPayload \<Rightarrow> ControlSubtype" where
  "subtype_of (MaskStateMsg state) = ST_MaskState"
| "subtype_of (KeyRotate k) = ST_KeyRotate"
| "subtype_of (MaskUpdate m s) = ST_MaskUpdate"
| "subtype_of (Keepalive t) = ST_Keepalive"
| "subtype_of (TelemetryRequest f) = ST_TelemetryRequest"
| "subtype_of (TelemetryResponse l r j b) = ST_TelemetryResponse"
| "subtype_of (TimeSync t) = ST_TimeSync"
| "subtype_of (Shutdown r) = ST_Shutdown"
| "subtype_of (HandshakeReject r) = ST_HandshakeReject"
| "subtype_of (PoolStateDigest d) = ST_PoolStateDigest"
| "subtype_of (PoolBucketDigests d r) = ST_PoolBucketDigests"
| "subtype_of (NodeEnrollment i p w s) = ST_NodeEnrollment"
| "subtype_of (ControlAck s t) = ST_ControlAck"
| "subtype_of (ServerHello k s c) = ST_ServerHello"
| "subtype_of (RecordingStart s) = ST_RecordingStart"
| "subtype_of (RecordingAck i s) = ST_RecordingAck"
| "subtype_of (RecordingStop i) = ST_RecordingStop"
| "subtype_of (RecordingComplete s m c) = ST_RecordingComplete"
| "subtype_of (RecordingFailed r) = ST_RecordingFailed"
| "subtype_of RecordingStatusRequest = ST_RecordingStatusRequest"
| "subtype_of (RecordingStatus c s) = ST_RecordingStatus"
| "subtype_of (BootstrapDescriptorUpdate d) = ST_BootstrapDescriptorUpdate"
| "subtype_of (PoolSync j) = ST_PoolSync"
| "subtype_of (RouteSync j) = ST_RouteSync"
| "subtype_of (ChainForward p) = ST_ChainForward"
| "subtype_of (ClientCert c) = ST_ClientCert"
| "subtype_of CertRejected = ST_CertRejected"
| "subtype_of (DeviceEnrollment p d) = ST_DeviceEnrollment"
| "subtype_of (KeepaliveAck t) = ST_KeepaliveAck"
| "subtype_of (QualityReport q r l j) = ST_QualityReport"
| "subtype_of (AdaptiveHint l) = ST_AdaptiveHint"
| "subtype_of (ClientHello m) = ST_ClientHello"
| "subtype_of (MaskPreference m) = ST_MaskPreference"
| "subtype_of (MaskFeedback es c) = ST_MaskFeedback"
| "subtype_of (RegionalMaskHints c ms) = ST_RegionalMaskHints"
| "subtype_of (FeedbackConfig t i) = ST_FeedbackConfig"
| "subtype_of (MaskCatalog ms) = ST_MaskCatalog"
| "subtype_of (Capabilities r f) = ST_Capabilities"
| "subtype_of (MgmtRequest i m p b) = ST_MgmtRequest"
| "subtype_of (MgmtResponse i s b) = ST_MgmtResponse"
| "subtype_of (PartitionAnnounce c i s n e) = ST_PartitionAnnounce"
| "subtype_of (SiteData p) = ST_SiteData"

lemma encode_head: "encode p = Inr bs \<Longrightarrow> \<exists>r. bs = ControlSubtype_as_u8 (subtype_of p) # r"
  by (cases p)
    (auto simp: encode_control_def encode_KeyRotate_def encode_MaskUpdate_def encode_Keepalive_def
      encode_TelemetryRequest_def encode_TelemetryResponse_def encode_TimeSync_def encode_Shutdown_def
      encode_HandshakeReject_def encode_PoolStateDigest_def encode_PoolBucketDigests_def
      encode_NodeEnrollment_def encode_ControlAck_def encode_ServerHello_def encode_RecordingStart_def
      encode_RecordingAck_def encode_RecordingStop_def encode_RecordingComplete_def
      encode_RecordingFailed_def encode_RecordingStatusRequest_def encode_RecordingStatus_def
      encode_BootstrapDescriptorUpdate_def encode_PoolSync_def encode_RouteSync_def
      encode_ChainForward_def encode_ClientCert_def encode_CertRejected_def
      encode_DeviceEnrollment_def encode_KeepaliveAck_def encode_QualityReport_def
      encode_AdaptiveHint_def encode_ClientHello_def encode_MaskPreference_def encode_MaskFeedback_def
      encode_RegionalMaskHints_def encode_FeedbackConfig_def encode_MaskCatalog_def
      encode_Capabilities_def encode_MgmtRequest_def encode_MgmtResponse_def
      encode_PartitionAnnounce_def encode_SiteData_def bind_eq_Inr Let_def
      split: if_splits option.splits prod.splits)

lemma decode_by_subtype: "decode (ControlSubtype_as_u8 t # r) = decode_subtype t (ControlSubtype_as_u8 t # r)"
  by (simp add: decode_def)

lemmas roundtrip_arms =
  roundtrip_fixed roundtrip_u16_fields roundtrip_u32_fields roundtrip_PoolBucketDigests
  roundtrip_NodeEnrollment roundtrip_ServerHello roundtrip_RecordingComplete roundtrip_RecordingStatus
  roundtrip_ClientHello roundtrip_Mgmt roundtrip_PartitionAnnounce roundtrip_MaskFeedback
  roundtrip_RegionalMaskHints roundtrip_MaskCatalog

lemma roundtrip_subtype:
  "wf_control p \<Longrightarrow> encode p = Inr bs \<Longrightarrow> decode_subtype (subtype_of p) bs = Inr p"
  by (cases p) (simp_all add: roundtrip_arms decode_MaskState_def mask_state_roundtrip)

lemma control_decode_encode:
  assumes "wf_control p" "encode p = Inr bs"
  shows "decode bs = Inr p"
proof -
  obtain r where "bs = ControlSubtype_as_u8 (subtype_of p) # r" using encode_head [OF assms(2)] by blast
  then show ?thesis using roundtrip_subtype [OF assms] by (simp add: decode_by_subtype)
qed

section \<open>No panic, and what is decoded is well formed\<close>

lemmas decode_arm_defs =
  decode_KeyRotate_def decode_MaskUpdate_def decode_Keepalive_def decode_TelemetryRequest_def
  decode_TelemetryResponse_def decode_TimeSync_def decode_Shutdown_def decode_HandshakeReject_def
  decode_PoolStateDigest_def decode_PoolBucketDigests_def decode_NodeEnrollment_def
  decode_ControlAck_def decode_ServerHello_def decode_RecordingStart_def decode_RecordingAck_def
  decode_RecordingStop_def decode_RecordingComplete_def decode_RecordingFailed_def
  decode_RecordingStatusRequest_def decode_RecordingStatus_def
  decode_BootstrapDescriptorUpdate_def decode_PoolSync_def decode_RouteSync_def
  decode_ChainForward_def decode_SiteData_def decode_ClientCert_def decode_CertRejected_def
  decode_DeviceEnrollment_def decode_KeepaliveAck_def decode_QualityReport_def
  decode_AdaptiveHint_def decode_ClientHello_def decode_MaskPreference_def decode_MaskFeedback_def
  decode_RegionalMaskHints_def decode_FeedbackConfig_def decode_MaskCatalog_def
  decode_Capabilities_def decode_MgmtRequest_def decode_MgmtResponse_def
  decode_PartitionAnnounce_def decode_MaskState_def

lemmas loops_no_panic [no_panic] =
  outcomes.entries_no_panic hints.entries_no_panic catalog.entries_no_panic

lemma decode_subtype_no_panic [no_panic]: "decode_subtype t d \<noteq> Inl Panic"
  by (cases t; simp only: decode_subtype.simps; unfold decode_arm_defs Let_def WIRE_SIZE_def;
      intro no_panic; (simp (no_asm); fail | linarith | arith | simp))

lemma decode_no_panic [no_panic]: "decode d \<noteq> Inl Panic"
  unfolding decode_def by (intro no_panic; simp)










section \<open>Interfaces\<close>

interpretation control: wire_codec encode decode wf_control
  by unfold_locales (rule control_decode_encode)

interpretation control_parser: total_parser decode
  by unfold_locales (rule decode_no_panic)

section \<open>Properties\<close>

definition sample_control :: ControlPayload where
  "sample_control =
     MaskFeedback [\<lparr>outcome_mask_id = ascii ''quic'', success = 7, fail = 300\<rparr>,
                   \<lparr>outcome_mask_id = ascii ''rtc'', success = 0, fail = 1\<rparr>] (ascii ''DE'')"

definition sample_control_bytes :: bytes where
  "sample_control_bytes =
     [0x1C, 2, 4, 0, 113, 117, 105, 99, 7, 0, 44, 1, 3, 0, 114, 116, 99, 0, 0, 1, 0, 68, 69]"

lemma sample_control_encodes: "wf_control sample_control" "encode sample_control = Inr sample_control_bytes"
  by code_simp+

text \<open>
  C1: every well-formed control message of the 42 kinds survives the wire: what \<open>encode\<close> produces,
  \<open>decode\<close> turns back into the same message.  Well-formed means what the Rust types and the
  senders guarantee: arrays of their declared length, strings in UTF-8, at most 64 (or 32)
  repeated entries, and byte fields below 4 GiB.
\<close>

theorem control_roundtrip:
  assumes "wf_control p" "encode p = Inr bs"
  shows "decode bs = Inr p"
  using assms by (rule control.roundtrip)

theorem control_roundtrip_witness: "decode sample_control_bytes = Inr sample_control"
  by (rule control_roundtrip [OF sample_control_encodes])

text \<open>
  C3: no control datagram, however malformed, makes the decoder panic: it returns a message or one
  of the declared errors.
\<close>

theorem control_decode_total:
  "(\<exists>p. decode d = Inr p) \<or> (\<exists>e. e \<noteq> Panic \<and> decode d = Inl e)"
  by (rule control_parser.decides)




end
