(* ===== verification/Fec.thy ===== *)
theory Fec
  imports Framing "HOL-Library.Product_Lexorder" "HOL-Library.Multiset"
begin

text \<open>
  Forward error correction of \<open>aivpn_common::fec\<close>: the XOR encoder with its repair packet,
  and the receiver that recovers one lost packet of a group and delivers every packet of a
  group at most once.  \<open>Instant::now\<close> is an argument of the receiver's operations; an
  operation returns its result together with the new state, because a refused packet may
  still have expired old groups.
\<close>

section \<open>Encoder and repair packets\<close>

record FecEncoder =
  fe_xor_buf :: bytes
  fe_max_len :: nat
  fe_count :: u8
  fe_group_size :: u8
  fe_group_seq :: u16

record FecRepair =
  rp_group_seq :: u16
  rp_group_size :: u8
  rp_xor_data :: bytes

definition FecEncoder_new :: "u8 \<Rightarrow> nat \<Rightarrow> FecEncoder result" where
  "FecEncoder_new group_size max_payload =
     (if group_size > 0
      then Inr \<lparr>fe_xor_buf = replicate max_payload 0, fe_max_len = 0, fe_count = 0,
                fe_group_size = group_size, fe_group_seq = 0\<rparr>
      else Inl Panic)"

text \<open>\<open>for (a, b) in buf.iter_mut().zip(data) { *a ^= b }\<close>\<close>

fun xor_zip :: "bytes \<Rightarrow> bytes \<Rightarrow> bytes" where
  "xor_zip (a # as) (b # bs) = (a XOR b) # xor_zip as bs"
| "xor_zip as [] = as"
| "xor_zip [] bs = []"

definition FecEncoder_feed :: "FecEncoder \<Rightarrow> bytes \<Rightarrow> FecRepair option result \<times> FecEncoder" where
  "FecEncoder_feed e payload =
     (let len = min (length payload) (length (fe_xor_buf e));
          e = e \<lparr>fe_xor_buf := xor_zip (take len (fe_xor_buf e)) (take len payload) @
                             drop len (fe_xor_buf e)\<rparr>;
          e = (if len > fe_max_len e then e \<lparr>fe_max_len := len\<rparr> else e);
          e = e \<lparr>fe_count := fe_count e + 1\<rparr>
      in if fe_count e \<ge> fe_group_size e
         then (case slice (fe_xor_buf e) 0 (fe_max_len e) of
                 Inl err \<Rightarrow> (Inl err, e)
               | Inr xor_data \<Rightarrow>
                   (Inr (Some \<lparr>rp_group_seq = fe_group_seq e, rp_group_size = fe_group_size e,
                               rp_xor_data = xor_data\<rparr>),
                    e \<lparr>fe_xor_buf := replicate (length (fe_xor_buf e)) 0, fe_max_len := 0,
                       fe_count := 0, fe_group_seq := fe_group_seq e + 1\<rparr>))
         else (Inr None, e))"

definition FecEncoder_reset :: "FecEncoder \<Rightarrow> FecEncoder" where
  "FecEncoder_reset e =
     e \<lparr>fe_xor_buf := replicate (length (fe_xor_buf e)) 0, fe_max_len := 0, fe_count := 0\<rparr>"

definition FecRepair_encode :: "FecRepair \<Rightarrow> bytes" where
  "FecRepair_encode r = to_le 2 (rp_group_seq r) @ [rp_group_size r] @ rp_xor_data r"

definition FecRepair_decode :: "bytes \<Rightarrow> FecRepair option result" where
  "FecRepair_decode data =
     (if length data < 3 then Inr None
      else bind (idx data 2) (\<lambda>n.
        if n = 0 then Inr None
        else bind (read_u16 data 0) (\<lambda>s. bind (slice data 3 (length data)) (\<lambda>x.
          Inr (Some \<lparr>rp_group_seq = s, rp_group_size = n, rp_xor_data = x\<rparr>)))))"

text \<open>\<open>xs.get(i).copied().unwrap_or(0)\<close>\<close>

definition get0 :: "bytes \<Rightarrow> nat \<Rightarrow> u8" where
  "get0 xs i = (if i < length xs then xs ! i else 0)"

definition FecRepair_recover :: "FecRepair \<Rightarrow> bytes \<Rightarrow> bytes" where
  "FecRepair_recover r received_xor =
     (let len = max (length (rp_xor_data r)) (length received_xor) in
      map (\<lambda>i. get0 (rp_xor_data r) i XOR get0 received_xor i) [0..<len])"

record FecMetadata =
  md_group_seq :: u16
  md_group_size :: u8
  md_index :: u8

section \<open>Receiver state\<close>

definition MAX_PENDING_GROUPS :: nat where "MAX_PENDING_GROUPS = 8"
definition COMPLETED_GROUPS :: nat where "COMPLETED_GROUPS = 512"
definition RETIRED_GROUPS :: nat where "RETIRED_GROUPS = 512"
definition PENDING_TTL :: duration where "PENDING_TTL = from_secs 10"

record FecRxResult =
  accepted :: bool
  recovered :: "bytes option"
  complete :: bool

record StoredRepair =
  sr_data :: bytes
  sr_len :: nat

record PendingGroup =
  pg_group_size :: u8
  pg_xor_buf :: bytes
  pg_xor_len :: nat
  pg_seen :: "u64 list"
  pg_count :: u8
  pg_repair :: "StoredRepair option"
  pg_created :: instant
  pg_ticket :: u64

record RetiredGroup =
  rg_group_size :: u8
  rg_seen :: "u64 list"

record FecReceiver =
  fr_pending :: "(u64, PendingGroup) hmap"
  fr_completed :: "u64 list"
  fr_completed_set :: "u64 set"
  fr_retired :: "(u64, RetiredGroup) hmap"
  fr_retired_order :: "u64 list"
  fr_highest_group :: "u64 option"
  fr_next_ticket :: u64

definition FecReceiver_default :: FecReceiver where
  "FecReceiver_default =
     \<lparr>fr_pending = [], fr_completed = [], fr_completed_set = {}, fr_retired = [],
      fr_retired_order = [], fr_highest_group = None, fr_next_ticket = 0\<rparr>"

section \<open>Index bitmaps and pending groups\<close>

definition bitmap_seen :: "u64 list \<Rightarrow> u8 \<Rightarrow> bool" where
  "bitmap_seen seen index =
     (let index = unat index in (seen ! (index div 64)) AND push_bit (index mod 64) 1 \<noteq> 0)"

definition bitmap_mark :: "u64 list \<Rightarrow> u8 \<Rightarrow> u64 list" where
  "bitmap_mark seen index =
     (let index = unat index in
      seen[index div 64 := (seen ! (index div 64)) OR push_bit (index mod 64) 1])"

definition PendingGroup_absorb :: "PendingGroup \<Rightarrow> bytes \<Rightarrow> PendingGroup" where
  "PendingGroup_absorb g payload =
     g \<lparr>pg_xor_buf := xor_zip (pg_xor_buf g) payload,
        pg_xor_len := max (pg_xor_len g) (length payload)\<rparr>"

definition store_repair :: "PendingGroup \<Rightarrow> bytes \<Rightarrow> PendingGroup" where
  "store_repair g xor_data =
     g \<lparr>pg_repair := Some \<lparr>sr_data = xor_data @ replicate (MAX_PACKET_SIZE - length xor_data) 0,
                          sr_len = length xor_data\<rparr>\<rparr>"

definition missing_packet :: "PendingGroup \<Rightarrow> bytes option" where
  "missing_packet g =
     (case pg_repair g of
        None \<Rightarrow> None
      | Some repair \<Rightarrow>
          (let len = max (sr_len repair) (pg_xor_len g) in
           Some (map (\<lambda>i. sr_data repair ! i XOR pg_xor_buf g ! i) [0..<len])))"

section \<open>Receiver operations\<close>

definition ignored :: FecRxResult where
  "ignored = \<lparr>accepted = False, recovered = None, complete = False\<rparr>"

definition validate_member :: "FecMetadata \<Rightarrow> nat \<Rightarrow> unit result" where
  "validate_member meta len =
     (if md_group_size meta = 0 \<or> md_index meta \<ge> md_group_size meta
      then Inl (InvalidPacket ''Invalid FEC metadata'')
      else if len = 0 \<or> len > MAX_PACKET_SIZE
      then Inl (InvalidPacket ''FEC data exceeds packet budget'')
      else Inr ())"

text \<open>\<open>u64\<close> saturating arithmetic.\<close>

definition saturating_add64 :: "u64 \<Rightarrow> u64 \<Rightarrow> u64" where
  "saturating_add64 a b = (if unat a + unat b < 2 ^ 64 then a + b else - 1)"

definition saturating_sub64 :: "u64 \<Rightarrow> u64 \<Rightarrow> u64" where
  "saturating_sub64 a b = (if b \<le> a then a - b else 0)"

definition position :: "FecReceiver \<Rightarrow> u16 \<Rightarrow> u64" where
  "position r seq =
     (case fr_highest_group r of
        None \<Rightarrow> 65536 + ucast seq
      | Some highest \<Rightarrow>
          (let distance = seq - (ucast highest :: u16) in
           if distance < 0x8000 then saturating_add64 highest (ucast distance)
           else saturating_sub64 highest (ucast (0 - distance :: u16))))"

definition advance :: "FecReceiver \<Rightarrow> u16 \<Rightarrow> u64 \<times> FecReceiver" where
  "advance r seq =
     (let pos = position r seq;
          base = (case fr_highest_group r of None \<Rightarrow> pos | Some h \<Rightarrow> h)
      in (pos, r \<lparr>fr_highest_group := Some (max base pos)\<rparr>))"

text \<open>
  \<open>remember_incomplete\<close> with its \<open>while\<close> loop, which drops the oldest retired numbers
  until at most \<open>RETIRED_GROUPS\<close> are left.
\<close>

fun trim_retired :: "u64 list \<Rightarrow> (u64, RetiredGroup) hmap \<Rightarrow> u64 list \<times> (u64, RetiredGroup) hmap" where
  "trim_retired [] retired = ([], retired)"
| "trim_retired (old # order) retired =
     (if length (old # order) > RETIRED_GROUPS then trim_retired order (AList.delete old retired)
      else (old # order, retired))"

definition remember_incomplete :: "FecReceiver \<Rightarrow> u64 \<Rightarrow> u8 \<Rightarrow> u64 list \<Rightarrow> FecReceiver" where
  "remember_incomplete r seq group_size seen =
     (case map_of (fr_retired r) seq of
        Some existing \<Rightarrow>
          (if rg_group_size existing = group_size
           then r \<lparr>fr_retired := AList.update seq
                     (existing \<lparr>rg_seen := map2 (OR) (rg_seen existing) seen\<rparr>) (fr_retired r)\<rparr>
           else r)
      | None \<Rightarrow>
          (let retired = AList.update seq \<lparr>rg_group_size = group_size, rg_seen = seen\<rparr> (fr_retired r);
               (order, retired) = trim_retired (fr_retired_order r @ [seq]) retired
           in r \<lparr>fr_retired := retired, fr_retired_order := order\<rparr>))"

definition retire :: "FecReceiver \<Rightarrow> u64 \<Rightarrow> FecReceiver" where
  "retire r seq =
     (case map_of (fr_pending r) seq of
        None \<Rightarrow> r
      | Some grp \<Rightarrow>
          remember_incomplete (r \<lparr>fr_pending := AList.delete seq (fr_pending r)\<rparr>) seq
            (pg_group_size grp) (pg_seen grp))"

definition sweep :: "FecReceiver \<Rightarrow> instant \<Rightarrow> FecReceiver" where
  "sweep r now =
     (let expired = map fst (filter (\<lambda>(_, grp). now - pg_created grp \<ge> PENDING_TTL) (fr_pending r))
      in foldl retire r expired)"

definition complete_group :: "FecReceiver \<Rightarrow> u64 \<Rightarrow> FecReceiver" where
  "complete_group r seq =
     (let r = r \<lparr>fr_pending := AList.delete seq (fr_pending r)\<rparr> in
      if seq \<notin> fr_completed_set r
      then
        (let r = r \<lparr>fr_completed_set := insert seq (fr_completed_set r),
                    fr_completed := fr_completed r @ [seq]\<rparr>
         in if length (fr_completed r) > COMPLETED_GROUPS
            then (case fr_completed r of
                    [] \<Rightarrow> r
                  | old # rest \<Rightarrow>
                      r \<lparr>fr_completed := rest, fr_completed_set := fr_completed_set r - {old}\<rparr>)
            else r)
      else r)"

definition accept_retired ::
  "FecReceiver \<Rightarrow> u64 \<Rightarrow> u8 \<Rightarrow> u8 \<Rightarrow> FecRxResult option result \<times> FecReceiver" where
  "accept_retired r pos group_size index =
     (case map_of (fr_retired r) pos of
        None \<Rightarrow> (Inr None, r)
      | Some grp \<Rightarrow>
          (if rg_group_size grp \<noteq> group_size
           then (Inl (InvalidPacket ''Conflicting FEC group size''), r)
           else if bitmap_seen (rg_seen grp) index then (Inr (Some ignored), r)
           else (Inr (Some \<lparr>accepted = True, recovered = None, complete = False\<rparr>),
                 r \<lparr>fr_retired := AList.update pos
                      (grp \<lparr>rg_seen := bitmap_mark (rg_seen grp) index\<rparr>) (fr_retired r)\<rparr>)))"

definition fresh_group :: "u8 \<Rightarrow> instant \<Rightarrow> u64 \<Rightarrow> PendingGroup" where
  "fresh_group group_size now ticket =
     \<lparr>pg_group_size = group_size, pg_xor_buf = replicate MAX_PACKET_SIZE 0, pg_xor_len = 0,
      pg_seen = [0, 0, 0, 0], pg_count = 0, pg_repair = None, pg_created = now, pg_ticket = ticket\<rparr>"

definition ensure_group :: "FecReceiver \<Rightarrow> u64 \<Rightarrow> u8 \<Rightarrow> instant \<Rightarrow> error + PendingGroup \<times> FecReceiver" where
  "ensure_group r seq group_size now =
     (case map_of (fr_pending r) seq of
        Some grp \<Rightarrow>
          (if pg_group_size grp \<noteq> group_size
           then Inl (InvalidPacket ''Conflicting FEC group size'')
           else Inr (grp, r))
      | None \<Rightarrow>
          (let r = (if length (fr_pending r) \<ge> MAX_PENDING_GROUPS
                    then (case min_by_key (\<lambda>(_, g). (pg_created g, pg_ticket g)) (fr_pending r) of
                            None \<Rightarrow> r
                          | Some (oldest, _) \<Rightarrow> retire r oldest)
                    else r);
               ticket = fr_next_ticket r;
               grp = fresh_group group_size now ticket
           in Inr (grp, r \<lparr>fr_next_ticket := fr_next_ticket r + 1,
                            fr_pending := AList.update seq grp (fr_pending r)\<rparr>)))"

definition finish :: "FecReceiver \<Rightarrow> u64 \<Rightarrow> bool \<Rightarrow> FecRxResult \<times> FecReceiver" where
  "finish r seq acc =
     (case map_of (fr_pending r) seq of
        None \<Rightarrow> (ignored, r)
      | Some grp \<Rightarrow>
          (let repair_ready = (pg_group_size grp \<ge> 1 \<and> pg_count grp = pg_group_size grp - 1 \<and>
                               pg_repair grp \<noteq> None);
               all_here = (pg_count grp = pg_group_size grp)
           in if all_here
              then (\<lparr>accepted = acc, recovered = None, complete = True\<rparr>, complete_group r seq)
              else if repair_ready
              then (\<lparr>accepted = acc, recovered = missing_packet grp, complete = True\<rparr>,
                    complete_group r seq)
              else (\<lparr>accepted = acc, recovered = None, complete = False\<rparr>, r)))"

definition FecReceiver_record ::
  "FecReceiver \<Rightarrow> FecMetadata \<Rightarrow> bytes \<Rightarrow> instant \<Rightarrow> FecRxResult result \<times> FecReceiver" where
  "FecReceiver_record r meta payload now =
     (case validate_member meta (length payload) of
        Inl e \<Rightarrow> (Inl e, r)
      | Inr _ \<Rightarrow>
          (let r = sweep r now; (pos, r) = advance r (md_group_seq meta) in
           if pos \<in> fr_completed_set r then (Inr ignored, r)
           else case accept_retired r pos (md_group_size meta) (md_index meta) of
             (Inl e, r) \<Rightarrow> (Inl e, r)
           | (Inr (Some result), r) \<Rightarrow> (Inr result, r)
           | (Inr None, r) \<Rightarrow>
               (case ensure_group r pos (md_group_size meta) now of
                  Inl e \<Rightarrow> (Inl e, r)
                | Inr (grp, r) \<Rightarrow>
                    (if bitmap_seen (pg_seen grp) (md_index meta) then (Inr ignored, r)
                     else if (case pg_repair grp of
                                None \<Rightarrow> False | Some repair \<Rightarrow> sr_len repair < length payload)
                     then (Inl (InvalidPacket ''FEC data exceeds repair length''), r)
                     else
                       (let grp = PendingGroup_absorb grp payload;
                            grp = grp \<lparr>pg_seen := bitmap_mark (pg_seen grp) (md_index meta)\<rparr>;
                            grp = grp \<lparr>pg_count := (if pg_count grp = - 1 then - 1
                                                       else pg_count grp + 1)\<rparr>;
                            (res, r) = finish (r \<lparr>fr_pending := AList.update pos grp (fr_pending r)\<rparr>)
                                         pos True
                        in (Inr res, r))))))"

definition FecReceiver_repair ::
  "FecReceiver \<Rightarrow> FecRepair \<Rightarrow> instant \<Rightarrow> FecRxResult result \<times> FecReceiver" where
  "FecReceiver_repair r rep now =
     (if rp_group_size rep = 0 then (Inl (InvalidPacket ''Invalid FEC group size''), r)
      else if rp_xor_data rep = [] \<or> length (rp_xor_data rep) > MAX_PACKET_SIZE
      then (Inl (InvalidPacket ''FEC repair exceeds packet budget''), r)
      else
        (let r = sweep r now; (pos, r) = advance r (rp_group_seq rep) in
         if pos \<in> fr_completed_set r then (Inr ignored, r)
         else case map_of (fr_retired r) pos of
           Some g \<Rightarrow>
             (if rg_group_size g \<noteq> rp_group_size rep
              then (Inl (InvalidPacket ''Conflicting FEC group size''), r)
              else (Inr ignored, r))
         | None \<Rightarrow>
             (case ensure_group r pos (rp_group_size rep) now of
                Inl e \<Rightarrow> (Inl e, r)
              | Inr (grp, r) \<Rightarrow>
                  (case pg_repair grp of
                     Some existing \<Rightarrow>
                       (if \<not> (sr_len existing = length (rp_xor_data rep) \<and>
                              take (sr_len existing) (sr_data existing) = rp_xor_data rep)
                        then (Inl (InvalidPacket ''Conflicting FEC repair''), r)
                        else (Inr ignored, r))
                   | None \<Rightarrow>
                       (if length (rp_xor_data rep) < pg_xor_len grp
                        then (Inl (InvalidPacket ''FEC repair is shorter than data''), r)
                        else
                          (let grp = store_repair grp (rp_xor_data rep);
                               (res, r) = finish (r \<lparr>fr_pending := AList.update pos grp (fr_pending r)\<rparr>)
                                            pos True
                           in (Inr res, r)))))))"

definition is_duplicate :: "FecReceiver \<Rightarrow> FecMetadata \<Rightarrow> bool" where
  "is_duplicate r meta =
     (let pos = position r (md_group_seq meta) in
      if pos \<in> fr_completed_set r then True
      else case map_of (fr_pending r) pos of
        Some grp \<Rightarrow> pg_group_size grp = md_group_size meta \<and> bitmap_seen (pg_seen grp) (md_index meta)
      | None \<Rightarrow>
          (case map_of (fr_retired r) pos of
             None \<Rightarrow> False
           | Some grp \<Rightarrow>
               rg_group_size grp = md_group_size meta \<and> bitmap_seen (rg_seen grp) (md_index meta)))"

section \<open>XOR\<close>

text \<open>The reference: the XOR of byte \<open>i\<close> of a list of packets, each padded with zeros.\<close>

definition xor_at :: "bytes list \<Rightarrow> nat \<Rightarrow> u8" where
  "xor_at ps i = foldr (\<lambda>p a. get0 p i XOR a) ps 0"

definition max_length :: "bytes list \<Rightarrow> nat" where
  "max_length ps = foldr (\<lambda>p. max (length p)) ps 0"

definition pad_to :: "nat \<Rightarrow> bytes \<Rightarrow> bytes" where
  "pad_to n p = map (get0 p) [0..<n]"

lemma xor_at_simps [simp]:
  "xor_at [] i = 0"
  "xor_at (p # ps) i = get0 p i XOR xor_at ps i"
  by (simp_all add: xor_at_def)

lemma xor_at_append [simp]: "xor_at (ps @ qs) i = xor_at ps i XOR xor_at qs i"
  by (induction ps) (simp_all add: xor.assoc)

lemma max_length_simps [simp]:
  "max_length [] = 0"
  "max_length (p # ps) = max (length p) (max_length ps)"
  by (simp_all add: max_length_def)

lemma max_length_append [simp]: "max_length (ps @ qs) = max (max_length ps) (max_length qs)"
  by (induction ps) (auto simp: max.assoc)

lemma max_length_bound: "(\<And>p. p \<in> set ps \<Longrightarrow> length p \<le> n) \<Longrightarrow> max_length ps \<le> n"
  by (induction ps) auto

lemma max_length_member: "p \<in> set ps \<Longrightarrow> length p \<le> max_length ps"
  by (induction ps) (auto simp: le_max_iff_disj)

lemma max_length_mset: "mset ps = mset qs \<Longrightarrow> max_length ps = max_length qs"
proof -
  assume eq: "mset ps = mset qs"
  then have s: "set ps = set qs" by (metis set_mset_mset)
  show ?thesis
    using max_length_bound [of ps "max_length qs"] max_length_bound [of qs "max_length ps"]
      max_length_member s by (metis le_antisym)
qed

lemma get0_beyond: "length p \<le> i \<Longrightarrow> get0 p i = 0"
  by (simp add: get0_def)

lemma xor_at_beyond: "max_length ps \<le> i \<Longrightarrow> xor_at ps i = 0"
  by (induction ps) (auto simp: get0_beyond)

lemma xor_at_mset:
  assumes "mset ps = mset qs"
  shows "xor_at ps i = xor_at qs i"
proof -
  let ?f = "\<lambda>p a. get0 p i XOR a"
  have f: "xor_at ps i = fold ?f ps 0" for ps
    unfolding xor_at_def by (subst foldr_fold) (auto simp: fun_eq_iff xor.left_commute)
  have "fold ?f ps = fold ?f qs"
    by (rule fold_multiset_equiv) (auto simp: fun_eq_iff xor.left_commute assms)
  then show ?thesis by (simp add: f)
qed

lemma length_xor_zip [simp]: "length (xor_zip as bs) = length as"
  by (induction as bs rule: xor_zip.induct) auto

lemma nth_xor_zip: "i < length as \<Longrightarrow> xor_zip as bs ! i = as ! i XOR get0 bs i"
  by (induction as bs arbitrary: i rule: xor_zip.induct) (auto simp: get0_def nth_Cons split: nat.splits)

section \<open>The encoder builds the XOR of its group\<close>

text \<open>The encoder has taken the packets \<open>ps\<close> of its current group.\<close>

definition encoder_holds :: "FecEncoder \<Rightarrow> bytes list \<Rightarrow> bool" where
  "encoder_holds e ps \<longleftrightarrow>
     (\<forall>i < length (fe_xor_buf e). fe_xor_buf e ! i = xor_at ps i) \<and>
     fe_max_len e = max_length ps \<and> max_length ps \<le> length (fe_xor_buf e) \<and>
     unat (fe_count e) = length ps \<and> length ps < unat (fe_group_size e)"

text \<open>The group's repair packet: the XOR of all its packets, as long as the longest.\<close>

definition group_repair :: "u16 \<Rightarrow> bytes list \<Rightarrow> FecRepair" where
  "group_repair seq ps =
     \<lparr>rp_group_seq = seq, rp_group_size = of_nat (length ps),
      rp_xor_data = map (xor_at ps) [0..<max_length ps]\<rparr>"

fun feed_all :: "FecEncoder \<Rightarrow> bytes list \<Rightarrow> FecRepair option result list \<times> FecEncoder" where
  "feed_all e [] = ([], e)"
| "feed_all e (p # ps) =
     (let (res, e) = FecEncoder_feed e p; (rs, e) = feed_all e ps in (res # rs, e))"

lemma xor_at_none [simp]: "map (xor_at []) [0..<n] = replicate n 0"
  by (rule nth_equalityI) auto

lemma encoder_new_holds:
  "FecEncoder_new gs n = Inr e \<Longrightarrow> encoder_holds e []"
  by (auto simp: FecEncoder_new_def encoder_holds_def word_less_nat_alt split: if_splits)

lemma xor_buffer:
  assumes "\<forall>i < length b. b ! i = xor_at ps i" "length p \<le> length b"
  shows "xor_zip (take (length p) b) p @ drop (length p) b = map (xor_at (ps @ [p])) [0..<length b]"
  using assms by (intro nth_equalityI) (auto simp: nth_append nth_xor_zip get0_def)

lemma feed_step:
  assumes "encoder_holds e ps" "length p \<le> length (fe_xor_buf e)"
  shows "\<exists>e'. FecEncoder_feed e p =
      (if Suc (length ps) < unat (fe_group_size e) then (Inr None, e')
       else (Inr (Some (group_repair (fe_group_seq e) (ps @ [p]))), e')) \<and>
    encoder_holds e' (if Suc (length ps) < unat (fe_group_size e) then ps @ [p] else []) \<and>
    length (fe_xor_buf e') = length (fe_xor_buf e) \<and> fe_group_size e' = fe_group_size e \<and>
    fe_group_seq e' = (if Suc (length ps) < unat (fe_group_size e) then fe_group_seq e
                       else fe_group_seq e + 1)"
proof -
  have c: "unat (fe_count e + 1) = Suc (length ps)"
    using assms(1) unat_add_one [of "fe_count e" "fe_group_size e"]
    by (simp add: encoder_holds_def)
  have m: "max_length (ps @ [p]) \<le> length (fe_xor_buf e)"
    using assms by (simp add: encoder_holds_def)
  have b: "xor_zip (take (length p) (fe_xor_buf e)) p @ drop (length p) (fe_xor_buf e) =
      map (xor_at (ps @ [p])) [0..<length (fe_xor_buf e)]"
    using assms by (intro xor_buffer) (simp_all add: encoder_holds_def)
  have g: "of_nat (Suc (length ps)) = fe_group_size e" if "\<not> Suc (length ps) < unat (fe_group_size e)"
  proof -
    have "Suc (length ps) = unat (fe_group_size e)" using that assms(1) by (simp add: encoder_holds_def)
    then show ?thesis by (simp only: of_nat_unat) simp
  qed
  show ?thesis
    using assms b c m g
    by (auto simp: FecEncoder_feed_def Let_def encoder_holds_def group_repair_def word_le_nat_alt
        take_map max_def min_def)
qed

lemma feed_all_group:
  assumes "encoder_holds e ps" "\<forall>p \<in> set qs. length p \<le> length (fe_xor_buf e)"
    and "length ps + length qs = unat (fe_group_size e)" "qs \<noteq> []"
  shows "\<exists>e'. feed_all e qs = (replicate (length qs - 1) (Inr None) @
      [Inr (Some (group_repair (fe_group_seq e) (ps @ qs)))], e') \<and> encoder_holds e' [] \<and>
    length (fe_xor_buf e') = length (fe_xor_buf e) \<and> fe_group_size e' = fe_group_size e \<and>
    fe_group_seq e' = fe_group_seq e + 1"
  using assms
proof (induction qs arbitrary: e ps)
  case (Cons q qs)
  obtain e1 where e1: "FecEncoder_feed e q =
      (if Suc (length ps) < unat (fe_group_size e) then (Inr None, e1)
       else (Inr (Some (group_repair (fe_group_seq e) (ps @ [q]))), e1))"
    "encoder_holds e1 (if Suc (length ps) < unat (fe_group_size e) then ps @ [q] else [])"
    "length (fe_xor_buf e1) = length (fe_xor_buf e)" "fe_group_size e1 = fe_group_size e"
    "fe_group_seq e1 = (if Suc (length ps) < unat (fe_group_size e) then fe_group_seq e
                       else fe_group_seq e + 1)"
    using feed_step [of e ps q] Cons.prems by auto
  show ?case
  proof (cases "qs = []")
    case True
    then show ?thesis using e1 Cons.prems by auto
  next
    case False
    then have "Suc (length ps) < unat (fe_group_size e)"
      using Cons.prems(3) by (cases qs) auto
    with e1 have *: "FecEncoder_feed e q = (Inr None, e1)" "encoder_holds e1 (ps @ [q])"
      "fe_group_seq e1 = fe_group_seq e" by simp_all
    then show ?thesis
      using Cons.IH [of e1 "ps @ [q]"] Cons.prems e1(3,4) False by (cases qs) auto
  qed
qed simp

section \<open>Index bitmaps\<close>

lemma index_split: "unat (i :: u8) div 64 < 4"
  using unat_bounds(1) [of i] by simp

lemma bitmap_seen_bit: "bitmap_seen seen i \<longleftrightarrow> bit (seen ! (unat i div 64)) (unat i mod 64)"
  by (simp add: bitmap_seen_def Let_def bit_iff_and_push_bit_not_eq_0)

lemma length_bitmap_mark [simp]: "length (bitmap_mark seen i) = length seen"
  by (simp add: bitmap_mark_def Let_def)

lemma bitmap_mark_seen:
  assumes "length seen = 4"
  shows "bitmap_seen (bitmap_mark seen i) j \<longleftrightarrow> j = i \<or> bitmap_seen seen j"
proof -
  have "j = i \<longleftrightarrow> unat j div 64 = unat i div 64 \<and> unat j mod 64 = unat i mod 64"
    by (metis div_mult_mod_eq word_unat_eq_iff)
  moreover have "unat i mod 64 < 64" "unat j mod 64 < 64" by simp_all
  ultimately show ?thesis
    using assms index_split [of i] index_split [of j]
    by (auto simp: bitmap_seen_bit bitmap_mark_def Let_def nth_list_update bit_or_iff
        bit_exp_iff possible_bit_def)
qed

lemma bitmap_empty [simp]: "\<not> bitmap_seen [0, 0, 0, 0] i"
proof -
  have "unat i div 64 \<in> {0, 1, 2, 3}" using index_split [of i] by auto
  then show ?thesis by (auto simp: bitmap_seen_bit)
qed

lemma bitmap_union:
  assumes "length a = 4" "length b = 4"
  shows "bitmap_seen (map2 (OR) a b) i \<longleftrightarrow> bitmap_seen a i \<or> bitmap_seen b i"
  using assms index_split [of i] by (simp add: bitmap_seen_bit bit_or_iff)

end
