(* ===== verification/Fragment.thy ===== *)
theory Fragment
  imports Fec
begin

text \<open>
  Fragmentation of \<open>aivpn_common::fragment\<close>: \<open>split\<close> and \<open>split_fec_data\<close> cut a message into
  fragments, and \<open>Reassembler\<close> puts them together again within fixed limits.  The random
  identifier of a message (\<open>rand::random\<close>) and \<open>Instant::now\<close> are arguments.  The name
  \<open>split_fragments\<close> stands for \<open>split\<close>.
\<close>

definition FRAGMENT_DATA_SIZE :: nat where "FRAGMENT_DATA_SIZE = 900"
definition MAX_REASSEMBLED_SIZE :: nat where
  "MAX_REASSEMBLED_SIZE = MAX_MGMT_BODY_SIZE + MAX_MGMT_PATH_SIZE + 12"
definition HEADER_SIZE :: nat where "HEADER_SIZE = 20"
definition FEC_META_SIZE :: nat where "FEC_META_SIZE = 4"
definition MAX_IN_FLIGHT :: nat where "MAX_IN_FLIGHT = 4"
definition MAX_DATA_IN_FLIGHT :: nat where "MAX_DATA_IN_FLIGHT = 8"
definition ASSEMBLY_TTL :: duration where "ASSEMBLY_TTL = from_secs 10"

record Assembly =
  as_kind :: InnerType
  as_fec :: "FecMetadata option"
  as_total :: nat
  as_created :: instant
  as_chunks :: "(nat, bytes) hmap"
  as_received :: nat

record Reassembled =
  ra_kind :: InnerType
  ra_payload :: bytes
  ra_fec :: "FecMetadata option"

type_synonym Reassembler = "(u64, Assembly) hmap"

section \<open>Splitting\<close>

text \<open>\<open>slice::chunks\<close>\<close>

fun chunks :: "nat \<Rightarrow> 'a list \<Rightarrow> 'a list list" where
  "chunks n [] = []"
| "chunks n (x # xs) = (x # take (n - 1) xs) # chunks n (drop (n - 1) xs)"

definition fragment_bytes :: "InnerType \<Rightarrow> u64 \<Rightarrow> nat \<Rightarrow> nat \<times> bytes \<Rightarrow> bytes" where
  "fragment_bytes kind fid len = (\<lambda>(index, chunk).
     [1, ucast (InnerType_as_u16 kind), 0, 0] @ to_be 8 fid @ to_be 4 (of_nat len :: u32) @
     to_be 4 (of_nat (index * FRAGMENT_DATA_SIZE) :: u32) @ chunk)"

definition split_fragments :: "InnerType \<Rightarrow> bytes \<Rightarrow> u64 \<Rightarrow> bytes list result" where
  "split_fragments kind payload fid =
     (if kind \<notin> {Data, Control, FecRepair} \<or> payload = [] \<or> length payload > MAX_REASSEMBLED_SIZE
      then Inl (InvalidPacket ''Invalid fragmented payload'')
      else Inr (map (fragment_bytes kind fid (length payload))
             (enumerate 0 (chunks FRAGMENT_DATA_SIZE payload))))"

text \<open>The loop body of \<open>split_fec_data\<close>: the flag, the extension length and the extension.\<close>

definition add_metadata :: "FecMetadata \<Rightarrow> bytes \<Rightarrow> bytes result" where
  "add_metadata meta packet =
     (if 3 < length packet \<and> HEADER_SIZE \<le> length packet
      then (let packet = packet[2 := 1, 3 := of_nat FEC_META_SIZE] in
        Inr (take HEADER_SIZE packet @ to_be 2 (md_group_seq meta) @
             [md_group_size meta, md_index meta] @ drop HEADER_SIZE packet))
      else Inl Panic)"

definition split_fec_data :: "bytes \<Rightarrow> FecMetadata \<Rightarrow> u64 \<Rightarrow> bytes list result" where
  "split_fec_data payload meta fid =
     (if md_group_size meta = 0 \<or> md_index meta \<ge> md_group_size meta
      then Inl (InvalidPacket ''Invalid FEC metadata'')
      else if length payload > MAX_PACKET_SIZE
      then Inl (InvalidPacket ''FEC data exceeds packet budget'')
      else bind (split_fragments Data payload fid) (map_result (add_metadata meta)))"

section \<open>Reassembly\<close>

definition fec_metadata :: "bytes \<Rightarrow> FecMetadata option result" where
  "fec_metadata bs =
     (if length bs < HEADER_SIZE + FEC_META_SIZE then Inr None
      else bind (idx bs 0) (\<lambda>b0. bind (idx bs 1) (\<lambda>b1. bind (idx bs 2) (\<lambda>b2. bind (idx bs 3) (\<lambda>b3.
        if b0 \<noteq> 1 \<or> b1 \<noteq> ucast (InnerType_as_u16 Data) \<or> b2 \<noteq> 1 \<or> b3 \<noteq> of_nat FEC_META_SIZE
        then Inr None
        else bind (idx bs (HEADER_SIZE + 2)) (\<lambda>group_size. bind (idx bs (HEADER_SIZE + 3)) (\<lambda>index.
          if group_size = 0 \<or> index \<ge> group_size then Inr None
          else bind (idx bs HEADER_SIZE) (\<lambda>g0. bind (idx bs (HEADER_SIZE + 1)) (\<lambda>g1.
            Inr (Some \<lparr>md_group_seq = from_be [g0, g1], md_group_size = group_size,
                       md_index = index\<rparr>))))))))))"

definition discard_fec_group :: "Reassembler \<Rightarrow> u16 \<Rightarrow> Reassembler" where
  "discard_fec_group r group_seq =
     retain (\<lambda>_ a. \<not> (case as_fec a of None \<Rightarrow> False | Some meta \<Rightarrow> md_group_seq meta = group_seq)) r"

text \<open>A parsed fragment: everything \<open>accept_detailed\<close> checks before it looks at its state.\<close>

record fragment_header =
  fh_kind :: InnerType
  fh_id :: u64
  fh_fec :: "FecMetadata option"
  fh_total :: nat
  fh_offset :: nat
  fh_data :: bytes

definition check_bounds :: "InnerType \<Rightarrow> nat \<Rightarrow> nat \<Rightarrow> bytes \<Rightarrow> unit result" where
  "check_bounds kind len offset data =
     (if len = 0 \<or> kind = Data \<and> len > MAX_PACKET_SIZE \<or>
         kind = FecRepair \<and> len > MAX_PACKET_SIZE + 3 \<or> len > MAX_REASSEMBLED_SIZE \<or>
         offset \<ge> len \<or> \<not> FRAGMENT_DATA_SIZE dvd offset \<or>
         length data \<noteq> min FRAGMENT_DATA_SIZE (len - offset)
      then Inl (InvalidPacket ''Invalid fragment bounds'') else Inr ())"

definition parse_fragment :: "bytes \<Rightarrow> fragment_header result" where
  "parse_fragment bs =
     (if length bs \<le> HEADER_SIZE then Inl (InvalidPacket ''Invalid fragment header'')
      else bind (idx bs 0) (\<lambda>b0. bind (idx bs 1) (\<lambda>b1. bind (idx bs 2) (\<lambda>b2. bind (idx bs 3) (\<lambda>b3.
        if b0 \<noteq> 1 \<or> b2 AND NOT 1 \<noteq> 0 then Inl (InvalidPacket ''Invalid fragment header'')
        else case InnerType_from_u16 (ucast b1) of
          None \<Rightarrow> Inl (InvalidPacket ''Invalid fragment type'')
        | Some kind \<Rightarrow>
            (if kind \<notin> {Data, Control, FecRepair} then Inl (InvalidPacket ''Invalid fragment type'')
             else let flagged = (b2 = 1) in
               if flagged \<and> kind \<noteq> Data
               then Inl (InvalidPacket ''FEC flag requires data fragments'')
               else let header_size = HEADER_SIZE + (if flagged then FEC_META_SIZE else 0) in
                 if length bs \<le> header_size \<or> unat b3 \<noteq> header_size - HEADER_SIZE
                 then Inl (InvalidPacket ''Invalid fragment header extension'')
                 else bind (slice bs 4 12) (\<lambda>fid.
                   bind (if flagged
                         then bind (fec_metadata bs) (\<lambda>m. case m of
                                None \<Rightarrow> Inl (InvalidPacket ''Invalid FEC fragment metadata'')
                              | Some meta \<Rightarrow> Inr (Some meta))
                         else Inr None) (\<lambda>fec.
                   bind (slice bs 12 16) (\<lambda>t. bind (slice bs 16 20) (\<lambda>off.
                   bind (slice bs header_size (length bs)) (\<lambda>data.
                   let len = unat (from_be t :: u32); offset = unat (from_be off :: u32) in
                   bind (check_bounds kind len offset data) (\<lambda>_.
                   Inr \<lparr>fh_kind = kind, fh_id = from_be fid, fh_fec = fec, fh_total = len,
                        fh_offset = offset, fh_data = data\<rparr>))))))))))))"

text \<open>The capacity check for a message that is not known yet; the oldest data message gives way.\<close>

definition make_room :: "Reassembler \<Rightarrow> InnerType \<Rightarrow> Reassembler result" where
  "make_room r kind =
     (let control = (kind = Control);
          count = length (filter (\<lambda>(_, a). (as_kind a = Control) = control) r);
          limit = (if control then MAX_IN_FLIGHT else MAX_DATA_IN_FLIGHT)
      in if count \<ge> limit
         then if control then Inl (InvalidPacket ''Too many fragmented messages'')
              else (case min_by_key (\<lambda>(_, a). as_created a) (filter (\<lambda>(_, a). as_kind a \<noteq> Control) r) of
                      None \<Rightarrow> Inr r
                    | Some (oldest, _) \<Rightarrow> Inr (AList.delete oldest r))
         else Inr r)"

text \<open>\<open>for offset in (0..total).step_by(FRAGMENT_DATA_SIZE)\<close>; \<open>chunks[&offset]\<close> panics when absent.\<close>

definition offsets :: "nat \<Rightarrow> nat list" where
  "offsets len =
     map (\<lambda>i. i * FRAGMENT_DATA_SIZE) [0..<(len + FRAGMENT_DATA_SIZE - 1) div FRAGMENT_DATA_SIZE]"

definition assemble_chunks :: "(nat, bytes) hmap \<Rightarrow> nat \<Rightarrow> bytes result" where
  "assemble_chunks m len =
     bind (map_result (\<lambda>off. case map_of m off of None \<Rightarrow> Inl Panic | Some c \<Rightarrow> Inr c) (offsets len))
       (\<lambda>cs. Inr (concat cs))"

definition insert_fragment :: "Reassembler \<Rightarrow> fragment_header \<Rightarrow> instant \<Rightarrow> Reassembled option result \<times> Reassembler" where
  "insert_fragment r h now =
     (let fid = fh_id h;
          assembly = (case map_of r fid of
            Some a \<Rightarrow> a
          | None \<Rightarrow> \<lparr>as_kind = fh_kind h, as_fec = fh_fec h, as_total = fh_total h, as_created = now,
                      as_chunks = [], as_received = 0\<rparr>);
          r = AList.update fid assembly r
      in if as_kind assembly \<noteq> fh_kind h \<or> as_total assembly \<noteq> fh_total h \<or> as_fec assembly \<noteq> fh_fec h
         then (Inl (InvalidPacket ''Conflicting fragment metadata''), AList.delete fid r)
         else case map_of (as_chunks assembly) (fh_offset h) of
           Some previous \<Rightarrow>
             (if previous \<noteq> fh_data h
              then (Inl (InvalidPacket ''Conflicting duplicate fragment''), AList.delete fid r)
              else (Inr None, r))
         | None \<Rightarrow>
             (let assembly = assembly \<lparr>as_received := as_received assembly + length (fh_data h),
                    as_chunks := AList.update (fh_offset h) (fh_data h) (as_chunks assembly)\<rparr>
              in if as_received assembly \<noteq> fh_total h then (Inr None, AList.update fid assembly r)
                 else (bind (assemble_chunks (as_chunks assembly) (fh_total h)) (\<lambda>payload.
                         Inr (Some \<lparr>ra_kind = fh_kind h, ra_payload = payload, ra_fec = as_fec assembly\<rparr>)),
                       AList.delete fid r)))"

definition accept_detailed :: "Reassembler \<Rightarrow> bytes \<Rightarrow> instant \<Rightarrow> Reassembled option result \<times> Reassembler" where
  "accept_detailed r bs now =
     (let r = retain (\<lambda>_ a. now - as_created a < ASSEMBLY_TTL) r in
      case parse_fragment bs of
        Inl e \<Rightarrow> (Inl e, r)
      | Inr h \<Rightarrow>
          (case (if contains_key (fh_id h) r then Inr r else make_room r (fh_kind h)) of
             Inl e \<Rightarrow> (Inl e, r)
           | Inr r \<Rightarrow> insert_fragment r h now))"

definition accept :: "Reassembler \<Rightarrow> bytes \<Rightarrow> instant \<Rightarrow> (InnerType \<times> bytes) option result \<times> Reassembler" where
  "accept r bs now =
     (case accept_detailed r bs now of
        (Inl e, r) \<Rightarrow> (Inl e, r)
      | (Inr m, r) \<Rightarrow> (Inr (map_option (\<lambda>m. (ra_kind m, ra_payload m)) m), r))"

section \<open>Offsets and pieces\<close>

lemma F_pos [simp]: "0 < FRAGMENT_DATA_SIZE"
  by (simp add: FRAGMENT_DATA_SIZE_def)

lemma set_offsets: "set (offsets n) = {k. FRAGMENT_DATA_SIZE dvd k \<and> k < n}"
proof (intro set_eqI iffI)
  fix k assume "k \<in> set (offsets n)"
  then show "k \<in> {k. FRAGMENT_DATA_SIZE dvd k \<and> k < n}"
    by (auto simp: offsets_def FRAGMENT_DATA_SIZE_def)
next
  fix k assume "k \<in> {k. FRAGMENT_DATA_SIZE dvd k \<and> k < n}"
  then show "k \<in> set (offsets n)"
    by (auto simp: offsets_def FRAGMENT_DATA_SIZE_def elim!: dvdE)
qed

lemma distinct_offsets: "distinct (offsets n)"
  by (simp add: offsets_def distinct_map inj_on_def FRAGMENT_DATA_SIZE_def)

text \<open>The piece of a message that starts at an offset.\<close>

definition piece :: "bytes \<Rightarrow> nat \<Rightarrow> bytes" where
  "piece payload off = take FRAGMENT_DATA_SIZE (drop off payload)"

lemma length_piece: "length (piece payload off) = min FRAGMENT_DATA_SIZE (length payload - off)"
  by (simp add: piece_def min.commute)

lemma chunk_count: "0 < n \<Longrightarrow> (Suc m + n - 1) div n = Suc ((m - (n - 1) + n - 1) div n)"
proof -
  assume n: "0 < n"
  show ?thesis
  proof (cases "m < n - 1")
    case True
    then have "Suc m + n - 1 < 2 * n" "n \<le> Suc m + n - 1" by auto
    then have "(Suc m + n - 1) div n = 1" using n by (intro div_nat_eqI) auto
    then show ?thesis using True n by simp
  next
    case False
    then have "(Suc m + n - 1) div n = ((m - (n - 1) + n - 1) + n) div n"
      using n by (intro arg_cong [of _ _ "\<lambda>a. a div n"]) auto
    also have "\<dots> = Suc ((m - (n - 1) + n - 1) div n)" using n by (subst div_add_self2) auto
    finally show ?thesis .
  qed
qed

lemma chunks_nth:
  "0 < n \<Longrightarrow> chunks n xs = map (\<lambda>i. take n (drop (i * n) xs)) [0..<(length xs + n - 1) div n]"
proof (induction n xs rule: chunks.induct)
  case (2 n x xs)
  let ?m = "(length (drop (n - 1) xs) + n - 1) div n"
  have "(length (x # xs) + n - 1) div n = Suc ?m"
    using chunk_count [OF "2.prems", of "length xs"] by simp
  moreover have "map (\<lambda>i. take n (drop (i * n) (x # xs))) [Suc 0..<Suc ?m] =
      map (\<lambda>i. take n (drop (i * n) (drop (n - 1) xs))) [0..<?m]"
    using "2.prems" by (subst map_Suc_upt [symmetric]) (auto simp: drop_Cons' add.commute)
  ultimately show ?case
    using "2.IH" "2.prems" by (simp add: upt_conv_Cons take_Cons' del: upt_Suc)
qed simp

lemma concat_chunks: "0 < n \<Longrightarrow> concat (chunks n xs) = xs"
  by (induction n xs rule: chunks.induct) auto

lemma concat_pieces: "concat (map (piece payload) (offsets (length payload))) = payload"
  using concat_chunks [of FRAGMENT_DATA_SIZE payload] chunks_nth [of FRAGMENT_DATA_SIZE payload]
  by (simp add: offsets_def piece_def comp_def)

lemma sum_offsets: "(\<Sum>off \<in> set (offsets n). min FRAGMENT_DATA_SIZE (n - off)) = n"
proof -
  let ?p = "replicate n (0 :: u8)"
  have "n = length (concat (map (piece ?p) (offsets n)))"
    using concat_pieces [of ?p] by simp
  also have "\<dots> = sum_list (map (\<lambda>off. min FRAGMENT_DATA_SIZE (n - off)) (offsets n))"
    by (simp add: length_concat comp_def length_piece)
  finally show ?thesis by (simp add: sum_list_distinct_conv_sum_set distinct_offsets)
qed

section \<open>The invariant of the reassembler\<close>

text \<open>The chunks of an assembly have exactly the offsets and lengths of the message's pieces.\<close>

definition chunks_ok :: "(nat, bytes) hmap \<Rightarrow> nat \<Rightarrow> bool" where
  "chunks_ok m n \<longleftrightarrow> wf_hmap m \<and>
     (\<forall>(off, c) \<in> set m. off \<in> set (offsets n) \<and> length c = min FRAGMENT_DATA_SIZE (n - off))"

definition assembly_ok :: "Assembly \<Rightarrow> bool" where
  "assembly_ok a \<longleftrightarrow> chunks_ok (as_chunks a) (as_total a) \<and>
     as_received a = sum_list (map (length \<circ> snd) (as_chunks a)) \<and> as_received a < as_total a \<and>
     as_total a \<le> MAX_REASSEMBLED_SIZE"

definition in_class :: "bool \<Rightarrow> Assembly \<Rightarrow> bool" where
  "in_class control a \<longleftrightarrow> (as_kind a = Control) = control"

definition class_count :: "bool \<Rightarrow> Reassembler \<Rightarrow> nat" where
  "class_count control r = length (filter (\<lambda>(_, a). in_class control a) r)"

definition reassembler_ok :: "Reassembler \<Rightarrow> bool" where
  "reassembler_ok r \<longleftrightarrow> wf_hmap r \<and> (\<forall>(_, a) \<in> set r. assembly_ok a) \<and>
     class_count True r \<le> MAX_IN_FLIGHT \<and> class_count False r \<le> MAX_DATA_IN_FLIGHT"

lemma chunks_sum:
  assumes "chunks_ok m n"
  shows "sum_list (map (length \<circ> snd) m) = (\<Sum>off \<in> hkeys m. min FRAGMENT_DATA_SIZE (n - off))"
proof -
  have "sum_list (map (length \<circ> snd) m) = sum_list (map (\<lambda>off. min FRAGMENT_DATA_SIZE (n - off)) (map fst m))"
    using assms by (fastforce simp: chunks_ok_def comp_def intro!: arg_cong [of _ _ sum_list])
  also have "\<dots> = (\<Sum>off \<in> set (map fst m). min FRAGMENT_DATA_SIZE (n - off))"
    using assms by (intro sum_list_distinct_conv_sum_set) (simp add: chunks_ok_def wf_hmap_def)
  finally show ?thesis by (simp add: hkeys_def)
qed

lemma chunks_keys: "chunks_ok m n \<Longrightarrow> hkeys m \<subseteq> set (offsets n)"
  by (auto simp: chunks_ok_def hkeys_def)

lemma chunks_complete:
  assumes "chunks_ok m n" "sum_list (map (length \<circ> snd) m) = n"
  shows "hkeys m = set (offsets n)"
proof (rule ccontr)
  let ?f = "\<lambda>off. min FRAGMENT_DATA_SIZE (n - off)"
  assume "hkeys m \<noteq> set (offsets n)"
  then obtain off where off: "off \<in> set (offsets n) - hkeys m"
    using chunks_keys [OF assms(1)] by auto
  then have "0 < ?f off" by (auto simp: set_offsets)
  then have "sum ?f (hkeys m) < sum ?f (set (offsets n))"
    using chunks_keys [OF assms(1)] off by (intro sum_strict_mono2 [of _ _ off]) auto
  then show False using assms chunks_sum [OF assms(1)] sum_offsets [of n] by simp
qed

lemma assemble_complete:
  assumes "hkeys m = set (offsets n)"
  shows "assemble_chunks m n = Inr (concat (map (\<lambda>off. the (map_of m off)) (offsets n)))"
proof -
  have "map_result (\<lambda>off. case map_of m off of None \<Rightarrow> Inl Panic | Some c \<Rightarrow> Inr c) (offsets n) =
      Inr (map (\<lambda>off. the (map_of m off)) (offsets n))"
  proof (rule map_result_Inr)
    fix off assume "off \<in> set (offsets n)"
    then have "map_of m off \<noteq> None" using assms by (simp add: map_of_None_keys)
    then show "(case map_of m off of None \<Rightarrow> Inl Panic | Some c \<Rightarrow> Inr c) = Inr (the (map_of m off))" by auto
  qed
  then show ?thesis by (simp add: assemble_chunks_def)
qed

lemma chunks_ok_update:
  assumes "chunks_ok m n" "off \<in> set (offsets n)" "length c = min FRAGMENT_DATA_SIZE (n - off)"
    and "off \<notin> hkeys m"
  shows "chunks_ok (AList.update off c m) n"
    "sum_list (map (length \<circ> snd) (AList.update off c m)) = sum_list (map (length \<circ> snd) m) + length c"
proof -
  show "chunks_ok (AList.update off c m) n"
    using assms set_update_subset [of off c m] by (auto simp: chunks_ok_def)
  show "sum_list (map (length \<circ> snd) (AList.update off c m)) = sum_list (map (length \<circ> snd) m) + length c"
    using assms(4) by (induction m) auto
qed

lemma class_count_update:
  "k \<notin> hkeys m \<Longrightarrow> class_count c (AList.update k a m) = class_count c m + of_bool (in_class c a)"
  "map_of m k = Some b \<Longrightarrow> in_class c a = in_class c b \<Longrightarrow> class_count c (AList.update k a m) = class_count c m"
  by (induction m) (auto simp: class_count_def split: if_splits)

lemma class_count_delete: "class_count c (AList.delete k m) \<le> class_count c m"
  by (induction m) (auto simp: class_count_def)

lemma class_count_delete_in:
  assumes "(k, a) \<in> set m" "in_class c a"
  shows "class_count c (AList.delete k m) < class_count c m"
  using assms
proof (induction m)
  case (Cons x m)
  then show ?case
    using class_count_delete [of c k m] by (auto simp: class_count_def)
qed simp

lemma class_count_retain: "class_count c (retain P m) \<le> class_count c m"
  by (induction m) (auto simp: class_count_def retain_def)

lemma reassembler_ok_retain: "reassembler_ok r \<Longrightarrow> reassembler_ok (retain P r)"
  using class_count_retain [of True P r] class_count_retain [of False P r]
  by (auto simp: reassembler_ok_def)

lemma reassembler_ok_delete: "reassembler_ok r \<Longrightarrow> reassembler_ok (AList.delete k r)"
  using class_count_delete [of True k r] class_count_delete [of False k r] set_delete_subset [of k r]
  by (auto simp: reassembler_ok_def)

lemma delete_absent: "k \<notin> hkeys m \<Longrightarrow> AList.delete k m = m"
  by (induction m) auto

lemma make_room:
  assumes "reassembler_ok r" "make_room r kind = Inr r'"
  shows "reassembler_ok r'" "hkeys r' \<subseteq> hkeys r"
    "class_count (kind = Control) r' < (if kind = Control then MAX_IN_FLIGHT else MAX_DATA_IN_FLIGHT)"
    "map_of r' k = None \<or> map_of r' k = map_of r k"
proof -
  have r': "r' = r \<and> class_count (kind = Control) r < (if kind = Control then MAX_IN_FLIGHT else MAX_DATA_IN_FLIGHT)
    \<or> kind \<noteq> Control \<and> (\<exists>k a. (k, a) \<in> set r \<and> as_kind a \<noteq> Control \<and> r' = AList.delete k r)"
  proof (cases "min_by_key (\<lambda>(_, a). as_created a) (filter (\<lambda>(_, a). as_kind a \<noteq> Control) r)")
    case None
    then have "class_count False r = 0" by (simp add: class_count_def in_class_def)
    then show ?thesis
      using assms(2) None by (auto simp: make_room_def Let_def class_count_def in_class_def
          MAX_DATA_IN_FLIGHT_def split: if_splits)
  next
    case (Some x)
    then show ?thesis
      using min_by_key_in [OF Some] assms(2)
      by (auto simp: make_room_def Let_def class_count_def in_class_def split: if_splits)
  qed
  then show "class_count (kind = Control) r' < (if kind = Control then MAX_IN_FLIGHT else MAX_DATA_IN_FLIGHT)"
    using assms(1) class_count_delete_in [of _ _ r False]
    by (fastforce simp: reassembler_ok_def in_class_def)
  show "reassembler_ok r'" "hkeys r' \<subseteq> hkeys r" "map_of r' k = None \<or> map_of r' k = map_of r k"
    using r' assms(1) by (auto simp: reassembler_ok_delete delete_conv')
qed

definition header_ok :: "fragment_header \<Rightarrow> bool" where
  "header_ok h \<longleftrightarrow> fh_total h \<le> MAX_REASSEMBLED_SIZE \<and> fh_offset h \<in> set (offsets (fh_total h)) \<and>
     length (fh_data h) = min FRAGMENT_DATA_SIZE (fh_total h - fh_offset h)"

lemma check_bounds_ok:
  "check_bounds kind n off data = Inr () \<longleftrightarrow>
   (kind = Data \<longrightarrow> n \<le> MAX_PACKET_SIZE) \<and> (kind = FecRepair \<longrightarrow> n \<le> MAX_PACKET_SIZE + 3) \<and>
   n \<le> MAX_REASSEMBLED_SIZE \<and> off \<in> set (offsets n) \<and>
   length data = min FRAGMENT_DATA_SIZE (n - off)"
  by (auto simp: check_bounds_def set_offsets)

lemma parse_header_ok: "parse_fragment bs = Inr h \<Longrightarrow> header_ok h"
  by (auto simp: parse_fragment_def bind_eq_Inr Let_def header_ok_def check_bounds_ok
      split: if_splits option.splits)

lemma fec_metadata_no_panic: "fec_metadata bs \<noteq> Inl Panic"
  unfolding fec_metadata_def HEADER_SIZE_def FEC_META_SIZE_def
  by (intro no_panic; (simp (no_asm); fail | linarith | arith | simp))

lemma check_bounds_no_panic [no_panic]: "check_bounds kind n off data \<noteq> Inl Panic"
  by (simp add: check_bounds_def)

lemma parse_no_panic: "parse_fragment bs \<noteq> Inl Panic"
  unfolding parse_fragment_def HEADER_SIZE_def FEC_META_SIZE_def Let_def
  by (intro no_panic fec_metadata_no_panic; (simp (no_asm); fail | linarith | arith | simp))

definition fresh_assembly :: "fragment_header \<Rightarrow> instant \<Rightarrow> Assembly" where
  "fresh_assembly h now = \<lparr>as_kind = fh_kind h, as_fec = fh_fec h, as_total = fh_total h, as_created = now,
     as_chunks = [], as_received = 0\<rparr>"

lemma fresh_assembly_ok: "header_ok h \<Longrightarrow> assembly_ok (fresh_assembly h now)"
  by (auto simp: header_ok_def assembly_ok_def chunks_ok_def fresh_assembly_def set_offsets)

definition add_chunk :: "Assembly \<Rightarrow> fragment_header \<Rightarrow> Assembly" where
  "add_chunk a h = a \<lparr>as_received := as_received a + length (fh_data h),
     as_chunks := AList.update (fh_offset h) (fh_data h) (as_chunks a)\<rparr>"

lemma insert_fragment_alt:
  assumes "a = (case map_of r (fh_id h) of Some a \<Rightarrow> a | None \<Rightarrow> fresh_assembly h now)"
  shows "insert_fragment r h now =
    (if as_kind a \<noteq> fh_kind h \<or> as_total a \<noteq> fh_total h \<or> as_fec a \<noteq> fh_fec h
     then (Inl (InvalidPacket ''Conflicting fragment metadata''), AList.delete (fh_id h) r)
     else case map_of (as_chunks a) (fh_offset h) of
       Some previous \<Rightarrow>
         (if previous \<noteq> fh_data h
          then (Inl (InvalidPacket ''Conflicting duplicate fragment''), AList.delete (fh_id h) r)
          else (Inr None, AList.update (fh_id h) a r))
     | None \<Rightarrow>
         (if as_received (add_chunk a h) \<noteq> fh_total h
          then (Inr None, AList.update (fh_id h) (add_chunk a h) (AList.update (fh_id h) a r))
          else (bind (assemble_chunks (as_chunks (add_chunk a h)) (fh_total h)) (\<lambda>payload.
                  Inr (Some \<lparr>ra_kind = fh_kind h, ra_payload = payload, ra_fec = as_fec a\<rparr>)),
                AList.delete (fh_id h) r)))"
  unfolding insert_fragment_def assms fresh_assembly_def add_chunk_def Let_def
  by (simp split: option.splits)

lemma add_chunk_ok:
  assumes "assembly_ok a" "header_ok h" "as_total a = fh_total h" "fh_offset h \<notin> hkeys (as_chunks a)"
  shows "chunks_ok (as_chunks (add_chunk a h)) (fh_total h)"
    "as_received (add_chunk a h) = sum_list (map (length \<circ> snd) (as_chunks (add_chunk a h)))"
    "as_received (add_chunk a h) \<noteq> fh_total h \<Longrightarrow> assembly_ok (add_chunk a h)"
proof -
  note u = chunks_ok_update [of "as_chunks a" "fh_total h" "fh_offset h" "fh_data h"]
  show c: "chunks_ok (as_chunks (add_chunk a h)) (fh_total h)"
    and s: "as_received (add_chunk a h) = sum_list (map (length \<circ> snd) (as_chunks (add_chunk a h)))"
    using assms u by (simp_all add: add_chunk_def assembly_ok_def header_ok_def)
  have "sum_list (map (length \<circ> snd) (as_chunks (add_chunk a h))) \<le> fh_total h"
    using chunks_sum [OF c] sum_mono2 [OF _ chunks_keys [OF c], of "\<lambda>off. min FRAGMENT_DATA_SIZE (fh_total h - off)"]
      sum_offsets [of "fh_total h"] by simp
  then show "assembly_ok (add_chunk a h)" if "as_received (add_chunk a h) \<noteq> fh_total h"
    using c s that assms(2,3) by (simp add: assembly_ok_def) (simp add: add_chunk_def header_ok_def)
qed

lemma update_update [simp]: "AList.update k a (AList.update k b m) = AList.update k a m"
  by (induction m) auto

lemma reassembler_ok_insert:
  assumes "reassembler_ok r" "assembly_ok a"
    and "case map_of r k of Some b \<Rightarrow> as_kind a = as_kind b
      | None \<Rightarrow> class_count (as_kind a = Control) r < (if as_kind a = Control then MAX_IN_FLIGHT else MAX_DATA_IN_FLIGHT)"
  shows "reassembler_ok (AList.update k a r)"
proof -
  have "class_count c (AList.update k a r) \<le> (if c then MAX_IN_FLIGHT else MAX_DATA_IN_FLIGHT)" for c
  proof (cases "map_of r k")
    case None
    then have "k \<notin> hkeys r" by (simp add: map_of_None_keys)
    then show ?thesis
      using assms(1,3) None by (cases c) (auto simp: class_count_update(1) in_class_def reassembler_ok_def)
  next
    case (Some b)
    then have "class_count c (AList.update k a r) = class_count c r"
      using assms(3) by (intro class_count_update(2)) (auto simp: in_class_def)
    then show ?thesis using assms(1) by (auto simp: reassembler_ok_def)
  qed
  from this [of True] this [of False] show ?thesis
    using assms(1,2) set_update_subset [of k a r] by (auto simp: reassembler_ok_def)
qed

lemma insert_fragment_inv:
  assumes "reassembler_ok r" "header_ok h"
    and "fh_id h \<in> hkeys r \<or> class_count (fh_kind h = Control) r <
      (if fh_kind h = Control then MAX_IN_FLIGHT else MAX_DATA_IN_FLIGHT)"
  shows "reassembler_ok (snd (insert_fragment r h now)) \<and> fst (insert_fragment r h now) \<noteq> Inl Panic"
proof -
  define a where "a = (case map_of r (fh_id h) of Some a \<Rightarrow> a | None \<Rightarrow> fresh_assembly h now)"
  note i = insert_fragment_alt [OF a_def]
  have a: "assembly_ok a"
    using assms(1,2) fresh_assembly_ok by (auto simp: a_def reassembler_ok_def dest: map_of_SomeD split: option.splits)
  have ins: "reassembler_ok (AList.update (fh_id h) b r)"
    if "assembly_ok b" "as_kind b = as_kind a" "as_kind a = fh_kind h" for b
  proof (rule reassembler_ok_insert [OF assms(1) that(1)], cases "map_of r (fh_id h)")
    case None
    then have "fh_id h \<notin> hkeys r" by (simp add: map_of_None_keys)
    then show "case map_of r (fh_id h) of None \<Rightarrow> class_count (as_kind b = Control) r <
        (if as_kind b = Control then MAX_IN_FLIGHT else MAX_DATA_IN_FLIGHT) | Some c \<Rightarrow> as_kind b = as_kind c"
      using None assms(3) that by simp
  next
    case (Some c)
    then show "case map_of r (fh_id h) of None \<Rightarrow> class_count (as_kind b = Control) r <
        (if as_kind b = Control then MAX_IN_FLIGHT else MAX_DATA_IN_FLIGHT) | Some c \<Rightarrow> as_kind b = as_kind c"
      using that by (simp add: a_def)
  qed
  show ?thesis
  proof (cases "as_kind a \<noteq> fh_kind h \<or> as_total a \<noteq> fh_total h \<or> as_fec a \<noteq> fh_fec h \<or>
      fh_offset h \<in> hkeys (as_chunks a)")
    case True
    then show ?thesis
      using assms(1) a ins [of a]
      by (auto simp: i reassembler_ok_delete map_of_None_keys split: option.splits)
  next
    case False
    then have t: "as_total a = fh_total h" "fh_offset h \<notin> hkeys (as_chunks a)" "as_kind a = fh_kind h"
      by auto
    note b = add_chunk_ok [OF a assms(2) t(1,2)]
    have "assemble_chunks (as_chunks (add_chunk a h)) (fh_total h) \<noteq> Inl Panic"
      if "as_received (add_chunk a h) = fh_total h"
      using assemble_complete [OF chunks_complete [OF b(1)]] b(2) that by simp
    moreover have "as_kind (add_chunk a h) = as_kind a" by (simp add: add_chunk_def)
    ultimately show ?thesis
      using False assms(1) ins [of "add_chunk a h"] b(3) t
      by (auto simp: i reassembler_ok_delete bind_eq_Inl map_of_None_keys [symmetric])
  qed
qed

lemma accept_detailed_inv:
  assumes "reassembler_ok r"
  shows "reassembler_ok (snd (accept_detailed r bs now)) \<and> fst (accept_detailed r bs now) \<noteq> Inl Panic"
proof -
  define s where "s = retain (\<lambda>_ a. now - as_created a < ASSEMBLY_TTL) r"
  have s: "reassembler_ok s" unfolding s_def using assms by (rule reassembler_ok_retain)
  show ?thesis
  proof (cases "parse_fragment bs")
    case (Inl e)
    then show ?thesis
      using s parse_no_panic [of bs] by (auto simp: accept_detailed_def Let_def s_def [symmetric])
  next
    case (Inr h)
    note h = parse_header_ok [OF Inr]
    show ?thesis
    proof (cases "fh_id h \<in> hkeys s")
      case True
      then show ?thesis
        using insert_fragment_inv [OF s h, of now] Inr
        by (auto simp: accept_detailed_def Let_def s_def [symmetric])
    next
      case False
      show ?thesis
      proof (cases "make_room s (fh_kind h)")
        case room: (Inr s')
        show ?thesis
          using insert_fragment_inv [OF make_room(1) [OF s room] h, of now] make_room(3) [OF s room] False Inr room
          by (auto simp: accept_detailed_def Let_def s_def [symmetric])
      next
        case (Inl e)
        then have "e \<noteq> Panic" by (auto simp: make_room_def Let_def split: if_splits option.splits)
        then show ?thesis using False Inr Inl s by (auto simp: accept_detailed_def Let_def s_def [symmetric])
      qed
    qed
  qed
qed

section \<open>Splitting and reassembling\<close>

definition header_of :: "InnerType \<Rightarrow> u64 \<Rightarrow> FecMetadata option \<Rightarrow> bytes \<Rightarrow> nat \<Rightarrow> fragment_header" where
  "header_of kind fid fec payload off =
     \<lparr>fh_kind = kind, fh_id = fid, fh_fec = fec, fh_total = length payload, fh_offset = off,
      fh_data = piece payload off\<rparr>"

text \<open>The messages the reassembler takes, by kind.\<close>

definition fragmentable :: "InnerType \<Rightarrow> bytes \<Rightarrow> bool" where
  "fragmentable kind payload \<longleftrightarrow> kind \<in> {Data, Control, FecRepair} \<and> payload \<noteq> [] \<and>
     (kind = Data \<longrightarrow> length payload \<le> MAX_PACKET_SIZE) \<and>
     (kind = FecRepair \<longrightarrow> length payload \<le> MAX_PACKET_SIZE + 3) \<and>
     length payload \<le> MAX_REASSEMBLED_SIZE"

lemma kind_byte:
  "InnerType_from_u16 (ucast (ucast (InnerType_as_u16 kind) :: u8)) = Some kind"
  by (cases kind) (simp_all add: InnerType_from_u16_def)

lemma fits_lengths:
  assumes "length payload \<le> MAX_REASSEMBLED_SIZE" "off < length payload"
  shows "unat (of_nat (length payload) :: u32) = length payload" "unat (of_nat off :: u32) = off"
  using assms by (simp_all add: unat_of_nat MAX_REASSEMBLED_SIZE_def MAX_MGMT_BODY_SIZE_def MAX_MGMT_PATH_SIZE_def)

lemma parse_plain:
  assumes "fragmentable kind payload" "off = i * FRAGMENT_DATA_SIZE" "off < length payload"
  shows "parse_fragment (fragment_bytes kind fid (length payload) (i, piece payload off)) =
    Inr (header_of kind fid None payload off)"
proof -
  have "check_bounds kind (length payload) off (piece payload off) = Inr ()"
    using assms by (auto simp: check_bounds_ok fragmentable_def set_offsets length_piece)
  moreover have "piece payload off \<noteq> []"
    using assms(3) by (auto simp: piece_def FRAGMENT_DATA_SIZE_def)
  moreover have "kind \<in> {Data, Control, FecRepair}" using assms(1) by (simp add: fragmentable_def)
  ultimately show ?thesis
    using assms fits_lengths [of payload off]
    by (simp add: parse_fragment_def fragment_bytes_def kind_byte HEADER_SIZE_def header_of_def nth_append
        fragmentable_def Let_def)
qed

lemma parse_fec:
  assumes "fragmentable Data payload" "off = i * FRAGMENT_DATA_SIZE" "off < length payload"
    and "md_group_size meta \<noteq> 0" "md_index meta < md_group_size meta"
  shows "\<exists>bs. add_metadata meta (fragment_bytes Data fid (length payload) (i, piece payload off)) = Inr bs \<and>
    parse_fragment bs = Inr (header_of Data fid (Some meta) payload off)"
proof -
  have "check_bounds Data (length payload) off (piece payload off) = Inr ()"
    using assms by (auto simp: check_bounds_ok fragmentable_def set_offsets length_piece)
  moreover have "piece payload off \<noteq> []"
    using assms(3) by (auto simp: piece_def FRAGMENT_DATA_SIZE_def)
  moreover have "fec_metadata ([1, 1, 1, 4] @ to_be 8 fid @ to_be 4 (of_nat (length payload) :: u32) @
      to_be 4 (of_nat off :: u32) @ to_be 2 (md_group_seq meta) @
      [md_group_size meta, md_index meta] @ piece payload off) = Inr (Some meta)"
    using assms(4,5) from_be_fields(1) [of "md_group_seq meta"]
    by (simp add: fec_metadata_def HEADER_SIZE_def FEC_META_SIZE_def nth_append to_be_def to_le_expand)
  ultimately show ?thesis
    using assms fits_lengths [of payload off]
    by (simp add: add_metadata_def parse_fragment_def fragment_bytes_def HEADER_SIZE_def FEC_META_SIZE_def
        header_of_def nth_append fragmentable_def Let_def InnerType_from_u16_def)
qed


fun accept_all :: "Reassembler \<Rightarrow> (bytes \<times> instant) list \<Rightarrow> Reassembled option result list \<times> Reassembler" where
  "accept_all r [] = ([], r)"
| "accept_all r ((bs, now) # evs) =
     (let (res, r) = accept_detailed r bs now; (ress, r) = accept_all r evs in (res # ress, r))"

text \<open>The assembly has exactly the pieces of \<open>payload\<close> at the offsets \<open>os\<close>.\<close>

definition has_pieces :: "bytes \<Rightarrow> nat list \<Rightarrow> InnerType \<Rightarrow> FecMetadata option \<Rightarrow> instant \<Rightarrow> Assembly \<Rightarrow> bool" where
  "has_pieces payload os kind fec t a \<longleftrightarrow>
     as_kind a = kind \<and> as_fec a = fec \<and> as_total a = length payload \<and> as_created a = t \<and>
     hkeys (as_chunks a) = set os \<and> (\<forall>off \<in> set os. map_of (as_chunks a) off = Some (piece payload off))"

definition piece_slot :: "Reassembler \<Rightarrow> u64 \<Rightarrow> bytes \<Rightarrow> nat list \<Rightarrow> InnerType \<Rightarrow> FecMetadata option \<Rightarrow> instant \<Rightarrow> instant \<Rightarrow> bool" where
  "piece_slot r fid payload os kind fec t now \<longleftrightarrow>
     (case map_of r fid of
        None \<Rightarrow> os = [] \<and> t = now \<and> (kind = Control \<longrightarrow> class_count True r < MAX_IN_FLIGHT)
      | Some a \<Rightarrow> has_pieces payload os kind fec t a \<and> now - t < ASSEMBLY_TTL)"

lemma header_of_ok:
  "fragmentable kind payload \<Longrightarrow> off \<in> set (offsets (length payload)) \<Longrightarrow> header_ok (header_of kind fid fec payload off)"
  by (simp add: header_ok_def header_of_def fragmentable_def length_piece)

lemma has_pieces_fresh: "has_pieces payload [] kind fec now (fresh_assembly (header_of kind fid fec payload off) now)"
  by (simp add: has_pieces_def fresh_assembly_def header_of_def)

lemma has_pieces_add:
  "has_pieces payload os kind fec t a \<Longrightarrow> off \<notin> set os \<Longrightarrow>
   has_pieces payload (off # os) kind fec t (add_chunk a (header_of kind fid fec payload off))"
  by (auto simp: has_pieces_def add_chunk_def header_of_def update_conv')

lemma header_of_fields [simp]:
  "fh_id (header_of kind fid fec payload off) = fid" "fh_kind (header_of kind fid fec payload off) = kind"
  "fh_fec (header_of kind fid fec payload off) = fec" "fh_offset (header_of kind fid fec payload off) = off"
  "fh_total (header_of kind fid fec payload off) = length payload"
  "fh_data (header_of kind fid fec payload off) = piece payload off"
  by (simp_all add: header_of_def)

lemma accept_ready:
  assumes "reassembler_ok r" "piece_slot r fid payload os kind fec t now"
    and "parse_fragment bs = Inr h" "h = header_of kind fid fec payload off"
  obtains r' a where "accept_detailed r bs now = insert_fragment r' h now" "reassembler_ok r'"
    "a = (case map_of r' (fh_id h) of Some a \<Rightarrow> a | None \<Rightarrow> fresh_assembly h now)"
    "has_pieces payload os kind fec t a"
    "map_of r' fid = None \<Longrightarrow> class_count (kind = Control) r' < (if kind = Control then MAX_IN_FLIGHT else MAX_DATA_IN_FLIGHT)"
proof -
  define s where "s = retain (\<lambda>_ a. now - as_created a < ASSEMBLY_TTL) r"
  have s: "reassembler_ok s" unfolding s_def using assms(1) by (rule reassembler_ok_retain)
  have wf: "wf_hmap r" using assms(1) by (simp add: reassembler_ok_def)
  have m: "map_of s fid = map_of r fid"
    using assms(2) by (auto simp: s_def map_of_retain [OF wf] piece_slot_def has_pieces_def split: option.splits)
  have acc: "accept_detailed r bs now = (case (if contains_key fid s then Inr s else make_room s kind) of
      Inl e \<Rightarrow> (Inl e, s) | Inr r \<Rightarrow> insert_fragment r h now)"
    unfolding accept_detailed_def Let_def s_def [symmetric] assms(3) sum.case by (simp add: assms(4))
  show ?thesis
  proof (cases "map_of r fid")
    case (Some a)
    then have "contains_key fid s" "map_of s fid = Some a"
      using m by (simp_all only: contains_key_def) simp_all
    then show ?thesis
      using that [of s a] s acc Some assms(2,4) by (simp add: piece_slot_def)
  next
    case None
    then have n: "\<not> contains_key fid s" using m by (simp add: map_of_None_keys [symmetric])
    have "class_count True s \<le> class_count True r" unfolding s_def by (rule class_count_retain)
    then have "\<exists>s'. make_room s kind = Inr s'"
      using assms(2) None by (auto simp: make_room_def Let_def piece_slot_def class_count_def in_class_def split: option.splits)
    then obtain s' where s': "make_room s kind = Inr s'" ..
    have "map_of s' fid = None"
      using make_room(4) [OF s s', of fid] m None by auto
    then show ?thesis
      using that [of s' "fresh_assembly h now"] make_room(1,3) [OF s s'] acc n s' assms(2,4) None has_pieces_fresh
      by (simp add: piece_slot_def)
  qed
qed

lemma accept_piece:
  assumes "reassembler_ok r" "piece_slot r fid payload os kind fec t now"
    and "parse_fragment bs = Inr (header_of kind fid fec payload off)"
    and "fragmentable kind payload" "off \<in> set (offsets (length payload))" "off \<notin> set os"
  obtains r' where "accept_detailed r bs now =
      (if set (off # os) = set (offsets (length payload))
       then (Inr (Some \<lparr>ra_kind = kind, ra_payload = payload, ra_fec = fec\<rparr>), r') else (Inr None, r'))"
    "reassembler_ok r'" "set (off # os) \<noteq> set (offsets (length payload)) \<Longrightarrow>
      \<exists>a. map_of r' fid = Some a \<and> has_pieces payload (off # os) kind fec t a"
proof -
  define h where "h = header_of kind fid fec payload off"
  obtain r1 a where r1: "accept_detailed r bs now = insert_fragment r1 h now" "reassembler_ok r1"
    "a = (case map_of r1 (fh_id h) of Some a \<Rightarrow> a | None \<Rightarrow> fresh_assembly h now)"
    "has_pieces payload os kind fec t a"
    using accept_ready [OF assms(1,2) assms(3) [folded h_def] h_def] by metis
  have inv: "reassembler_ok (snd (accept_detailed r bs now))" using accept_detailed_inv [OF assms(1)] by simp
  have h: "header_ok h" unfolding h_def using assms(4,5) by (rule header_of_ok)
  have a: "assembly_ok a"
    using r1(2,3) fresh_assembly_ok [OF h]
    by (auto simp: reassembler_ok_def dest: map_of_SomeD split: option.splits)
  have new: "has_pieces payload (off # os) kind fec t (add_chunk a h)"
    unfolding h_def using r1(4) assms(6) by (rule has_pieces_add)
  have t: "as_total a = fh_total h" "fh_offset h \<notin> hkeys (as_chunks a)" "fh_total h = length payload"
    "as_kind a = fh_kind h" "as_fec a = fh_fec h" "as_fec a = fec" "fh_kind h = kind" "fh_id h = fid"
    using r1(4) assms(6) by (simp_all add: has_pieces_def h_def)
  note b = add_chunk_ok [OF a h t(1,2)]
  let ?m = "as_chunks (add_chunk a h)"
  have keys: "hkeys ?m = set (off # os)" using new by (simp add: has_pieces_def)
  have fin: "as_received (add_chunk a h) = fh_total h \<longleftrightarrow> set (off # os) = set (offsets (length payload))"
  proof
    assume "as_received (add_chunk a h) = fh_total h"
    then show "set (off # os) = set (offsets (length payload))"
      using chunks_complete [OF b(1)] b(2) keys t(3) by simp
  next
    assume "set (off # os) = set (offsets (length payload))"
    then show "as_received (add_chunk a h) = fh_total h"
      using chunks_sum [OF b(1)] b(2) keys t(3) sum_offsets by simp
  qed
  have "concat (map (\<lambda>off. the (map_of ?m off)) (offsets (length payload))) = payload"
    if "set (off # os) = set (offsets (length payload))"
  proof -
    have "map (\<lambda>off. the (map_of ?m off)) (offsets (length payload)) = map (piece payload) (offsets (length payload))"
      using new unfolding has_pieces_def that by simp
    then show ?thesis by (simp only: concat_pieces)
  qed
  then have asm: "assemble_chunks ?m (fh_total h) = Inr payload"
    if "set (off # os) = set (offsets (length payload))"
    using that assemble_complete [of ?m "length payload"] keys t(3) by simp
  have n: "map_of (as_chunks a) (fh_offset h) = None" using t(2) by (simp add: map_of_None_keys)
  show ?thesis
    by (rule that [of "snd (accept_detailed r bs now)"])
      (use inv new fin asm t n in \<open>simp_all add: r1(1) insert_fragment_alt [OF r1(3)] update_conv'\<close>)
qed

lemma accept_all_pieces:
  assumes "reassembler_ok r" "evs \<noteq> []" "piece_slot r fid payload os kind fec t (snd (hd evs))"
    and "fragmentable kind payload"
    and "\<And>bs now. (bs, now) \<in> set evs \<Longrightarrow>
      parse_fragment bs = Inr (header_of kind fid fec payload (off_of bs)) \<and> now - t < ASSEMBLY_TTL"
    and "distinct (map (off_of \<circ> fst) evs @ os)"
    and "set (map (off_of \<circ> fst) evs @ os) = set (offsets (length payload))"
  shows "fst (accept_all r evs) = replicate (length evs - 1) (Inr None) @
    [Inr (Some \<lparr>ra_kind = kind, ra_payload = payload, ra_fec = fec\<rparr>)]"
  using assms
proof (induction evs arbitrary: r os)
  case (Cons x evs)
  obtain bs now where x: "x = (bs, now)" by force
  let ?off = "off_of bs"
  have p: "parse_fragment bs = Inr (header_of kind fid fec payload ?off)" using Cons.prems(5) [of bs now] x by simp
  have sl: "piece_slot r fid payload os kind fec t now" using Cons.prems(3) x by simp
  obtain r' where r': "accept_detailed r bs now =
      (if set (?off # os) = set (offsets (length payload))
       then (Inr (Some \<lparr>ra_kind = kind, ra_payload = payload, ra_fec = fec\<rparr>), r') else (Inr None, r'))"
    "reassembler_ok r'" "set (?off # os) \<noteq> set (offsets (length payload)) \<Longrightarrow>
      \<exists>a. map_of r' fid = Some a \<and> has_pieces payload (?off # os) kind fec t a"
    by (rule accept_piece [OF Cons.prems(1) sl p Cons.prems(4)]) (use Cons.prems(6,7) x in auto)
  show ?case
  proof (cases evs)
    case Nil
    then show ?thesis using r'(1) Cons.prems(7) x by simp
  next
    case (Cons y ys)
    then have y: "off_of (fst y) \<in> set (offsets (length payload))" "off_of (fst y) \<notin> set (?off # os)"
      using Cons.prems(6,7) x by auto
    then have d: "distinct (map (off_of \<circ> fst) evs @ ?off # os)"
      "set (map (off_of \<circ> fst) evs @ ?off # os) = set (offsets (length payload))"
      using Cons.prems(6,7) x by (simp_all add: comp_def)
    then have ne: "set (?off # os) \<noteq> set (offsets (length payload))" using y by blast
    then have "piece_slot r' fid payload (?off # os) kind fec t (snd (hd evs))"
      using r'(3) [OF ne] Cons.prems(5) [of "fst y" "snd y"] Cons by (auto simp: piece_slot_def)
    from Cons.IH [OF r'(2) _ this Cons.prems(4) _ d] Cons.prems(5) Cons have "fst (accept_all r' evs) = replicate (length evs - 1) (Inr None) @
        [Inr (Some \<lparr>ra_kind = kind, ra_payload = payload, ra_fec = fec\<rparr>)]"
      by auto
    then show ?thesis using r'(1) ne x Cons by (simp add: case_prod_beta Let_def)
  qed
qed simp

lemma split_pieces:
  assumes "split_fragments kind payload fid = Inr frags" "fragmentable kind payload"
  shows "frags = map (\<lambda>i. fragment_bytes kind fid (length payload) (i, piece payload (i * FRAGMENT_DATA_SIZE)))
    [0..<(length payload + FRAGMENT_DATA_SIZE - 1) div FRAGMENT_DATA_SIZE]"
  using assms chunks_nth [of FRAGMENT_DATA_SIZE payload]
  by (auto simp: split_fragments_def piece_def enumerate_map_upt split: if_splits)

lemma piece_index:
  "i < (n + FRAGMENT_DATA_SIZE - 1) div FRAGMENT_DATA_SIZE \<Longrightarrow> i * FRAGMENT_DATA_SIZE < n"
  by (auto simp: FRAGMENT_DATA_SIZE_def)

text \<open>The fragments of a message, in any order, put the message together again.\<close>

lemma reassemble_all:
  assumes "map (fh_offset \<circ> projr \<circ> parse_fragment) frags = offsets (length payload)"
    and "\<And>bs. bs \<in> set frags \<Longrightarrow> \<exists>off. parse_fragment bs = Inr (header_of kind fid fec payload off)"
    and "fragmentable kind payload" "mset (map fst evs) = mset frags"
    and "reassembler_ok r" "fid \<notin> hkeys r" "kind = Control \<longrightarrow> class_count True r < MAX_IN_FLIGHT"
    and "\<forall>now \<in> set (map snd evs). now - snd (hd evs) < ASSEMBLY_TTL"
  shows "fst (accept_all r evs) = replicate (length frags - 1) (Inr None) @
    [Inr (Some \<lparr>ra_kind = kind, ra_payload = payload, ra_fec = fec\<rparr>)]"
proof -
  let ?off = "fh_offset \<circ> projr \<circ> parse_fragment"
  have m: "mset (map (?off \<circ> fst) evs) = mset (offsets (length payload))"
    using arg_cong [OF assms(4), of "image_mset ?off"] arg_cong [OF assms(1), of mset]
    by (simp add: multiset.map_comp comp_assoc)
  have l: "length evs = length frags" using mset_eq_length [OF assms(4)] by simp
  have "0 \<in> set (offsets (length payload))"
    using assms(3) by (simp add: set_offsets fragmentable_def)
  then have ne: "evs \<noteq> []" using mset_eq_setD [OF m] by force
  have p: "parse_fragment bs = Inr (header_of kind fid fec payload (?off bs)) \<and> now - snd (hd evs) < ASSEMBLY_TTL"
    if "(bs, now) \<in> set evs" for bs now
  proof -
    have "bs \<in> set (map fst evs)" "now \<in> set (map snd evs)" using that by force+
    then show ?thesis using assms(2) [of bs] assms(8) mset_eq_setD [OF assms(4)] by auto
  qed
  have d: "distinct (map (?off \<circ> fst) evs @ [])"
    "set (map (?off \<circ> fst) evs @ []) = set (offsets (length payload))"
    using mset_eq_imp_distinct_iff [OF m] mset_eq_setD [OF m] distinct_offsets by simp_all
  have s: "piece_slot r fid payload [] kind fec (snd (hd evs)) (snd (hd evs))"
    using assms(6,7) by (simp add: piece_slot_def map_of_None_keys [symmetric])
  show ?thesis
    using accept_all_pieces [OF assms(5) ne s assms(3) p d] l by simp
qed

section \<open>Properties\<close>

datatype reassembly_event = Arrive bytes instant | Discard u16

fun reassembly_step :: "Reassembler \<Rightarrow> reassembly_event \<Rightarrow> Reassembler" where
  "reassembly_step r (Arrive bs now) = snd (accept r bs now)"
| "reassembly_step r (Discard seq) = discard_fec_group r seq"

lemma accept_inv:
  "reassembler_ok r \<Longrightarrow> reassembler_ok (snd (accept r bs now)) \<and> fst (accept r bs now) \<noteq> Inl Panic"
  using accept_detailed_inv [of r bs now] by (auto simp: accept_def split: prod.splits sum.splits)

interpretation reassembly: stable_state reassembly_step reassembler_ok
proof
  fix r e
  assume "reassembler_ok r"
  then show "reassembler_ok (reassembly_step r e)"
    by (cases e) (simp_all add: accept_inv discard_fec_group_def reassembler_ok_retain)
qed

lemma reassembler_ok_empty: "reassembler_ok []"
  by (simp add: reassembler_ok_def class_count_def)

text \<open>
  C22: Whatever bytes arrive, and whenever groups are discarded, the reassembler never
  panics, holds at most four control messages and eight data messages, and every pending
  message has only pieces at proper offsets and misses at least one.
\<close>

theorem reassembler_bounded:
  "let r = foldl reassembly_step [] evs in
   reassembler_ok r \<and> class_count True r \<le> 4 \<and> class_count False r \<le> 8 \<and>
   fst (accept r bs now) \<noteq> Inl Panic"
  using reassembly.inv_run [OF reassembler_ok_empty, of evs] accept_inv
  by (simp add: Let_def) (simp add: reassembler_ok_def MAX_IN_FLIGHT_def MAX_DATA_IN_FLIGHT_def)

text \<open>
  C5: The fragments \<open>split\<close> makes of a message are put together to that message by the
  receiver, in whatever order they arrive within ten seconds, from any state of the
  reassembler in which the identifier is unused and, for a control message, a slot is free.
\<close>

theorem fragments_reassemble:
  assumes "split_fragments kind payload fid = Inr frags" "fragmentable kind payload"
    and "mset (map fst evs) = mset frags"
    and "reassembler_ok r" "fid \<notin> hkeys r" "kind = Control \<longrightarrow> class_count True r < 4"
    and "\<forall>now \<in> set (map snd evs). now - snd (hd evs) < ASSEMBLY_TTL"
  shows "fst (accept_all r evs) = replicate (length frags - 1) (Inr None) @
    [Inr (Some \<lparr>ra_kind = kind, ra_payload = payload, ra_fec = None\<rparr>)]"
proof -
  note f = split_pieces [OF assms(1,2)]
  have p: "parse_fragment (fragment_bytes kind fid (length payload) (i, piece payload (i * FRAGMENT_DATA_SIZE))) =
      Inr (header_of kind fid None payload (i * FRAGMENT_DATA_SIZE))"
    if "i < (length payload + FRAGMENT_DATA_SIZE - 1) div FRAGMENT_DATA_SIZE" for i
    using assms(2) refl piece_index [OF that] by (rule parse_plain)
  have "map (fh_offset \<circ> projr \<circ> parse_fragment) frags = offsets (length payload)"
    unfolding f offsets_def using p by simp
  moreover have "\<exists>off. parse_fragment bs = Inr (header_of kind fid None payload off)" if "bs \<in> set frags" for bs
    using that p unfolding f by auto
  ultimately show ?thesis
    using assms by (intro reassemble_all) (simp_all add: MAX_IN_FLIGHT_def)
qed

theorem fragments_reassemble_witness:
  "\<exists>frags. split_fragments Data (replicate 1000 7) 5 = Inr frags \<and> length frags = 2 \<and>
     fst (accept_all [] (zip (rev frags) [0, 1])) =
       [Inr None, Inr (Some \<lparr>ra_kind = Data, ra_payload = replicate 1000 7, ra_fec = None\<rparr>)]"
proof -
  have f: "fragmentable Data (replicate 1000 7)"
    by (simp add: fragmentable_def MAX_PACKET_SIZE_def MAX_REASSEMBLED_SIZE_def MAX_MGMT_BODY_SIZE_def)
  then obtain frags where s: "split_fragments Data (replicate 1000 7) 5 = Inr frags"
    by (auto simp: split_fragments_def fragmentable_def)
  have l: "length frags = 2"
    using split_pieces [OF s f] by (simp add: FRAGMENT_DATA_SIZE_def)
  then obtain a b where ab: "frags = [a, b]" by (auto simp: numeral_2_eq_2 length_Suc_conv)
  have "fst (accept_all [] (zip (rev frags) [0, 1])) = replicate (length frags - 1) (Inr None) @
      [Inr (Some \<lparr>ra_kind = Data, ra_payload = replicate 1000 7, ra_fec = None\<rparr>)]"
    by (rule fragments_reassemble [OF s f])
      (simp_all add: reassembler_ok_empty ab ASSEMBLY_TTL_def add_mset_commute)
  then show ?thesis using s l by simp
qed

text \<open>
  A data packet under FEC that was split with its group metadata comes out of the
  reassembler with exactly that metadata, in whatever order the fragments arrive.
\<close>

lemma fec_fragments_reassemble:
  assumes "split_fec_data payload meta fid = Inr frags" "payload \<noteq> []"
    and "mset (map fst evs) = mset frags" "reassembler_ok r" "fid \<notin> hkeys r"
    and "\<forall>now \<in> set (map snd evs). now - snd (hd evs) < ASSEMBLY_TTL"
  shows "fst (accept_all r evs) = replicate (length frags - 1) (Inr None) @
    [Inr (Some \<lparr>ra_kind = Data, ra_payload = payload, ra_fec = Some meta\<rparr>)]"
proof -
  have m: "md_group_size meta \<noteq> 0" "md_index meta < md_group_size meta" "length payload \<le> MAX_PACKET_SIZE"
    using assms(1) by (auto simp: split_fec_data_def split: if_splits)
  then obtain ps where s: "split_fragments Data payload fid = Inr ps"
    and r: "map_result (add_metadata meta) ps = Inr frags"
    using assms(1) by (auto simp: split_fec_data_def bind_eq_Inr split: if_splits)
  have f: "fragmentable Data payload"
    using m assms(2) by (auto simp: fragmentable_def MAX_PACKET_SIZE_def MAX_REASSEMBLED_SIZE_def MAX_MGMT_BODY_SIZE_def)
  note ps = split_pieces [OF s f]
  let ?frag = "\<lambda>i. fragment_bytes Data fid (length payload) (i, piece payload (i * FRAGMENT_DATA_SIZE))"
  have p: "\<exists>bs. add_metadata meta (?frag i) = Inr bs \<and>
      parse_fragment bs = Inr (header_of Data fid (Some meta) payload (i * FRAGMENT_DATA_SIZE))"
    if "i < (length payload + FRAGMENT_DATA_SIZE - 1) div FRAGMENT_DATA_SIZE" for i
    using f refl piece_index [OF that] m(1,2) by (rule parse_fec)
  have "map_result (add_metadata meta) ps = Inr (map (projr \<circ> add_metadata meta) ps)"
    using p unfolding ps by (intro map_result_Inr) force
  then have frags: "frags = map (projr \<circ> add_metadata meta) ps" using r by simp
  have q: "parse_fragment (projr (add_metadata meta (?frag i))) =
      Inr (header_of Data fid (Some meta) payload (i * FRAGMENT_DATA_SIZE))"
    if "i < (length payload + FRAGMENT_DATA_SIZE - 1) div FRAGMENT_DATA_SIZE" for i
    using p [OF that] by auto
  have "map (fh_offset \<circ> projr \<circ> parse_fragment) frags = offsets (length payload)"
    unfolding frags ps offsets_def using q by simp
  moreover have "\<exists>off. parse_fragment bs = Inr (header_of Data fid (Some meta) payload off)" if "bs \<in> set frags" for bs
    using that q unfolding frags ps by auto
  ultimately show ?thesis using assms f by (intro reassemble_all) simp_all
qed

end
