(* ===== verification/Fec_Receiver.thy ===== *)
theory Fec_Receiver
  imports Fec
begin

text \<open>
  The FEC receiver of \<open>aivpn_common::fec\<close>: the invariant its operations keep, and that it
  accepts every member of a group at most once.
\<close>


section \<open>The receiver's invariant\<close>

text \<open>
  The buffers of a pending group have the fixed sizes of the Rust arrays, its counter
  counts the marked indices, and the group is still open: neither complete nor repairable.
\<close>

definition group_shape :: "PendingGroup \<Rightarrow> bool" where
  "group_shape g \<longleftrightarrow>
     length (pg_xor_buf g) = MAX_PACKET_SIZE \<and> pg_xor_len g \<le> MAX_PACKET_SIZE \<and>
     length (pg_seen g) = 4 \<and> unat (pg_count g) = card {i. bitmap_seen (pg_seen g) i} \<and>
     {i. bitmap_seen (pg_seen g) i} \<subseteq> {..< pg_group_size g} \<and>
     (case pg_repair g of None \<Rightarrow> True
      | Some s \<Rightarrow> length (sr_data s) = MAX_PACKET_SIZE \<and> sr_len s \<le> MAX_PACKET_SIZE \<and>
          pg_xor_len g \<le> sr_len s)"

definition group_open :: "PendingGroup \<Rightarrow> bool" where
  "group_open g \<longleftrightarrow> unat (pg_count g) < unat (pg_group_size g) \<and>
     (pg_repair g \<noteq> None \<longrightarrow> Suc (unat (pg_count g)) < unat (pg_group_size g))"

definition pending_ok :: "(u64, PendingGroup) hmap \<Rightarrow> bool" where
  "pending_ok m \<longleftrightarrow> wf_hmap m \<and> length m \<le> MAX_PENDING_GROUPS \<and>
     (\<forall>(k, g) \<in> set m. group_shape g \<and> group_open g)"

definition completed_ok :: "u64 list \<Rightarrow> u64 set \<Rightarrow> bool" where
  "completed_ok order S \<longleftrightarrow> distinct order \<and> set order = S \<and> length order \<le> COMPLETED_GROUPS"

definition retired_ok :: "u64 list \<Rightarrow> (u64, RetiredGroup) hmap \<Rightarrow> bool" where
  "retired_ok order m \<longleftrightarrow> distinct order \<and> set order = hkeys m \<and> wf_hmap m \<and>
     (\<forall>(k, g) \<in> set m. length (rg_seen g) = 4)"

definition rx_inv :: "FecReceiver \<Rightarrow> bool" where
  "rx_inv r \<longleftrightarrow>
     pending_ok (fr_pending r) \<and> completed_ok (fr_completed r) (fr_completed_set r) \<and>
     retired_ok (fr_retired_order r) (fr_retired r) \<and> length (fr_retired_order r) \<le> RETIRED_GROUPS \<and>
     hkeys (fr_pending r) \<inter> fr_completed_set r = {} \<and>
     hkeys (fr_pending r) \<inter> hkeys (fr_retired r) = {} \<and>
     hkeys (fr_retired r) \<inter> fr_completed_set r = {}"

lemma pending_ok_delete: "pending_ok m \<Longrightarrow> pending_ok (AList.delete k m)"
  using length_delete [of k m] set_delete_subset [of k m] by (auto simp: pending_ok_def)

lemma pending_ok_update:
  assumes "pending_ok m" "group_shape g" "group_open g"
    and "contains_key k m \<or> length m < MAX_PENDING_GROUPS"
  shows "pending_ok (AList.update k g m)"
  using assms set_update_subset [of k g m] by (auto simp: pending_ok_def length_update)

lemma retired_ok_delete:
  "retired_ok (k # order) m \<Longrightarrow> retired_ok order (AList.delete k m)"
  using set_delete_subset [of k m] by (auto simp: retired_ok_def)

lemma retired_ok_update:
  assumes "retired_ok order m" "length (rg_seen g) = 4"
  shows "retired_ok (if k \<in> set order then order else order @ [k]) (AList.update k g m)"
  using assms set_update_subset [of k g m] by (auto simp: retired_ok_def)

lemma trim_retired:
  "retired_ok order m \<Longrightarrow> trim_retired order m = (order', m') \<Longrightarrow>
   retired_ok order' m' \<and> length order' \<le> RETIRED_GROUPS \<and> hkeys m' \<subseteq> hkeys m \<and>
   (\<forall>k. map_of m' k = None \<or> map_of m' k = map_of m k)"
proof (induction order m rule: trim_retired.induct)
  case (2 old order m)
  show ?case
  proof (cases "length (old # order) > RETIRED_GROUPS")
    case True
    have "retired_ok order (AList.delete old m)" using "2.prems"(1) by (rule retired_ok_delete)
    then show ?thesis
      using "2.IH" [OF True] "2.prems"(2) True
      by (auto simp: delete_conv' split: if_splits)
  qed (use "2.prems" in auto)
qed simp

lemma remember_incomplete_inv:
  assumes "rx_inv r" "length seen = 4" "seq \<notin> hkeys (fr_pending r)" "seq \<notin> fr_completed_set r"
  shows "rx_inv (remember_incomplete r seq n seen)"
proof (cases "map_of (fr_retired r) seq")
  case (Some g)
  then have m: "(seq, g) \<in> set (fr_retired r)" by (rule map_of_SomeD)
  have ok: "retired_ok (fr_retired_order r) (fr_retired r)" using assms(1) by (simp add: rx_inv_def)
  have "seq \<in> set (fr_retired_order r)" "length (rg_seen g) = 4"
    using ok m by (auto simp: retired_ok_def hkeys_def rev_image_eqI)
  then show ?thesis
    using assms Some retired_ok_update [of "fr_retired_order r" "fr_retired r"
        "g \<lparr>rg_seen := map2 (OR) (rg_seen g) seen\<rparr>" seq]
    by (auto simp: rx_inv_def remember_incomplete_def)
next
  case None
  then have "seq \<notin> set (fr_retired_order r)"
    using assms(1) by (simp add: rx_inv_def retired_ok_def map_of_None_keys)
  then have ok: "retired_ok (fr_retired_order r @ [seq])
      (AList.update seq \<lparr>rg_group_size = n, rg_seen = seen\<rparr> (fr_retired r))"
    using assms retired_ok_update [of "fr_retired_order r" "fr_retired r"
        "\<lparr>rg_group_size = n, rg_seen = seen\<rparr>" seq] by (simp add: rx_inv_def)
  obtain order m where t: "trim_retired (fr_retired_order r @ [seq])
      (AList.update seq \<lparr>rg_group_size = n, rg_seen = seen\<rparr> (fr_retired r)) = (order, m)" by force
  show ?thesis
    using trim_retired [OF ok t] assms None
    by (auto simp: rx_inv_def remember_incomplete_def t)
qed

lemma trim_retired_keys: "trim_retired order m = (order', m') \<Longrightarrow> hkeys m' \<subseteq> hkeys m"
  by (induction order m rule: trim_retired.induct) (auto split: if_splits)

lemma remember_incomplete_fields [simp]:
  "fr_pending (remember_incomplete r seq n seen) = fr_pending r"
  "fr_completed (remember_incomplete r seq n seen) = fr_completed r"
  "fr_completed_set (remember_incomplete r seq n seen) = fr_completed_set r"
  "fr_highest_group (remember_incomplete r seq n seen) = fr_highest_group r"
  "hkeys (fr_retired (remember_incomplete r seq n seen)) \<subseteq> insert seq (hkeys (fr_retired r))"
  using trim_retired_keys [of "fr_retired_order r @ [seq]"
      "AList.update seq \<lparr>rg_group_size = n, rg_seen = seen\<rparr> (fr_retired r)"]
  by (auto simp: remember_incomplete_def Let_def map_of_Some_keys split: option.splits prod.splits)

lemma retire_fields [simp]:
  "fr_pending (retire r k) = AList.delete k (fr_pending r)"
  "fr_completed (retire r k) = fr_completed r"
  "fr_completed_set (retire r k) = fr_completed_set r"
  "fr_highest_group (retire r k) = fr_highest_group r"
  by (auto simp: retire_def map_of_None_keys hkeys_def split: option.splits intro!: delete_id [symmetric])

lemma retire_keeps: "pos \<notin> hkeys (fr_retired r) \<Longrightarrow> pos \<noteq> k \<Longrightarrow> pos \<notin> hkeys (fr_retired (retire r k))"
  using remember_incomplete_fields(5) [of "r \<lparr>fr_pending := AList.delete k (fr_pending r)\<rparr>" k]
  by (auto simp: retire_def split: option.splits)

lemma retire_inv: "rx_inv r \<Longrightarrow> rx_inv (retire r k)"
proof (cases "map_of (fr_pending r) k")
  case (Some g)
  assume inv: "rx_inv r"
  have g: "(k, g) \<in> set (fr_pending r)" "k \<in> hkeys (fr_pending r)"
    using Some by (auto dest: map_of_SomeD map_of_Some_keys)
  have d: "rx_inv (r \<lparr>fr_pending := AList.delete k (fr_pending r)\<rparr>)"
    using inv pending_ok_delete by (auto simp: rx_inv_def)
  have "length (pg_seen g) = 4" "k \<notin> fr_completed_set r"
    using inv g by (auto simp: rx_inv_def pending_ok_def group_shape_def)
  then show ?thesis
    using remember_incomplete_inv [OF d] Some by (simp add: retire_def)
qed (simp add: retire_def)

definition live :: "instant \<Rightarrow> PendingGroup \<Rightarrow> bool" where
  "live now g \<longleftrightarrow> now - pg_created g < PENDING_TTL"

lemma retire_all:
  shows "fr_completed (foldl retire r ks) = fr_completed r"
    and "fr_completed_set (foldl retire r ks) = fr_completed_set r"
    and "fr_highest_group (foldl retire r ks) = fr_highest_group r"
    and "map_of (fr_pending (foldl retire r ks)) pos =
      (if pos \<in> set ks then None else map_of (fr_pending r) pos)"
    and "pos \<notin> hkeys (fr_retired r) \<Longrightarrow> pos \<notin> set ks \<Longrightarrow>
      pos \<notin> hkeys (fr_retired (foldl retire r ks))"
    and "rx_inv r \<Longrightarrow> rx_inv (foldl retire r ks)"
  by (induction ks arbitrary: r) (auto simp: delete_conv' retire_keeps retire_inv)

lemma sweep_fields [simp]:
  "fr_completed (sweep r now) = fr_completed r"
  "fr_completed_set (sweep r now) = fr_completed_set r"
  "fr_highest_group (sweep r now) = fr_highest_group r"
  by (simp_all add: sweep_def Let_def retire_all)

lemma sweep_inv: "rx_inv r \<Longrightarrow> rx_inv (sweep r now)"
  by (simp add: sweep_def Let_def retire_all)

lemma sweep_keeps:
  assumes "rx_inv r" "\<forall>g. map_of (fr_pending r) pos = Some g \<longrightarrow> live now g"
  shows "map_of (fr_pending (sweep r now)) pos = map_of (fr_pending r) pos"
    and "pos \<notin> hkeys (fr_retired r) \<Longrightarrow> pos \<notin> hkeys (fr_retired (sweep r now))"
proof -
  let ?ks = "map fst (filter (\<lambda>(_, grp). now - pg_created grp \<ge> PENDING_TTL) (fr_pending r))"
  have "wf_hmap (fr_pending r)" using assms(1) by (simp add: rx_inv_def pending_ok_def)
  then have "pos \<notin> set ?ks" using assms(2) by (force simp: live_def dest: map_of_in)
  then show "map_of (fr_pending (sweep r now)) pos = map_of (fr_pending r) pos"
    "pos \<notin> hkeys (fr_retired r) \<Longrightarrow> pos \<notin> hkeys (fr_retired (sweep r now))"
    using retire_all(4) [of r ?ks pos] retire_all(5) [of pos r ?ks]
    by (simp_all add: sweep_def Let_def)
qed

lemma advance_fields [simp]:
  "fr_pending (snd (advance r seq)) = fr_pending r"
  "fr_completed (snd (advance r seq)) = fr_completed r"
  "fr_completed_set (snd (advance r seq)) = fr_completed_set r"
  "fr_retired (snd (advance r seq)) = fr_retired r"
  "fr_retired_order (snd (advance r seq)) = fr_retired_order r"
  "fst (advance r seq) = position r seq"
  by (simp_all add: advance_def Let_def)

lemma advance_inv: "rx_inv r \<Longrightarrow> rx_inv (snd (advance r seq))"
  by (simp add: rx_inv_def)

lemma complete_group_inv:
  assumes "rx_inv (r \<lparr>fr_pending := AList.delete seq (fr_pending r)\<rparr>)" "seq \<notin> hkeys (fr_retired r)"
  shows "rx_inv (complete_group r seq)"
proof (cases "seq \<in> fr_completed_set r")
  case False
  obtain old rest where c: "fr_completed r @ [seq] = old # rest" by (cases "fr_completed r") auto
  have "completed_ok (if length (fr_completed r @ [seq]) > COMPLETED_GROUPS then rest
      else fr_completed r @ [seq]) (if length (fr_completed r @ [seq]) > COMPLETED_GROUPS
      then insert seq (fr_completed_set r) - {old} else insert seq (fr_completed_set r))"
    using assms(1) False arg_cong [OF c, of distinct] arg_cong [OF c, of set] arg_cong [OF c, of length]
    by (auto simp: rx_inv_def completed_ok_def)
  then show ?thesis
    using assms False c
    by (auto simp: rx_inv_def complete_group_def Let_def)
qed (use assms in \<open>simp add: complete_group_def\<close>)

lemma ensure_group_fields:
  assumes "ensure_group r seq n now = Inr (g, r')"
  shows "fr_completed r' = fr_completed r" "fr_completed_set r' = fr_completed_set r"
    "fr_highest_group r' = fr_highest_group r" "map_of (fr_pending r') seq = Some g"
  using assms by (auto simp: ensure_group_def Let_def update_conv' split: option.splits if_splits prod.splits)

lemma fresh_group_ok: "n \<noteq> 0 \<Longrightarrow> group_shape (fresh_group n now t) \<and> group_open (fresh_group n now t)"
  by (auto simp: group_shape_def group_open_def fresh_group_def unat_gt_0)

lemma ensure_group_inv:
  assumes "rx_inv r" "ensure_group r seq n now = Inr (g, r')" "n \<noteq> 0"
    "seq \<notin> fr_completed_set r" "seq \<notin> hkeys (fr_retired r)"
  shows "rx_inv r' \<and> seq \<notin> hkeys (fr_retired r')"
proof (cases "map_of (fr_pending r) seq")
  case None
  let ?r = "if length (fr_pending r) \<ge> MAX_PENDING_GROUPS
    then (case min_by_key (\<lambda>(_, g). (pg_created g, pg_ticket g)) (fr_pending r) of
            None \<Rightarrow> r | Some (oldest, _) \<Rightarrow> retire r oldest) else r"
  have room: "rx_inv ?r \<and> length (fr_pending ?r) < MAX_PENDING_GROUPS \<and> seq \<notin> hkeys (fr_retired ?r)
      \<and> fr_completed_set ?r = fr_completed_set r"
  proof (cases "min_by_key (\<lambda>(_, g). (pg_created g, pg_ticket g)) (fr_pending r)")
    case (Some kg)
    obtain k g where kg: "kg = (k, g)" by force
    have k: "k \<in> hkeys (fr_pending r)"
      using min_by_key_in [OF Some] kg by (force simp: hkeys_def)
    then have "k \<noteq> seq" using None by (auto simp: map_of_None_keys)
    moreover have "length (AList.delete k (fr_pending r)) < length (fr_pending r)"
      using k by (intro length_delete_in) simp
    ultimately show ?thesis
      using assms Some kg by (auto simp: retire_inv retire_keeps rx_inv_def [of r] pending_ok_def)
  qed (use assms in \<open>auto simp: MAX_PENDING_GROUPS_def\<close>)
  have "r' = ?r \<lparr>fr_next_ticket := fr_next_ticket ?r + 1,
      fr_pending := AList.update seq (fresh_group n now (fr_next_ticket ?r)) (fr_pending ?r)\<rparr>"
    using assms(2) None by (auto simp: ensure_group_def Let_def)
  then show ?thesis
    using room assms(3,4) pending_ok_update [of "fr_pending ?r" "fresh_group n now (fr_next_ticket ?r)" seq]
      fresh_group_ok [of n now "fr_next_ticket ?r"]
    by (auto simp: rx_inv_def)
qed (use assms in \<open>auto simp: ensure_group_def split: if_splits\<close>)

definition absorb_member :: "PendingGroup \<Rightarrow> bytes \<Rightarrow> u8 \<Rightarrow> PendingGroup" where
  "absorb_member g payload index =
     (let g = PendingGroup_absorb g payload;
          g = g \<lparr>pg_seen := bitmap_mark (pg_seen g) index\<rparr>
      in g \<lparr>pg_count := (if pg_count g = - 1 then - 1 else pg_count g + 1)\<rparr>)"

lemma group_open_count:
  "group_open g \<Longrightarrow> pg_count g \<noteq> - 1 \<and> unat (pg_count g + 1) = Suc (unat (pg_count g))"
  using unat_add_one [of "pg_count g" "pg_group_size g"]
  by (auto simp: group_open_def)

lemma absorb_member_shape:
  assumes "group_shape g" "group_open g" "\<not> bitmap_seen (pg_seen g) i" "i < pg_group_size g"
    and "length p \<le> MAX_PACKET_SIZE" "\<forall>s. pg_repair g = Some s \<longrightarrow> length p \<le> sr_len s"
  shows "group_shape (absorb_member g p i)"
proof -
  have "{j. bitmap_seen (bitmap_mark (pg_seen g) i) j} = insert i {j. bitmap_seen (pg_seen g) j}"
    using assms(1) by (auto simp: bitmap_mark_seen group_shape_def)
  then show ?thesis
    using assms group_open_count [OF assms(2)]
    by (auto simp: group_shape_def absorb_member_def PendingGroup_absorb_def Let_def split: option.splits)
qed

lemma absorb_member_fields [simp]:
  "pg_group_size (absorb_member g p i) = pg_group_size g"
  "pg_repair (absorb_member g p i) = pg_repair g"
  "pg_created (absorb_member g p i) = pg_created g"
  "group_open g \<Longrightarrow> unat (pg_count (absorb_member g p i)) = Suc (unat (pg_count g))"
  "pg_seen (absorb_member g p i) = bitmap_mark (pg_seen g) i"
  "pg_xor_buf (absorb_member g p i) = xor_zip (pg_xor_buf g) p"
  "pg_xor_len (absorb_member g p i) = max (pg_xor_len g) (length p)"
  using group_open_count [of g]
  by (auto simp: absorb_member_def PendingGroup_absorb_def Let_def)

lemma store_repair_fields [simp]:
  "pg_group_size (store_repair g x) = pg_group_size g" "pg_count (store_repair g x) = pg_count g"
  "pg_created (store_repair g x) = pg_created g" "pg_seen (store_repair g x) = pg_seen g"
  "pg_xor_buf (store_repair g x) = pg_xor_buf g" "pg_xor_len (store_repair g x) = pg_xor_len g"
  by (simp_all add: store_repair_def)

lemma store_repair_shape:
  "group_shape g \<Longrightarrow> length x \<le> MAX_PACKET_SIZE \<Longrightarrow> pg_xor_len g \<le> length x \<Longrightarrow>
   group_shape (store_repair g x)"
  by (auto simp: group_shape_def store_repair_def)

lemma repair_count:
  "n \<noteq> 0 \<Longrightarrow> c = n - 1 \<longleftrightarrow> Suc (unat c) = unat (n :: u8)"
  using unat_gt_0 [of n] by (auto simp: word_unat_eq_iff [of c] unat_minus_one)

lemma finish_cases:
  assumes "map_of (fr_pending r) pos = Some g" "pg_group_size g \<noteq> 0"
  shows "finish r pos acc =
    (if unat (pg_count g) = unat (pg_group_size g)
     then (\<lparr>accepted = acc, recovered = None, complete = True\<rparr>, complete_group r pos)
     else if Suc (unat (pg_count g)) = unat (pg_group_size g) \<and> pg_repair g \<noteq> None
     then (\<lparr>accepted = acc, recovered = missing_packet g, complete = True\<rparr>, complete_group r pos)
     else (\<lparr>accepted = acc, recovered = None, complete = False\<rparr>, r))"
  using assms by (auto simp: finish_def Let_def repair_count word_unat_eq_iff [symmetric] word_le_nat_alt
      unat_gt_0 Suc_le_eq)

lemma finish_inv:
  assumes "rx_inv r" "pos \<in> hkeys (fr_pending r)" "pos \<notin> hkeys (fr_retired r)"
    and "group_shape g" "unat (pg_count g) \<le> unat (pg_group_size g)" "pg_group_size g \<noteq> 0"
  shows "rx_inv (snd (finish (r \<lparr>fr_pending := AList.update pos g (fr_pending r)\<rparr>) pos acc))"
proof -
  let ?r = "r \<lparr>fr_pending := AList.update pos g (fr_pending r)\<rparr>"
  have "map_of (fr_pending ?r) pos = Some g" by (simp add: update_conv')
  note f = finish_cases [OF this assms(6), of acc]
  have c: "rx_inv (complete_group ?r pos)"
    using assms(1,3) by (intro complete_group_inv) (auto simp: rx_inv_def pending_ok_delete)
  have "rx_inv ?r" if "group_open g"
    using assms that pending_ok_update [of "fr_pending r" g pos] by (auto simp: rx_inv_def)
  moreover have "group_open g" if "unat (pg_count g) \<noteq> unat (pg_group_size g)"
      "\<not> (Suc (unat (pg_count g)) = unat (pg_group_size g) \<and> pg_repair g \<noteq> None)"
    using that assms(5) by (auto simp: group_open_def)
  ultimately show ?thesis using c by (simp add: f)
qed

lemma position_highest: "fr_highest_group r = fr_highest_group r' \<Longrightarrow> position r = position r'"
  by (simp add: position_def fun_eq_iff)

lemma position_sweep [simp]: "position (sweep r now) = position r"
  by (intro position_highest) simp

text \<open>What \<open>record\<close> does with a valid member, in the state after sweeping and advancing.\<close>

lemma record_valid:
  assumes "validate_member meta (length p) = Inr ()" "position r (md_group_seq meta) = pos"
    and "snd (advance (sweep r now) (md_group_seq meta)) = r1"
  shows "FecReceiver_record r meta p now =
    (if pos \<in> fr_completed_set r1 then (Inr ignored, r1)
     else case map_of (fr_retired r1) pos of
       Some grp \<Rightarrow>
         (if rg_group_size grp \<noteq> md_group_size meta
          then (Inl (InvalidPacket ''Conflicting FEC group size''), r1)
          else if bitmap_seen (rg_seen grp) (md_index meta) then (Inr ignored, r1)
          else (Inr \<lparr>accepted = True, recovered = None, complete = False\<rparr>,
                r1 \<lparr>fr_retired := AList.update pos
                     (grp \<lparr>rg_seen := bitmap_mark (rg_seen grp) (md_index meta)\<rparr>) (fr_retired r1)\<rparr>))
     | None \<Rightarrow>
         (case ensure_group r1 pos (md_group_size meta) now of
            Inl e \<Rightarrow> (Inl e, r1)
          | Inr (grp, r2) \<Rightarrow>
              (if bitmap_seen (pg_seen grp) (md_index meta) then (Inr ignored, r2)
               else if (\<exists>s. pg_repair grp = Some s \<and> sr_len s < length p)
               then (Inl (InvalidPacket ''FEC data exceeds repair length''), r2)
               else apfst Inr (finish (r2 \<lparr>fr_pending := AList.update pos
                 (absorb_member grp p (md_index meta)) (fr_pending r2)\<rparr>) pos True))))"
proof -
  have a: "advance (sweep r now) (md_group_seq meta) = (pos, r1)"
    using assms by (metis advance_fields(6) position_sweep prod.collapse)
  note d = FecReceiver_record_def assms(1) a accept_retired_def Let_def absorb_member_def
  show ?thesis
  proof (cases "map_of (fr_retired r1) pos")
    case None
    then show ?thesis
      by (cases "ensure_group r1 pos (md_group_size meta) now")
        (auto simp: d apfst_def map_prod_def split: prod.splits option.splits)
  next
    case (Some g)
    then show ?thesis by (simp add: d)
  qed
qed

lemma repair_valid:
  assumes "rp_group_size rep \<noteq> 0" "rp_xor_data rep \<noteq> []" "length (rp_xor_data rep) \<le> MAX_PACKET_SIZE"
    and "position r (rp_group_seq rep) = pos" "snd (advance (sweep r now) (rp_group_seq rep)) = r1"
  shows "FecReceiver_repair r rep now =
    (if pos \<in> fr_completed_set r1 then (Inr ignored, r1)
     else case map_of (fr_retired r1) pos of
       Some g \<Rightarrow>
         (if rg_group_size g \<noteq> rp_group_size rep
          then (Inl (InvalidPacket ''Conflicting FEC group size''), r1) else (Inr ignored, r1))
     | None \<Rightarrow>
         (case ensure_group r1 pos (rp_group_size rep) now of
            Inl e \<Rightarrow> (Inl e, r1)
          | Inr (grp, r2) \<Rightarrow>
              (case pg_repair grp of
                 Some s \<Rightarrow>
                   (if \<not> (sr_len s = length (rp_xor_data rep) \<and>
                          take (sr_len s) (sr_data s) = rp_xor_data rep)
                    then (Inl (InvalidPacket ''Conflicting FEC repair''), r2)
                    else (Inr ignored, r2))
               | None \<Rightarrow>
                   (if length (rp_xor_data rep) < pg_xor_len grp
                    then (Inl (InvalidPacket ''FEC repair is shorter than data''), r2)
                    else apfst Inr (finish (r2 \<lparr>fr_pending := AList.update pos
                      (store_repair grp (rp_xor_data rep)) (fr_pending r2)\<rparr>) pos True)))))"
proof -
  have a: "advance (sweep r now) (rp_group_seq rep) = (pos, r1)"
    using assms by (metis advance_fields(6) position_sweep prod.collapse)
  show ?thesis
    using assms(1-3) unfolding FecReceiver_repair_def a Let_def
    by (auto simp: apfst_def map_prod_def split: prod.splits option.splits sum.splits)
qed

lemma ensured_group:
  assumes "rx_inv r'" "map_of (fr_pending r') pos = Some g"
  shows "group_shape g" "group_open g" "pg_group_size g \<noteq> 0" "pos \<in> hkeys (fr_pending r')"
proof -
  show g: "group_shape g" "group_open g"
    using assms map_of_SomeD [OF assms(2)] by (auto simp: rx_inv_def pending_ok_def)
  then show "pg_group_size g \<noteq> 0" by (auto simp: group_open_def)
  show "pos \<in> hkeys (fr_pending r')" using assms(2) by (rule map_of_Some_keys)
qed

lemma validate_member_ok:
  "validate_member meta n = Inr () \<longleftrightarrow>
   md_group_size meta \<noteq> 0 \<and> md_index meta < md_group_size meta \<and> 0 < n \<and> n \<le> MAX_PACKET_SIZE"
  by (auto simp: validate_member_def)

lemma ensure_group_size: "ensure_group r seq n now = Inr (g, r') \<Longrightarrow> pg_group_size g = n"
  by (auto simp: ensure_group_def Let_def fresh_group_def split: option.splits if_splits prod.splits)

lemma record_inv:
  assumes "rx_inv r" shows "rx_inv (snd (FecReceiver_record r meta p now))"
proof (cases "validate_member meta (length p)")
  case (Inr u)
  then have v: "validate_member meta (length p) = Inr ()" by simp
  define pos where "pos = position r (md_group_seq meta)"
  define r1 where "r1 = snd (advance (sweep r now) (md_group_seq meta))"
  have inv: "rx_inv r1" unfolding r1_def using assms by (intro advance_inv sweep_inv)
  note rec = record_valid [OF v pos_def [symmetric] r1_def [symmetric]]
  have ret: "rx_inv (r1 \<lparr>fr_retired := AList.update pos (g \<lparr>rg_seen := bitmap_mark (rg_seen g) i\<rparr>)
      (fr_retired r1)\<rparr>)" if "map_of (fr_retired r1) pos = Some g" for g i
    using inv map_of_SomeD [OF that] map_of_Some_keys [OF that]
      retired_ok_update [of "fr_retired_order r1" "fr_retired r1" "g \<lparr>rg_seen := bitmap_mark (rg_seen g) i\<rparr>" pos]
    by (auto simp: rx_inv_def retired_ok_def)
  show ?thesis
  proof (cases "pos \<in> fr_completed_set r1 \<or> map_of (fr_retired r1) pos \<noteq> None")
    case True
    then show ?thesis using inv ret by (auto simp: rec)
  next
    case False
    show ?thesis
    proof (cases "ensure_group r1 pos (md_group_size meta) now")
      case (Inr gr)
      obtain g r2 where gr: "gr = (g, r2)" by force
      note e = Inr [unfolded gr]
      have r2: "rx_inv r2" "pos \<notin> hkeys (fr_retired r2)"
        using ensure_group_inv [OF inv e] False v by (auto simp: validate_member_ok map_of_None_keys)
      note g = ensured_group [OF r2(1) ensure_group_fields(4) [OF e]]
      show ?thesis
        using False r2 g v ensure_group_size [OF e]
          finish_inv [OF r2(1) g(4) r2(2), of "absorb_member g p (md_index meta)" True]
          absorb_member_shape [OF g(1,2), of "md_index meta" p]
        by (auto simp: rec e validate_member_ok group_open_def not_less)
    qed (use False inv in \<open>auto simp: rec\<close>)
  qed
qed (use assms in \<open>simp add: FecReceiver_record_def\<close>)

lemma repair_inv:
  assumes "rx_inv r" shows "rx_inv (snd (FecReceiver_repair r rep now))"
proof (cases "rp_group_size rep = 0 \<or> rp_xor_data rep = [] \<or> length (rp_xor_data rep) > MAX_PACKET_SIZE")
  case False
  then have v: "rp_group_size rep \<noteq> 0" "rp_xor_data rep \<noteq> []" "length (rp_xor_data rep) \<le> MAX_PACKET_SIZE"
    by auto
  define pos where "pos = position r (rp_group_seq rep)"
  define r1 where "r1 = snd (advance (sweep r now) (rp_group_seq rep))"
  have inv: "rx_inv r1" unfolding r1_def using assms by (intro advance_inv sweep_inv)
  note rec = repair_valid [OF v pos_def [symmetric] r1_def [symmetric]]
  show ?thesis
  proof (cases "pos \<in> fr_completed_set r1 \<or> map_of (fr_retired r1) pos \<noteq> None")
    case True
    then show ?thesis using inv by (auto simp: rec)
  next
    case False
    show ?thesis
    proof (cases "ensure_group r1 pos (rp_group_size rep) now")
      case (Inr gr)
      obtain g r2 where gr: "gr = (g, r2)" by force
      note e = Inr [unfolded gr]
      have r2: "rx_inv r2" "pos \<notin> hkeys (fr_retired r2)"
        using ensure_group_inv [OF inv e] False v by (auto simp: map_of_None_keys)
      note g = ensured_group [OF r2(1) ensure_group_fields(4) [OF e]]
      show ?thesis
        using False r2 g v finish_inv [OF r2(1) g(4) r2(2), of "store_repair g (rp_xor_data rep)" True]
          store_repair_shape [OF g(1), of "rp_xor_data rep"]
        by (auto simp: rec e group_open_def split: option.splits)
    qed (use False inv in \<open>auto simp: rec\<close>)
  qed
qed (use assms in \<open>auto simp: FecReceiver_repair_def\<close>)

section \<open>Group numbers\<close>

text \<open>
  \<open>settled r seq\<close>: advancing to a group does not change which absolute group the 16-bit
  number \<open>seq\<close> stands for.  It holds unless the highest group is within 32768 of the
  end of the 64-bit range, where the position saturates.
\<close>

definition settled :: "FecReceiver \<Rightarrow> u16 \<Rightarrow> bool" where
  "settled r seq \<longleftrightarrow> position (snd (advance r seq)) seq = position r seq"

definition headroom :: "FecReceiver \<Rightarrow> bool" where
  "headroom r \<longleftrightarrow> (case fr_highest_group r of None \<Rightarrow> True | Some h \<Rightarrow> unat h + 32768 < 2 ^ 64)"

lemma unat_ucast_u16 [simp]: "unat (ucast (d :: u16) :: u64) = unat d"
  using unat_bounds(2) [of d] by (simp add: unsigned_ucast_eq take_bit_nat_def)

lemma ucast_ucast_u16 [simp]: "ucast (ucast (d :: u16) :: u64) = d"
  by (simp add: word_unat_eq_iff unsigned_ucast_eq take_bit_word_eq_self)

lemma saturating_add_0 [simp]: "saturating_add64 h 0 = h"
  using unat_bounds(4) [of h] by (simp add: saturating_add64_def)

lemma saturating_sub_le: "saturating_sub64 h d \<le> h"
  by (auto simp: saturating_sub64_def word_le_nat_alt unat_sub)

lemma ucast_add_u16: "ucast (a + b :: u64) = (ucast a + ucast b :: u16)"
  by (simp add: word_unat_eq_iff unsigned_ucast_eq unat_word_ariths take_bit_nat_def mod_mod_cancel
      mod_add_eq)

lemma settled_headroom: "headroom r \<Longrightarrow> settled r seq"
proof (cases "fr_highest_group r")
  case None
  have "ucast (65536 + ucast seq :: u64) = seq"
    by (simp add: ucast_add_u16)
  then show ?thesis using None by (simp add: settled_def advance_def position_def Let_def)
next
  case (Some h)
  assume hr: "headroom r"
  let ?d = "seq - ucast h"
  show ?thesis
  proof (cases "?d < 0x8000")
    case True
    have d: "unat ?d < 32768" using True by (simp add: word_less_nat_alt)
    then have n: "unat h + unat ?d < 2 ^ 64" using hr Some by (simp add: headroom_def)
    then have p: "position r seq = h + ucast ?d"
      using True Some by (simp add: position_def Let_def saturating_add64_def)
    have "h \<le> h + ucast ?d"
      using n by (simp add: word_le_nat_alt unat_word_ariths)
    moreover have "ucast (h + ucast ?d) = seq" by (simp add: ucast_add_u16)
    ultimately show ?thesis
      using p Some by (simp add: settled_def advance_def Let_def) (simp add: position_def)
  next
    case False
    then have "max h (position r seq) = h"
      using Some saturating_sub_le by (simp add: position_def Let_def max_absorb1)
    then show ?thesis using Some by (simp add: settled_def advance_def position_def Let_def)
  qed
qed

lemma advance_again:
  "settled r seq \<Longrightarrow> advance (snd (advance r seq)) seq = (position r seq, snd (advance r seq))"
  by (auto simp: settled_def advance_def [of "snd (advance r seq)"] Let_def)
    (simp add: advance_def Let_def max_def)

section \<open>Every member at most once\<close>

lemma complete_group_fields [simp]:
  "fr_highest_group (complete_group r seq) = fr_highest_group r"
  "fr_retired (complete_group r seq) = fr_retired r"
  by (auto simp: complete_group_def Let_def split: list.splits)

lemma complete_group_remembers:
  assumes "completed_ok (fr_completed r) (fr_completed_set r)"
  shows "seq \<in> fr_completed_set (complete_group r seq)"
  using assms
  by (cases "fr_completed r") (auto simp: complete_group_def Let_def completed_ok_def COMPLETED_GROUPS_def)

lemma finish_highest [simp]: "fr_highest_group (snd (finish r pos acc)) = fr_highest_group r"
  by (auto simp: finish_def Let_def split: option.splits)

lemma fresh_not_seen [simp]: "\<not> bitmap_seen (pg_seen (fresh_group n now t)) i"
  by (simp add: fresh_group_def)

lemma finish_remembers:
  assumes "rx_inv r" "map_of (fr_pending r) pos = Some g0" "pos \<notin> hkeys (fr_retired r)"
    and "group_shape g" "pg_group_size g = n" "n \<noteq> 0" "bitmap_seen (pg_seen g) i"
    and "finish (r \<lparr>fr_pending := AList.update pos g (fr_pending r)\<rparr>) pos True = (res, r')"
    and "position r seq = pos"
  shows "is_duplicate r' \<lparr>md_group_seq = seq, md_group_size = n, md_index = i\<rparr>"
proof -
  let ?r = "r \<lparr>fr_pending := AList.update pos g (fr_pending r)\<rparr>"
  have g: "map_of (fr_pending ?r) pos = Some g" by (simp add: update_conv')
  have r': "r' = complete_group ?r pos \<or> r' = ?r"
    using assms(5,6,8) by (auto simp: finish_cases [OF g] split: if_splits)
  have "position r' seq = pos"
    using assms(8,9) position_highest [of r' r] finish_highest [of ?r pos True] by simp
  moreover have "pos \<in> fr_completed_set (complete_group ?r pos)"
    using assms(1) by (intro complete_group_remembers) (simp add: rx_inv_def)
  ultimately show ?thesis
    using assms(5,7) g r' by (elim disjE) (simp_all add: is_duplicate_def)
qed

lemma record_once:
  assumes "rx_inv r" "headroom r" "FecReceiver_record r meta p now = (Inr res, r')" "accepted res"
  shows "\<not> is_duplicate (sweep r now) meta \<and> is_duplicate r' meta"
proof -
  define pos where "pos = position r (md_group_seq meta)"
  define r1 where "r1 = snd (advance (sweep r now) (md_group_seq meta))"
  have v: "validate_member meta (length p) = Inr ()"
    using assms(3) by (cases "validate_member meta (length p)") (auto simp: FecReceiver_record_def)
  note rec = record_valid [OF v pos_def [symmetric] r1_def [symmetric]]
  have inv: "rx_inv r1" unfolding r1_def using assms(1) by (intro advance_inv sweep_inv)
  have "headroom (sweep r now)" using assms(2) by (simp add: headroom_def)
  then have p1: "position r1 (md_group_seq meta) = pos"
    using settled_headroom [of "sweep r now" "md_group_seq meta"] by (simp add: settled_def r1_def pos_def)
  have s: "fr_pending (sweep r now) = fr_pending r1" "fr_completed_set (sweep r now) = fr_completed_set r1"
    "fr_retired (sweep r now) = fr_retired r1" "position (sweep r now) (md_group_seq meta) = pos"
    by (simp_all add: r1_def pos_def)
  have c: "pos \<notin> fr_completed_set r1"
    using assms(3,4) by (auto simp: rec ignored_def)
  show ?thesis
  proof (cases "map_of (fr_retired r1) pos")
    case (Some g)
    have n: "map_of (fr_pending r1) pos = None"
      using inv map_of_Some_keys [OF Some] by (auto simp: rx_inv_def map_of_None_keys)
    have "length (rg_seen g) = 4"
      using inv map_of_SomeD [OF Some] by (auto simp: rx_inv_def retired_ok_def)
    then show ?thesis
      using assms(3,4) c Some n s p1
      by (auto simp: rec is_duplicate_def Let_def ignored_def update_conv' bitmap_mark_seen
          position_highest [of "r1 \<lparr>fr_retired := _\<rparr>" r1] split: if_splits)
  next
    case None
    obtain g r2 where e: "ensure_group r1 pos (md_group_size meta) now = Inr (g, r2)"
      using assms(3) c None by (cases "ensure_group r1 pos (md_group_size meta) now") (auto simp: rec)
    have r2: "rx_inv r2" "pos \<notin> hkeys (fr_retired r2)"
      using ensure_group_inv [OF inv e] c None v by (auto simp: validate_member_ok map_of_None_keys)
    note g = ensured_group [OF r2(1) ensure_group_fields(4) [OF e]]
    have f: "\<not> bitmap_seen (pg_seen g) (md_index meta)"
      "\<forall>s. pg_repair g = Some s \<longrightarrow> length p \<le> sr_len s"
      "finish (r2 \<lparr>fr_pending := AList.update pos (absorb_member g p (md_index meta)) (fr_pending r2)\<rparr>)
         pos True = (res, r')"
      using assms(3,4) c None e by (auto simp: rec ignored_def not_less apfst_def map_prod_def
          split: if_splits prod.splits)
    have "position r2 (md_group_seq meta) = pos"
      using p1 position_highest [OF ensure_group_fields(3) [OF e]] by simp
    moreover have "group_shape (absorb_member g p (md_index meta))"
      using absorb_member_shape [OF g(1,2) f(1) _ _ f(2)] v ensure_group_size [OF e]
      by (simp add: validate_member_ok)
    moreover have "bitmap_seen (bitmap_mark (pg_seen g) (md_index meta)) (md_index meta)"
      using g(1) by (simp add: bitmap_mark_seen group_shape_def)
    ultimately have "is_duplicate r' \<lparr>md_group_seq = md_group_seq meta,
        md_group_size = md_group_size meta, md_index = md_index meta\<rparr>"
      using g(3) ensure_group_size [OF e]
      by (intro finish_remembers [OF r2(1) ensure_group_fields(4) [OF e] r2(2) _ _ _ _ f(3)]) simp_all
    moreover have "\<not> is_duplicate (sweep r now) meta"
      using e f(1) c None s by (auto simp: is_duplicate_def Let_def ensure_group_def split: option.splits if_splits)
    ultimately show ?thesis by (cases meta) simp
  qed
qed

end
