(* ===== verification/Fec_Recovery.thy ===== *)
theory Fec_Recovery
  imports Fec_Receiver Interfaces
begin

text \<open>
  What the FEC encoder and receiver of \<open>aivpn_common::fec\<close> achieve together: the receiver
  returns the one packet of a group that was lost.  The properties of the FEC layer are at
  the end.
\<close>

section \<open>One lost packet is recovered\<close>

text \<open>
  A pending group that has taken the members with the indices \<open>js\<close> of the packets \<open>ps\<close>,
  and the repair packet when \<open>rep\<close> is set.
\<close>

definition holds_members :: "bytes list \<Rightarrow> nat list \<Rightarrow> bool \<Rightarrow> instant \<Rightarrow> PendingGroup \<Rightarrow> bool" where
  "holds_members ps js rep t g \<longleftrightarrow>
     pg_group_size g = of_nat (length ps) \<and> pg_created g = t \<and> unat (pg_count g) = length js \<and>
     length (pg_xor_buf g) = MAX_PACKET_SIZE \<and>
     (\<forall>i < MAX_PACKET_SIZE. pg_xor_buf g ! i = xor_at (map (nth ps) js) i) \<and>
     pg_xor_len g = max_length (map (nth ps) js) \<and> length (pg_seen g) = 4 \<and>
     (\<forall>k < 256. bitmap_seen (pg_seen g) (of_nat k) \<longleftrightarrow> k \<in> set js) \<and>
     (if rep then \<exists>s. pg_repair g = Some s \<and> sr_len s = max_length ps \<and>
                      (\<forall>i < MAX_PACKET_SIZE. sr_data s ! i = xor_at ps i)
      else pg_repair g = None)"

text \<open>The packets of a group as the sender produces them.\<close>

definition group_packets :: "bytes list \<Rightarrow> bool" where
  "group_packets ps \<longleftrightarrow> ps \<noteq> [] \<and> length ps < 256 \<and> (\<forall>p \<in> set ps. p \<noteq> [] \<and> length p \<le> MAX_PACKET_SIZE)"

lemma unat_of_small: "n < 256 \<Longrightarrow> unat (of_nat n :: u8) = n"
  by (simp add: unat_of_nat)

lemma of_small_eq: "a < 256 \<Longrightarrow> b < 256 \<Longrightarrow> (of_nat a :: u8) = of_nat b \<longleftrightarrow> a = b"
  by (metis unat_of_small)

lemma group_size_ok:
  assumes "group_packets ps"
  shows "(of_nat (length ps) :: u8) \<noteq> 0" "unat (of_nat (length ps) :: u8) = length ps"
    "max_length ps \<le> MAX_PACKET_SIZE" "0 < max_length ps"
proof -
  show u: "unat (of_nat (length ps) :: u8) = length ps" using assms by (simp add: group_packets_def unat_of_small)
  then show "(of_nat (length ps) :: u8) \<noteq> 0" using assms by (auto simp: group_packets_def)
  show "max_length ps \<le> MAX_PACKET_SIZE" using assms by (intro max_length_bound) (simp add: group_packets_def)
  show "0 < max_length ps"
    using assms max_length_member [of "hd ps" ps]
    by (auto simp: group_packets_def intro: less_le_trans [of 0 "length (hd ps)"])
qed

lemma holds_fresh: "holds_members ps [] False now (fresh_group (of_nat (length ps)) now t)"
  by (simp add: holds_members_def) (simp add: fresh_group_def)

lemma holds_absorb:
  assumes "holds_members ps js rep t g" "k \<notin> set js" "k < length ps" "group_packets ps" "group_open g"
  shows "holds_members ps (js @ [k]) rep t (absorb_member g (ps ! k) (of_nat k))"
  using assms
  by (auto simp: holds_members_def nth_xor_zip bitmap_mark_seen of_small_eq group_packets_def split: if_splits)

lemma holds_repair:
  assumes "holds_members ps js False t g" "group_packets ps"
  shows "holds_members ps js True t (store_repair g (rp_xor_data (group_repair seq ps)))"
  using assms group_size_ok(3) [OF assms(2)]
  by (auto simp: holds_members_def group_repair_def) (auto simp: store_repair_def nth_append xor_at_beyond)

lemma holds_missing:
  assumes "holds_members ps js True t g" "group_packets ps" "mset (j # js) = mset [0..<length ps]"
  shows "missing_packet g = Some (pad_to (max_length ps) (ps ! j))"
proof -
  have m: "mset (map (nth ps) (j # js)) = mset ps"
    using arg_cong [OF assms(3), of "image_mset (nth ps)"] by (metis map_nth mset_map)
  have l: "max_length (map (nth ps) js) \<le> max_length ps"
    using max_length_mset [OF m] by simp
  have "xor_at ps i XOR xor_at (map (nth ps) js) i = get0 (ps ! j) i" for i
    using xor_at_mset [OF m, of i, symmetric] by (simp add: xor.assoc)
  then show ?thesis
    using assms(1) l group_size_ok(3) [OF assms(2)]
    by (auto simp: missing_packet_def holds_members_def pad_to_def max_absorb1)
qed

lemma settled_highest: "fr_highest_group r = fr_highest_group r' \<Longrightarrow> settled r = settled r'"
  by (simp add: fun_eq_iff settled_def advance_def position_def Let_def)

text \<open>The receiver is ready for the group \<open>pos\<close> that \<open>seq\<close> stands for.\<close>

definition tracking :: "FecReceiver \<Rightarrow> u16 \<Rightarrow> u64 \<Rightarrow> bool" where
  "tracking r seq pos \<longleftrightarrow> rx_inv r \<and> position r seq = pos \<and> settled r seq \<and>
     pos \<notin> fr_completed_set r \<and> pos \<notin> hkeys (fr_retired r)"

definition slot :: "FecReceiver \<Rightarrow> u64 \<Rightarrow> bytes list \<Rightarrow> nat list \<Rightarrow> bool \<Rightarrow> instant \<Rightarrow> instant \<Rightarrow> bool" where
  "slot r pos ps js rep t now \<longleftrightarrow>
     (case map_of (fr_pending r) pos of
        None \<Rightarrow> js = [] \<and> \<not> rep \<and> t = now
      | Some g \<Rightarrow> holds_members ps js rep t g \<and> now - t < PENDING_TTL)"

lemma holds_size:
  "holds_members ps js rep t g \<Longrightarrow> pg_group_size g = of_nat (length ps) \<and> pg_created g = t"
  by (simp add: holds_members_def)

lemma ensured:
  assumes "tracking r seq pos" "slot r pos ps js rep t now" "group_packets ps"
  obtains g r1 r2 where "snd (advance (sweep r now) seq) = r1" "pos \<notin> fr_completed_set r1"
    "map_of (fr_retired r1) pos = None" "ensure_group r1 pos (of_nat (length ps)) now = Inr (g, r2)"
    "holds_members ps js rep t g" "tracking r2 seq pos" "map_of (fr_pending r2) pos = Some g"
proof -
  define r1 where "r1 = snd (advance (sweep r now) seq)"
  have live: "\<forall>g. map_of (fr_pending r) pos = Some g \<longrightarrow> live now g"
    using assms(2) by (auto simp: slot_def live_def holds_size)
  have r: "rx_inv r" "position r seq = pos" "pos \<notin> fr_completed_set r" "pos \<notin> hkeys (fr_retired r)" "settled r seq"
    using assms(1) by (auto simp: tracking_def)
  have p: "map_of (fr_pending r1) pos = map_of (fr_pending r) pos"
    using sweep_keeps(1) [OF r(1) live] by (simp add: r1_def)
  have n: "map_of (fr_retired r1) pos = None"
    using sweep_keeps(2) [OF r(1) live r(4)] by (simp add: r1_def map_of_None_keys)
  have c: "pos \<notin> fr_completed_set r1" using r(3) by (simp add: r1_def)
  have i: "rx_inv r1" unfolding r1_def using r(1) by (intro advance_inv sweep_inv)
  have h: "settled (sweep r now) seq"
    using r(5) settled_highest [of "sweep r now" r] by simp
  obtain g r2 where e: "ensure_group r1 pos (of_nat (length ps)) now = Inr (g, r2)"
      and g: "holds_members ps js rep t g"
  proof (cases "map_of (fr_pending r) pos")
    case None
    then show ?thesis
      using that assms(2) p holds_fresh by (auto simp: slot_def ensure_group_def Let_def)
  next
    case (Some g)
    then have g: "holds_members ps js rep t g" using assms(2) by (simp add: slot_def)
    then show ?thesis
      using that [of g r1] Some p holds_size [OF g] by (simp add: ensure_group_def)
  qed
  have "position r2 = position r1" "settled r2 = settled r1"
    using ensure_group_fields(3) [OF e] by (rule position_highest, rule settled_highest)
  moreover have "position r1 seq = pos" using h r(2) by (simp add: settled_def r1_def)
  moreover have "settled r1 seq"
    using h advance_again [OF h] by (simp add: settled_def r1_def)
  ultimately have "tracking r2 seq pos"
    using ensure_group_inv [OF i e group_size_ok(1) [OF assms(3)] c] n ensure_group_fields(2) [OF e] c
    by (simp add: tracking_def map_of_None_keys)
  then show ?thesis
    using that [OF r1_def [symmetric] c n e g] ensure_group_fields(4) [OF e] by blast
qed

datatype group_event = Packet nat | Parity

definition receive :: "u16 \<Rightarrow> bytes list \<Rightarrow> FecReceiver \<Rightarrow> group_event \<times> instant \<Rightarrow> FecRxResult result \<times> FecReceiver" where
  "receive seq ps r ev =
     (case ev of
        (Packet k, now) \<Rightarrow>
          FecReceiver_record r \<lparr>md_group_seq = seq, md_group_size = of_nat (length ps),
            md_index = of_nat k\<rparr> (ps ! k) now
      | (Parity, now) \<Rightarrow> FecReceiver_repair r (group_repair seq ps) now)"

fun receive_all :: "u16 \<Rightarrow> bytes list \<Rightarrow> FecReceiver \<Rightarrow> (group_event \<times> instant) list \<Rightarrow>
    FecRxResult result list \<times> FecReceiver" where
  "receive_all seq ps r [] = ([], r)"
| "receive_all seq ps r (ev # evs) =
     (let (res, r) = receive seq ps r ev; (ress, r) = receive_all seq ps r evs in (res # ress, r))"

abbreviation stored :: FecRxResult where
  "stored \<equiv> \<lparr>accepted = True, recovered = None, complete = False\<rparr>"

text \<open>The members and the repair packet taken after an event.\<close>

fun js_after :: "nat list \<Rightarrow> group_event \<Rightarrow> nat list" where
  "js_after js (Packet k) = js @ [k]"
| "js_after js Parity = js"

lemma finish_step:
  assumes "tracking r seq pos" "map_of (fr_pending r) pos = Some g0" "holds_members ps js rep t g"
    and "group_shape g" "group_packets ps" "length js < length ps"
  shows "finish (r \<lparr>fr_pending := AList.update pos g (fr_pending r)\<rparr>) pos True =
    (if rep \<and> Suc (length js) = length ps
     then (\<lparr>accepted = True, recovered = missing_packet g, complete = True\<rparr>,
           complete_group (r \<lparr>fr_pending := AList.update pos g (fr_pending r)\<rparr>) pos)
     else (stored, r \<lparr>fr_pending := AList.update pos g (fr_pending r)\<rparr>))"
    and "\<not> (rep \<and> Suc (length js) = length ps) \<Longrightarrow>
      tracking (r \<lparr>fr_pending := AList.update pos g (fr_pending r)\<rparr>) seq pos"
proof -
  let ?r = "r \<lparr>fr_pending := AList.update pos g (fr_pending r)\<rparr>"
  have g: "map_of (fr_pending ?r) pos = Some g" by (simp add: update_conv')
  have n: "pg_group_size g \<noteq> 0" "unat (pg_group_size g) = length ps" "unat (pg_count g) = length js"
    "pg_repair g \<noteq> None \<longleftrightarrow> rep"
    using assms(3) group_size_ok [OF assms(5)] by (auto simp: holds_members_def split: if_splits)
  show f: "finish ?r pos True =
    (if rep \<and> Suc (length js) = length ps
     then (\<lparr>accepted = True, recovered = missing_packet g, complete = True\<rparr>, complete_group ?r pos)
     else (stored, ?r))"
    using n assms(6) by (auto simp: finish_cases [OF g])
  have "rx_inv (snd (finish ?r pos True))"
    using assms n by (intro finish_inv) (auto simp: tracking_def dest: map_of_Some_keys)
  then show "tracking ?r seq pos" if "\<not> (rep \<and> Suc (length js) = length ps)"
    using that assms(1) position_highest [of ?r r] settled_highest [of ?r r] by (simp add: f tracking_def)
qed

lemma receive_step:
  assumes "tracking r seq pos" "slot r pos ps js rep t now" "group_packets ps"
    and ev: "case ev of Packet k \<Rightarrow> k \<notin> set js \<and> k < length ps | Parity \<Rightarrow> \<not> rep"
    and js': "js' = js_after js ev" and rep': "rep' = (rep \<or> ev = Parity)" and n: "length js' < length ps"
    and range: "set js \<subseteq> {..<length ps}"
  shows "\<exists>g r'. receive seq ps r (ev, now) =
      (if rep' \<and> Suc (length js') = length ps
       then (Inr \<lparr>accepted = True, recovered = missing_packet g, complete = True\<rparr>, r')
       else (Inr stored, r')) \<and> holds_members ps js' rep' t g \<and>
    (\<not> (rep' \<and> Suc (length js') = length ps) \<longrightarrow> tracking r' seq pos \<and> map_of (fr_pending r') pos = Some g)"
proof -
  obtain g r1 r2 where e: "snd (advance (sweep r now) seq) = r1" "pos \<notin> fr_completed_set r1"
    "map_of (fr_retired r1) pos = None" "ensure_group r1 pos (of_nat (length ps)) now = Inr (g, r2)"
    "holds_members ps js rep t g" "tracking r2 seq pos" "map_of (fr_pending r2) pos = Some g"
    using ensured [OF assms(1-3)] by metis
  have p: "position r seq = pos" and r2: "rx_inv r2" using assms(1) e(6) by (auto simp: tracking_def)
  note g = ensured_group [OF r2 e(7)]
  note size = group_size_ok [OF assms(3)]
  show ?thesis
  proof (cases ev)
    case (Packet k)
    let ?m = "\<lparr>md_group_seq = seq, md_group_size = of_nat (length ps), md_index = of_nat k\<rparr>"
    let ?g = "absorb_member g (ps ! k) (of_nat k)"
    have k: "k < length ps" "k \<notin> set js" "length (ps ! k) \<le> max_length ps" "ps ! k \<noteq> []"
      using ev Packet assms(3) by (auto simp: max_length_member group_packets_def)
    then have v: "validate_member ?m (length (ps ! k)) = Inr ()"
      using size assms(3) by (simp add: validate_member_ok word_less_nat_alt unat_of_small group_packets_def)
    have u: "\<not> bitmap_seen (pg_seen g) (of_nat k)" "\<forall>s. pg_repair g = Some s \<longrightarrow> length (ps ! k) \<le> sr_len s"
      using e(5) k assms(3) by (auto simp: holds_members_def group_packets_def split: if_splits)
    have h: "holds_members ps js' rep' t ?g"
      using holds_absorb [OF e(5) k(2,1) assms(3) g(2)] js' rep' Packet by simp
    have "group_shape ?g"
      using absorb_member_shape [OF g(1,2) u(1) _ _ u(2)] v holds_size [OF e(5)]
      by (simp add: validate_member_ok)
    note f = finish_step [OF e(6,7) h this assms(3) n]
    have "receive seq ps r (ev, now) =
        apfst Inr (finish (r2 \<lparr>fr_pending := AList.update pos ?g (fr_pending r2)\<rparr>) pos True)"
      using record_valid [OF v, of r pos now r1] p e u Packet by (auto simp: receive_def not_less)
    then show ?thesis
      using f h by (intro exI [of _ ?g]) (auto simp: update_conv')
  next
    case Parity
    let ?x = "rp_xor_data (group_repair seq ps)"
    let ?g = "store_repair g ?x"
    have x: "?x \<noteq> []" "length ?x \<le> MAX_PACKET_SIZE" "rp_group_size (group_repair seq ps) = of_nat (length ps)"
      "rp_group_seq (group_repair seq ps) = seq" "length ?x = max_length ps"
      using size by (auto simp: group_repair_def)
    have r: "\<not> rep" using ev Parity by simp
    have "max_length (map (nth ps) js) \<le> max_length ps"
      using range by (intro max_length_bound) (auto simp: max_length_member subset_eq)
    then have u: "pg_repair g = None" "pg_xor_len g \<le> length ?x"
      using e(5) r x(5) by (auto simp: holds_members_def)
    have h: "holds_members ps js' rep' t ?g"
      using holds_repair [of ps js t g seq] assms(3) e(5) r js' rep' Parity by simp
    have "group_shape ?g" using store_repair_shape [OF g(1) x(2) u(2)] .
    note f = finish_step [OF e(6,7) h this assms(3) n]
    have "receive seq ps r (ev, now) =
        apfst Inr (finish (r2 \<lparr>fr_pending := AList.update pos ?g (fr_pending r2)\<rparr>) pos True)"
      using repair_valid [of "group_repair seq ps" r pos now r1] p e u x size(1) Parity
      by (auto simp: receive_def)
    then show ?thesis
      using f h by (intro exI [of _ ?g]) (auto simp: update_conv')
  qed
qed

text \<open>Every event of the group but the member \<open>j\<close>.\<close>

definition without :: "nat \<Rightarrow> nat \<Rightarrow> group_event list" where
  "without j n = Parity # map Packet (remove1 j [0..<n])"

definition taken :: "nat list \<Rightarrow> bool \<Rightarrow> group_event list" where
  "taken js rep = map Packet js @ (if rep then [Parity] else [])"

lemma without_props:
  assumes "j < n"
  shows "distinct (without j n)" "length (without j n) = n"
    "set (without j n) = insert Parity (Packet ` ({..<n} - {j}))"
  using assms by (auto simp: without_def distinct_map inj_on_def length_remove1)

lemma taken_all:
  assumes "mset (taken js rep) = mset (without j n)" "j < n"
  shows "rep" "mset (j # js) = mset [0..<n]"
proof -
  have "Parity \<in> set (taken js rep)"
    using mset_eq_setD [OF assms(1)] by (simp add: without_def)
  then show rep by (auto simp: taken_def split: if_splits)
  then have "image_mset Packet (mset js) = image_mset Packet (mset (remove1 j [0..<n]))"
    using assms(1) by (simp add: taken_def without_def)
  from arg_cong [OF this, of "image_mset (\<lambda>e. case e of Packet k \<Rightarrow> k | Parity \<Rightarrow> 0)"]
  have "mset js = mset (remove1 j [0..<n])"
    by (simp add: multiset.map_comp comp_def del: mset_remove1)
  then show "mset (j # js) = mset [0..<n]" using assms(2) by simp
qed

lemma receive_all_recovers:
  assumes "tracking r seq pos" "evs \<noteq> []" "slot r pos ps js rep t (snd (hd evs))"
    and "\<forall>now \<in> set (map snd evs). now - t < PENDING_TTL"
    and "group_packets ps" "j < length ps"
    and "mset (map fst evs @ taken js rep) = mset (without j (length ps))"
  shows "fst (receive_all seq ps r evs) = replicate (length evs - 1) (Inr stored) @
    [Inr \<lparr>accepted = True, recovered = Some (pad_to (max_length ps) (ps ! j)), complete = True\<rparr>]"
  using assms
proof (induction evs arbitrary: r js rep)
  case (Cons x evs)
  obtain ev now where x: "x = (ev, now)" by force
  let ?js = "js_after js ev" and ?rep = "rep \<or> ev = Parity"
  note w = without_props [OF Cons.prems(6)]
  have all: "distinct (map fst (x # evs) @ taken js rep)"
    "set (map fst (x # evs) @ taken js rep) = insert Parity (Packet ` ({..<length ps} - {j}))"
    "length (x # evs) + length (taken js rep) = length ps"
    using mset_eq_imp_distinct_iff [OF Cons.prems(7)] mset_eq_setD [OF Cons.prems(7)]
      mset_eq_length [OF Cons.prems(7)] w by auto
  have ev: "case ev of Packet k \<Rightarrow> k \<notin> set js \<and> k < length ps | Parity \<Rightarrow> \<not> rep" "set js \<subseteq> {..<length ps}"
    using all x by (auto simp: taken_def split: group_event.splits if_splits)
  have later: "mset (map fst evs @ taken ?js ?rep) = mset (without j (length ps))"
    using Cons.prems(7) x ev(1) by (cases ev) (auto simp: taken_def)
  then have len: "length evs + length (taken ?js ?rep) = length ps"
    using mset_eq_length [of "map fst evs @ taken ?js ?rep"] w by simp
  have "Parity \<in> set (map fst evs @ taken ?js ?rep)"
    using mset_eq_setD [OF later] w(3) by simp
  then have small: "length ?js < length ps"
    using len by (cases evs) (auto simp: taken_def split: if_splits)
  have sl: "slot r pos ps js rep t now" using Cons.prems(3) x by simp
  obtain g r' where s: "receive seq ps r (ev, now) =
      (if ?rep \<and> Suc (length ?js) = length ps
       then (Inr \<lparr>accepted = True, recovered = missing_packet g, complete = True\<rparr>, r')
       else (Inr stored, r'))" "holds_members ps ?js ?rep t g"
    "\<not> (?rep \<and> Suc (length ?js) = length ps) \<longrightarrow> tracking r' seq pos \<and> map_of (fr_pending r') pos = Some g"
    using receive_step [OF Cons.prems(1) sl Cons.prems(5) ev(1) refl refl small ev(2)] by blast
  show ?case
  proof (cases "evs = []")
    case True
    then have t: "?rep" "mset (j # ?js) = mset [0..<length ps]"
      using taken_all [OF _ Cons.prems(6)] later by auto
    have "holds_members ps ?js True t g" using s(2) t(1) by simp
    then have "missing_packet g = Some (pad_to (max_length ps) (ps ! j))"
      using Cons.prems(5) t(2) by (rule holds_missing)
    moreover have "Suc (length ?js) = length ps" using mset_eq_length [OF t(2)] by simp
    ultimately show ?thesis using True s(1) t(1) x by simp
  next
    case False
    then have "\<not> (?rep \<and> Suc (length ?js) = length ps)" using len by (cases evs) (auto simp: taken_def)
    moreover from this have "slot r' pos ps ?js ?rep t (snd (hd evs))"
      using s(2,3) Cons.prems(4) False by (cases evs) (auto simp: slot_def)
    ultimately show ?thesis
      using Cons.IH [of r' ?js ?rep] s(1,3) Cons.prems(4-6) later False x
      by (cases evs) (auto split: prod.splits)
  qed
qed simp

section \<open>Properties\<close>

datatype fec_event = Member FecMetadata bytes | Repair FecRepair

definition fec_step :: "FecReceiver \<Rightarrow> fec_event \<times> instant \<Rightarrow> FecReceiver" where
  "fec_step r ev =
     (case ev of
        (Member meta p, now) \<Rightarrow> snd (FecReceiver_record r meta p now)
      | (Repair rep, now) \<Rightarrow> snd (FecReceiver_repair r rep now))"

interpretation fec_rx: stable_state fec_step rx_inv
  by unfold_locales (auto simp: fec_step_def record_inv repair_inv split: fec_event.splits)

lemma rx_inv_default: "rx_inv FecReceiver_default"
  by (simp add: rx_inv_def FecReceiver_default_def pending_ok_def completed_ok_def retired_ok_def)

lemma rx_inv_bounds:
  assumes "rx_inv r"
  shows "length (fr_pending r) \<le> 8" "length (fr_completed r) \<le> 512" "length (fr_retired r) \<le> 512"
proof -
  have "length (fr_retired r) = length (fr_retired_order r)"
    using assms by (auto simp: rx_inv_def retired_ok_def length_hkeys distinct_card [symmetric])
  then show "length (fr_pending r) \<le> 8" "length (fr_completed r) \<le> 512" "length (fr_retired r) \<le> 512"
    using assms by (auto simp: rx_inv_def pending_ok_def completed_ok_def MAX_PENDING_GROUPS_def
        COMPLETED_GROUPS_def RETIRED_GROUPS_def)
qed

text \<open>
  C20: Whatever members and repair packets arrive and in whatever order, the FEC receiver
  stays within its memory bounds, every pending group has buffers of the fixed sizes, a
  counter that equals the number of marked members, and work left to do, and no group is
  at once pending, retired or completed.
\<close>

theorem fec_receiver_bounded:
  "let r = foldl fec_step FecReceiver_default evs in
   rx_inv r \<and> length (fr_pending r) \<le> 8 \<and> length (fr_completed r) \<le> 512 \<and> length (fr_retired r) \<le> 512"
  using fec_rx.inv_run [OF rx_inv_default, of evs] rx_inv_bounds by (simp add: Let_def)




text \<open>
  C4: When the sender feeds the packets of a group to the encoder, the last call yields the
  repair packet, and a receiver that gets the repair packet and all packets but one, in any
  order and within ten seconds, accepts them all and returns the lost packet with the last
  one, padded with zeros to the longest packet of the group.
\<close>

theorem fec_recovers_lost_packet:
  assumes "group_packets ps" "j < length ps"
    and enc: "encoder_holds e []" "fe_group_size e = of_nat (length ps)"
      "length (fe_xor_buf e) = MAX_PACKET_SIZE" "fe_group_seq e = seq"
    and "rx_inv r" "headroom r" "position r seq \<notin> fr_completed_set r"
      "position r seq \<notin> hkeys (fr_retired r)" "position r seq \<notin> hkeys (fr_pending r)"
    and "mset (map fst evs) = mset (without j (length ps))"
    and "\<forall>now \<in> set (map snd evs). now - snd (hd evs) < PENDING_TTL"
  shows "last (fst (feed_all e ps)) = Inr (Some (group_repair seq ps)) \<and>
    fst (receive_all seq ps r evs) = replicate (length ps - 1) (Inr stored) @
      [Inr \<lparr>accepted = True, recovered = Some (pad_to (max_length ps) (ps ! j)), complete = True\<rparr>]"
proof -
  have "\<exists>e'. feed_all e ps = (replicate (length ps - 1) (Inr None) @
      [Inr (Some (group_repair (fe_group_seq e) ([] @ ps)))], e') \<and> encoder_holds e' [] \<and>
      length (fe_xor_buf e') = length (fe_xor_buf e) \<and> fe_group_size e' = fe_group_size e \<and>
      fe_group_seq e' = fe_group_seq e + 1"
    using assms(1) enc group_size_ok [OF assms(1)]
    by (intro feed_all_group) (auto simp: group_packets_def)
  moreover have "length evs = length ps"
    using mset_eq_length [OF assms(12)] without_props(2) [OF assms(2)] by simp
  moreover have "fst (receive_all seq ps r evs) = replicate (length evs - 1) (Inr stored) @
      [Inr \<lparr>accepted = True, recovered = Some (pad_to (max_length ps) (ps ! j)), complete = True\<rparr>]"
    using assms calculation(2) settled_headroom [OF assms(8), of seq]
    by (intro receive_all_recovers [where pos = "position r seq" and js = "[]" and rep = False and t = "snd (hd evs)"])
      (auto simp: tracking_def slot_def taken_def map_of_None_keys [symmetric])
  ultimately show ?thesis using enc(4) by auto
qed

definition sample_encoder :: FecEncoder where
  "sample_encoder = \<lparr>fe_xor_buf = replicate MAX_PACKET_SIZE 0, fe_max_len = 0, fe_count = 0,
     fe_group_size = 2, fe_group_seq = 0\<rparr>"

theorem fec_recovers_lost_packet_witness:
  "last (fst (feed_all sample_encoder [[1, 2], [3]])) = Inr (Some (group_repair 0 [[1, 2], [3]])) \<and>
   fst (receive_all 0 [[1, 2], [3]] FecReceiver_default [(Packet 1, 5), (Parity, 6)]) =
     [Inr stored, Inr \<lparr>accepted = True, recovered = Some [1, 2], complete = True\<rparr>]"
proof -
  have "FecEncoder_new 2 MAX_PACKET_SIZE = Inr sample_encoder"
    by (simp add: FecEncoder_new_def sample_encoder_def)
  then have e: "encoder_holds sample_encoder []" by (rule encoder_new_holds)
  have p: "pad_to (Suc (Suc 0)) [1, 2] = [1, 2]" by (simp add: pad_to_def get0_def upt_conv_Cons)
  have "last (fst (feed_all sample_encoder [[1, 2], [3]])) = Inr (Some (group_repair 0 [[1, 2], [3]])) \<and>
    fst (receive_all 0 [[1, 2], [3]] FecReceiver_default [(Packet 1, 5), (Parity, 6)]) =
      replicate (length [[1, 2], [3 :: u8]] - 1) (Inr stored) @ [Inr \<lparr>accepted = True,
        recovered = Some (pad_to (max_length [[1, 2], [3]]) ([[1, 2], [3]] ! 0)), complete = True\<rparr>]"
    by (rule fec_recovers_lost_packet [OF _ _ e _ _ _ rx_inv_default])
      (simp_all add: group_packets_def sample_encoder_def headroom_def FecReceiver_default_def
        MAX_PACKET_SIZE_def PENDING_TTL_def without_def upt_conv_Cons)
  then show ?thesis using p by (simp del: feed_all.simps receive_all.simps)
qed

text \<open>
  Decoding a repair packet never panics, and it yields a repair packet exactly for the
  bytes that packet is encoded to, provided its group size is not zero.
\<close>

lemma fec_repair_wire:
  "FecRepair_decode bs \<noteq> Inl Panic \<and>
   (FecRepair_decode bs = Inr (Some r) \<longleftrightarrow> rp_group_size r \<noteq> 0 \<and> bs = FecRepair_encode r)"
proof (intro conjI)
  show "FecRepair_decode bs \<noteq> Inl Panic"
    unfolding FecRepair_decode_def by (intro no_panic; (simp (no_asm); fail | linarith | arith | simp))
  show "FecRepair_decode bs = Inr (Some r) \<longleftrightarrow> rp_group_size r \<noteq> 0 \<and> bs = FecRepair_encode r"
  proof
    assume d: "FecRepair_decode bs = Inr (Some r)"
    then have l: "3 \<le> length bs" by (auto simp: FecRepair_decode_def not_less split: if_splits)
    then obtain a b c xs where "bs = a # b # c # xs"
      by (auto simp: numeral_eq_Suc Suc_le_length_iff)
    then show "rp_group_size r \<noteq> 0 \<and> bs = FecRepair_encode r"
      using d to_le_from_le [of "[a, b]" 2, where 'a = 16]
      by (auto simp: FecRepair_decode_def FecRepair_encode_def read_u16_def split: if_splits)
  qed (auto simp: FecRepair_decode_def FecRepair_encode_def nth_append)
qed

end
