(* ===== verification/Fec_Sender.thy ===== *)
theory Fec_Sender
  imports Fragment Fec_Recovery
begin

text \<open>
  The FEC sender of \<open>aivpn_common::fec\<close>: the group settings, the metadata of the next
  packet, and the queue of encrypted repair packets.  The closure \<open>encrypt\<close> is a parameter
  with a state of its own; the identifier \<open>fragment::split\<close> draws is an argument.
\<close>

section \<open>State and operations\<close>

record FecSender =
  fs_encoder :: "FecEncoder option"
  fs_pending :: "bytes list"
  fs_requested_group :: u8
  fs_next_group_seq :: u16

definition FecSender_default :: FecSender where
  "FecSender_default =
     \<lparr>fs_encoder = None, fs_pending = [], fs_requested_group = 0, fs_next_group_seq = 0\<rparr>"

definition replace_encoder :: "FecSender \<Rightarrow> FecSender result" where
  "replace_encoder s =
     (if fs_requested_group s > 0
      then bind (FecEncoder_new (fs_requested_group s) MAX_PACKET_SIZE) (\<lambda>e.
             Inr (s \<lparr>fs_encoder := Some (e \<lparr>fe_group_seq := fs_next_group_seq s\<rparr>)\<rparr>))
      else Inr (s \<lparr>fs_encoder := None\<rparr>))"

definition apply_group_at_boundary :: "FecSender \<Rightarrow> FecSender result" where
  "apply_group_at_boundary s =
     (case fs_encoder s of
        Some e \<Rightarrow>
          (if fe_count e \<noteq> 0 then Inr s
           else let s = s \<lparr>fs_next_group_seq := fe_group_seq e\<rparr> in
             if fe_group_size e = fs_requested_group s then Inr s else replace_encoder s)
      | None \<Rightarrow> replace_encoder s)"

definition set_group :: "FecSender \<Rightarrow> u8 \<Rightarrow> FecSender result" where
  "set_group s n = apply_group_at_boundary (s \<lparr>fs_requested_group := n\<rparr>)"

definition enabled_for :: "FecSender \<Rightarrow> nat \<Rightarrow> bool" where
  "enabled_for s len \<longleftrightarrow> fs_encoder s \<noteq> None \<and> len > 0 \<and> len \<le> MAX_PACKET_SIZE"

definition metadata_for :: "FecSender \<Rightarrow> nat \<Rightarrow> FecMetadata option" where
  "metadata_for s len =
     (if \<not> enabled_for s len then None
      else case fs_encoder s of
        None \<Rightarrow> None
      | Some e \<Rightarrow>
          (if fe_group_size e = 0 \<or> fe_count e \<ge> fe_group_size e then None
           else Some \<lparr>md_group_seq = fe_group_seq e, md_group_size = fe_group_size e,
                      md_index = fe_count e\<rparr>))"

definition discard_pending :: "FecSender \<Rightarrow> FecSender" where
  "discard_pending s = s \<lparr>fs_pending := []\<rparr>"

definition take_packet :: "FecSender \<Rightarrow> bytes option \<times> FecSender" where
  "take_packet s = (case fs_pending s of [] \<Rightarrow> (None, s) | p # ps \<Rightarrow> (Some p, s \<lparr>fs_pending := ps\<rparr>))"

text \<open>The closure \<open>encrypt\<close> carries its own state; the loop stops at its first error.\<close>

type_synonym 's encrypt = "InnerType \<Rightarrow> bytes \<Rightarrow> 's \<Rightarrow> bytes result \<times> 's"

fun encrypt_all :: "'s encrypt \<Rightarrow> (InnerType \<times> bytes) list \<Rightarrow> 's \<Rightarrow> bytes list option \<times> 's" where
  "encrypt_all encrypt [] st = (Some [], st)"
| "encrypt_all encrypt ((kind, payload) # parts) st =
     (case encrypt kind payload st of
        (Inl _, st) \<Rightarrow> (None, st)
      | (Inr packet, st) \<Rightarrow>
          (case encrypt_all encrypt parts st of
             (None, st) \<Rightarrow> (None, st)
           | (Some packets, st) \<Rightarrow> (Some (packet # packets), st)))"

definition repair_parts :: "bytes \<Rightarrow> nat \<Rightarrow> u64 \<Rightarrow> (InnerType \<times> bytes) list option" where
  "repair_parts bs payload_limit fid =
     (if length bs \<le> payload_limit then Some [(FecRepair, bs)]
      else case split_fragments FecRepair bs fid of
        Inl _ \<Rightarrow> None
      | Inr parts \<Rightarrow> Some (map (Pair Framing.Fragment) parts))"

definition FecSender_feed ::
  "FecSender \<Rightarrow> bytes \<Rightarrow> nat \<Rightarrow> u64 \<Rightarrow> 's encrypt \<Rightarrow> 's \<Rightarrow> unit result \<times> FecSender \<times> 's" where
  "FecSender_feed s payload payload_limit fid encrypt st =
     (if \<not> enabled_for s (length payload) then (Inr (), s, st)
      else case fs_encoder s of
        None \<Rightarrow> (Inr (), s, st)
      | Some e \<Rightarrow>
          (case FecEncoder_feed e payload of
             (Inl err, e) \<Rightarrow> (Inl err, s \<lparr>fs_encoder := Some e\<rparr>, st)
           | (Inr None, e) \<Rightarrow> (Inr (), s \<lparr>fs_encoder := Some e\<rparr>, st)
           | (Inr (Some repair), e) \<Rightarrow>
               (case apply_group_at_boundary (s \<lparr>fs_encoder := Some e\<rparr>) of
                  Inl err \<Rightarrow> (Inl err, s \<lparr>fs_encoder := Some e\<rparr>, st)
                | Inr s \<Rightarrow>
                    (case repair_parts (FecRepair_encode repair) payload_limit fid of
                       None \<Rightarrow> (Inr (), s, st)
                     | Some parts \<Rightarrow>
                         (case encrypt_all encrypt parts st of
                            (None, st) \<Rightarrow> (Inr (), s, st)
                          | (Some packets, st) \<Rightarrow>
                              (let s = (if length (fs_pending s) + length packets > 8
                                        then s \<lparr>fs_pending := []\<rparr> else s)
                               in (Inr (), s \<lparr>fs_pending := fs_pending s @ packets\<rparr>, st)))))))"

section \<open>The sender's invariant\<close>

definition encoder_ok :: "FecEncoder \<Rightarrow> bool" where
  "encoder_ok e \<longleftrightarrow> (\<exists>ps. encoder_holds e ps) \<and> length (fe_xor_buf e) = MAX_PACKET_SIZE"

definition sender_ok :: "FecSender \<Rightarrow> bool" where
  "sender_ok s \<longleftrightarrow> length (fs_pending s) \<le> 8 \<and>
     (case fs_encoder s of None \<Rightarrow> True | Some e \<Rightarrow> encoder_ok e)"

lemma replace_encoder:
  "\<exists>s'. replace_encoder s = Inr s' \<and> fs_pending s' = fs_pending s \<and>
     (case fs_encoder s' of None \<Rightarrow> True | Some e \<Rightarrow> encoder_ok e)"
proof (cases "fs_requested_group s > 0")
  case True
  then obtain e where e: "FecEncoder_new (fs_requested_group s) MAX_PACKET_SIZE = Inr e"
    by (simp add: FecEncoder_new_def)
  then have "encoder_ok (e \<lparr>fe_group_seq := q\<rparr>)" for q
    using encoder_new_holds [OF e] by (auto simp: encoder_ok_def encoder_holds_def FecEncoder_new_def split: if_splits)
  then show ?thesis using e True by (simp add: replace_encoder_def)
qed (simp add: replace_encoder_def)

lemma apply_group:
  assumes "sender_ok s"
  shows "\<exists>s'. apply_group_at_boundary s = Inr s' \<and> sender_ok s' \<and> fs_pending s' = fs_pending s"
proof (cases "fs_encoder s")
  case None
  then show ?thesis
    using replace_encoder [of s] assms by (auto simp: apply_group_at_boundary_def sender_ok_def)
next
  case (Some e)
  then show ?thesis
    using replace_encoder [of "s \<lparr>fs_next_group_seq := fe_group_seq e\<rparr>"] assms
    by (auto simp: apply_group_at_boundary_def sender_ok_def Let_def)
qed

lemma encoder_feed:
  assumes "encoder_ok e" "length p \<le> MAX_PACKET_SIZE"
  shows "\<exists>e' out. FecEncoder_feed e p = (Inr out, e') \<and> encoder_ok e' \<and>
    (\<forall>rep. out = Some rep \<longrightarrow> length (rp_xor_data rep) \<le> MAX_PACKET_SIZE)"
proof -
  obtain ps where ps: "encoder_holds e ps" using assms(1) by (auto simp: encoder_ok_def)
  then have "max_length (ps @ [p]) \<le> MAX_PACKET_SIZE"
    using assms by (simp add: encoder_holds_def encoder_ok_def)
  then have "length (rp_xor_data (group_repair q (ps @ [p]))) \<le> MAX_PACKET_SIZE" for q
    by (simp add: group_repair_def)
  moreover obtain e' where "FecEncoder_feed e p =
      (if Suc (length ps) < unat (fe_group_size e) then (Inr None, e')
       else (Inr (Some (group_repair (fe_group_seq e) (ps @ [p]))), e'))"
    "encoder_holds e' (if Suc (length ps) < unat (fe_group_size e) then ps @ [p] else [])"
    "length (fe_xor_buf e') = length (fe_xor_buf e)"
    using feed_step [OF ps, of p] assms by (auto simp: encoder_ok_def)
  moreover from this have "encoder_ok e'" using assms(1) unfolding encoder_ok_def by metis
  ultimately show ?thesis by auto
qed

lemma encrypt_all_length: "encrypt_all enc parts st = (Some packets, st') \<Longrightarrow> length packets = length parts"
  by (induction enc parts st arbitrary: packets st' rule: encrypt_all.induct)
    (auto split: prod.splits sum.splits option.splits)

lemma repair_parts_few:
  assumes "length bs \<le> MAX_PACKET_SIZE + 3" "repair_parts bs lim fid = Some parts"
  shows "length parts \<le> 2"
proof -
  have "(length bs + FRAGMENT_DATA_SIZE - 1) div FRAGMENT_DATA_SIZE \<le> 2"
    using assms(1) by (simp add: MAX_PACKET_SIZE_def FRAGMENT_DATA_SIZE_def)
  then show ?thesis
    using assms chunks_nth [of FRAGMENT_DATA_SIZE bs]
    by (auto simp: repair_parts_def split_fragments_def length_enumerate split: if_splits sum.splits)
qed

lemma sender_feed_ok:
  assumes "sender_ok s"
  shows "fst (FecSender_feed s p lim fid enc st) = Inr () \<and> sender_ok (fst (snd (FecSender_feed s p lim fid enc st)))"
proof (cases "enabled_for s (length p)")
  case True
  then obtain e where e: "fs_encoder s = Some e" "length p \<le> MAX_PACKET_SIZE"
    by (auto simp: enabled_for_def)
  then have "encoder_ok e" using assms by (simp add: sender_ok_def)
  from encoder_feed [OF this e(2)] obtain e' out where f: "FecEncoder_feed e p = (Inr out, e')" "encoder_ok e'"
    "\<forall>rep. out = Some rep \<longrightarrow> length (rp_xor_data rep) \<le> MAX_PACKET_SIZE" by blast
  have s': "sender_ok (s \<lparr>fs_encoder := Some e'\<rparr>)" using assms f(2) by (simp add: sender_ok_def)
  show ?thesis
  proof (cases out)
    case None
    then show ?thesis using e f s' True by (simp add: FecSender_feed_def)
  next
    case (Some rep)
    obtain s2 where a: "apply_group_at_boundary (s \<lparr>fs_encoder := Some e'\<rparr>) = Inr s2" "sender_ok s2"
      using apply_group [OF s'] by blast
    have "length (FecRepair_encode rep) \<le> MAX_PACKET_SIZE + 3"
      using f(3) Some by (simp add: FecRepair_encode_def)
    note few = repair_parts_few [OF this, of lim fid]
    show ?thesis
    proof (cases "repair_parts (FecRepair_encode rep) lim fid")
      case None
      then show ?thesis using e f a Some True by (simp add: FecSender_feed_def)
    next
      case parts: (Some parts)
      obtain pk st' where c: "encrypt_all enc parts st = (pk, st')" by force
      show ?thesis
        using e f a Some True parts c few [OF parts] encrypt_all_length [of enc parts st _ st']
        by (cases pk) (auto simp: FecSender_feed_def Let_def sender_ok_def)
    qed
  qed
qed (use assms in \<open>simp add: FecSender_feed_def\<close>)

datatype sender_op = SetGroup u8 | Feed bytes nat u64 | DiscardPending | TakePacket

fun sender_step :: "'s encrypt \<Rightarrow> FecSender \<times> 's \<Rightarrow> sender_op \<Rightarrow> FecSender \<times> 's" where
  "sender_step enc (s, st) (SetGroup n) = (case set_group s n of Inl _ \<Rightarrow> (s, st) | Inr s \<Rightarrow> (s, st))"
| "sender_step enc (s, st) (Feed p lim fid) = snd (FecSender_feed s p lim fid enc st)"
| "sender_step enc (s, st) DiscardPending = (discard_pending s, st)"
| "sender_step enc (s, st) TakePacket = (snd (take_packet s), st)"

lemma set_group_ok: "sender_ok s \<Longrightarrow> \<exists>s'. set_group s n = Inr s' \<and> sender_ok s'"
  using apply_group [of "s \<lparr>fs_requested_group := n\<rparr>"] by (auto simp: set_group_def sender_ok_def)

interpretation fec_sender: stable_state "sender_step enc" "\<lambda>(s, st). sender_ok s" for enc :: "'s encrypt"
proof
  fix x :: "FecSender \<times> 's" and op
  obtain s st where x: "x = (s, st)" by force
  assume "case x of (s, st) \<Rightarrow> sender_ok s"
  then have s: "sender_ok s" using x by simp
  show "case sender_step enc x op of (s, st) \<Rightarrow> sender_ok s"
  proof (cases op)
    case (SetGroup n)
    then show ?thesis using set_group_ok [OF s, of n] x by auto
  next
    case (Feed p lim fid)
    then show ?thesis using sender_feed_ok [OF s, of p lim fid enc st] x by (simp add: case_prod_beta)
  qed (use s x in \<open>auto simp: discard_pending_def take_packet_def sender_ok_def split: list.splits\<close>)
qed

section \<open>Properties\<close>

lemma metadata_valid:
  "case metadata_for s len of None \<Rightarrow> True | Some m \<Rightarrow> validate_member m len = Inr ()"
  by (auto simp: metadata_for_def validate_member_ok enabled_for_def not_le split: option.splits)

text \<open>
  Whatever groups are requested and packets fed, the FEC sender never panics, queues at
  most eight encrypted repair packets, and stamps packets only with metadata that the
  receiver accepts.
\<close>

lemma fec_sender_safe:
  "case foldl (sender_step enc) (FecSender_default, st0) ops of (s, st) \<Rightarrow>
     length (fs_pending s) \<le> 8 \<and> fst (FecSender_feed s p lim fid enc st) = Inr () \<and>
     (\<exists>s'. set_group s n = Inr s') \<and>
     (case metadata_for s len of None \<Rightarrow> True | Some m \<Rightarrow> validate_member m len = Inr ())"
proof -
  obtain s st where r: "foldl (sender_step enc) (FecSender_default, st0) ops = (s, st)" by force
  have "case foldl (sender_step enc) (FecSender_default, st0) ops of (s, st) \<Rightarrow> sender_ok s"
    by (rule fec_sender.inv_run) (simp add: sender_ok_def FecSender_default_def)
  then have "sender_ok s" by (simp add: r)
  then show ?thesis
    using sender_feed_ok set_group_ok metadata_valid by (fastforce simp: r sender_ok_def)
qed






end
