(* ===== verification/Replay_Window.thy ===== *)
theory Replay_Window
  imports Interfaces
begin

text \<open>
  The anti-replay window of \<open>aivpn_server::session\<close> (\<open>ReplayWindow\<close> with the counter it is
  relative to) and the merge of two windows of \<open>aivpn_common::kernel_accel\<close>.  Bit 0 of the
  bitmap is the newest counter.  The abstract window is the newest counter together with
  the set of received counters that are less than \<open>TAG_WINDOW_SIZE\<close> behind it.
\<close>

definition TAG_WINDOW_SIZE :: nat where "TAG_WINDOW_SIZE = 512"
definition REPLAY_WORDS :: nat where "REPLAY_WORDS = TAG_WINDOW_SIZE div 64"
definition REPLAY_BITS :: nat where "REPLAY_BITS = 512"

type_synonym ReplayWindow = "u64 list"

definition ReplayWindow_default :: ReplayWindow where
  "ReplayWindow_default = replicate REPLAY_WORDS 0"

definition set_bit_w :: "ReplayWindow \<Rightarrow> nat \<Rightarrow> ReplayWindow" where
  "set_bit_w w b =
     (if b \<ge> TAG_WINDOW_SIZE then w
      else w[b div 64 := (w ! (b div 64)) OR push_bit (b mod 64) 1])"

definition get_bit :: "ReplayWindow \<Rightarrow> nat \<Rightarrow> bool" where
  "get_bit w b =
     (if b \<ge> TAG_WINDOW_SIZE then False else (w ! (b div 64)) AND push_bit (b mod 64) 1 \<noteq> 0)"

text \<open>The two loops of \<open>shift_left\<close> write the words from the last to the first, in place.\<close>

definition shift_word :: "nat \<Rightarrow> nat \<Rightarrow> ReplayWindow \<Rightarrow> nat \<Rightarrow> u64" where
  "shift_word word_shift bit_shift w i =
     (if bit_shift = 0 then if i \<ge> word_shift then w ! (i - word_shift) else 0
      else if i \<ge> word_shift
      then (let v = push_bit bit_shift (w ! (i - word_shift)) in
            if i > word_shift then v OR drop_bit (64 - bit_shift) (w ! (i - word_shift - 1)) else v)
      else 0)"

definition shift_left :: "ReplayWindow \<Rightarrow> nat \<Rightarrow> ReplayWindow" where
  "shift_left w shift =
     (if shift = 0 then w
      else if shift \<ge> TAG_WINDOW_SIZE then replicate REPLAY_WORDS 0
      else foldl (\<lambda>w i. w[i := shift_word (shift div 64) (shift mod 64) w i]) w (rev [0..<REPLAY_WORDS]))"

section \<open>Counters\<close>

text \<open>The part of \<open>Session\<close> that decides freshness: the newest counter and the bitmap.
  \<open>Session\<close> extends this record.\<close>

record window =
  w_counter :: u64
  w_bitmap :: ReplayWindow

definition window_new :: window where
  "window_new = \<lparr>w_counter = 0, w_bitmap = ReplayWindow_default\<rparr>"

definition counter_is_fresh :: "'a window_scheme \<Rightarrow> u64 \<Rightarrow> bool" where
  "counter_is_fresh s c \<longleftrightarrow> c > w_counter s \<or>
     (unat (w_counter s - c) < TAG_WINDOW_SIZE \<and> \<not> get_bit (w_bitmap s) (unat (w_counter s - c)))"

definition window_mark :: "'a window_scheme \<Rightarrow> u64 \<Rightarrow> 'a window_scheme" where
  "window_mark s c =
     (if c > w_counter s
      then s \<lparr>w_counter := c, w_bitmap := set_bit_w (shift_left (w_bitmap s) (unat (c - w_counter s))) 0\<rparr>
      else if unat (w_counter s - c) < TAG_WINDOW_SIZE
      then s \<lparr>w_bitmap := set_bit_w (w_bitmap s) (unat (w_counter s - c))\<rparr>
      else s)"

definition replay_marked :: "u64 \<Rightarrow> ReplayWindow \<Rightarrow> u64 \<Rightarrow> bool" where
  "replay_marked hi w c =
     (if c > hi then False
      else let diff = unat (hi - c) in
        if diff \<ge> REPLAY_BITS then False
        else (drop_bit (diff mod 64) (w ! (diff div 64))) AND 1 = 1)"

text \<open>The loop of \<open>merge_replay_window\<close> stops below counter zero.\<close>

fun merge_loop :: "(u64 \<Rightarrow> bool) \<Rightarrow> u64 \<Rightarrow> nat list \<Rightarrow> ReplayWindow \<Rightarrow> ReplayWindow" where
  "merge_loop P new_hi [] w = w"
| "merge_loop P new_hi (i # is) w =
     (if unat new_hi < i then w
      else merge_loop P new_hi is
        (if P (new_hi - of_nat i) then w[i div 64 := (w ! (i div 64)) OR push_bit (i mod 64) 1] else w))"

definition merge_replay_window :: "u64 \<Rightarrow> ReplayWindow \<Rightarrow> u64 \<Rightarrow> ReplayWindow \<Rightarrow> u64 \<times> ReplayWindow" where
  "merge_replay_window hi w other_hi other =
     (let new_hi = max hi other_hi in
      (new_hi, merge_loop (\<lambda>c. replay_marked hi w c \<or> replay_marked other_hi other c) new_hi
         [0..<REPLAY_BITS] (replicate REPLAY_WORDS 0)))"

section \<open>Bits\<close>

definition wf_window :: "ReplayWindow \<Rightarrow> bool" where
  "wf_window w \<longleftrightarrow> length w = REPLAY_WORDS"

lemma window_consts: "TAG_WINDOW_SIZE = 512" "REPLAY_WORDS = 8" "REPLAY_BITS = 512"
  by (simp_all add: TAG_WINDOW_SIZE_def REPLAY_WORDS_def REPLAY_BITS_def)

lemma get_bit_iff: "get_bit w b \<longleftrightarrow> b < 512 \<and> bit (w ! (b div 64)) (b mod 64)"
  by (auto simp: get_bit_def window_consts bit_iff_and_push_bit_not_eq_0)

lemma get_bit_default [simp]: "\<not> get_bit (replicate REPLAY_WORDS 0) b"
  by (auto simp: get_bit_iff window_consts less_mult_imp_div_less)

lemma wf_window_simps [simp]:
  "wf_window (replicate REPLAY_WORDS 0)"
  "wf_window (set_bit_w w b) \<longleftrightarrow> wf_window w"
  by (simp_all add: wf_window_def set_bit_w_def)

lemma same_slot: "a div 64 = b div 64 \<Longrightarrow> a mod 64 = b mod 64 \<longleftrightarrow> a = (b :: nat)"
  by (metis div_mult_mod_eq)

lemma bit_slot: "i < 64 \<Longrightarrow> bit (2 ^ i :: u64) j \<longleftrightarrow> j = i"
  by (auto simp: bit_exp_iff possible_bit_def)

lemma get_set_bit:
  assumes "wf_window w" "b < 512"
  shows "get_bit (set_bit_w w b) d \<longleftrightarrow> d = b \<or> get_bit w d"
proof -
  have "b div 64 < 8" using assms(2) by simp
  then show ?thesis
    using assms same_slot [of d b]
    by (auto simp: get_bit_iff set_bit_w_def window_consts wf_window_def nth_list_update bit_or_iff bit_slot)
qed

text \<open>Writing the words from the last to the first never reads a word already written.\<close>

lemma shift_loop:
  assumes "n \<le> length w"
  shows "foldl (\<lambda>w i. w[i := shift_word ws bs w i]) w (rev [0..<n]) =
    map (\<lambda>i. if i < n then shift_word ws bs w i else w ! i) [0..<length w]"
  using assms
proof (induction n arbitrary: w)
  case 0
  then show ?case by (simp add: map_nth)
next
  case (Suc n)
  let ?w = "w[n := shift_word ws bs w n]"
  have "shift_word ws bs ?w i = shift_word ws bs w i" if "i < n" for i
    using that by (auto simp: shift_word_def Let_def)
  then show ?case
    using Suc by (auto simp: nth_list_update less_Suc_eq intro!: nth_equalityI)
qed

lemma shift_word_bit:
  assumes "i < 8" "j < 64" "shift < 512"
  shows "bit (shift_word (shift div 64) (shift mod 64) w i) j \<longleftrightarrow>
    shift \<le> 64 * i + j \<and> bit (w ! ((64 * i + j - shift) div 64)) ((64 * i + j - shift) mod 64)"
proof -
  let ?ws = "shift div 64" and ?bs = "shift mod 64"
  have s: "shift = 64 * ?ws + ?bs" by simp
  have bs: "?bs < 64" by simp
  consider (low) "i < ?ws" | (same) "i \<ge> ?ws" "?bs \<le> j" | (edge) "i = ?ws" "j < ?bs" | (prev) "i > ?ws" "j < ?bs"
    by linarith
  then show ?thesis
  proof cases
    case low
    then have "\<not> shift \<le> 64 * i + j" using assms(2) s by linarith
    then show ?thesis using low by (simp add: shift_word_def)
  next
    case same
    then obtain k where k: "i = ?ws + k" using le_Suc_ex by blast
    have d: "64 * i + j - shift = 64 * k + (j - ?bs)" "shift \<le> 64 * i + j"
      using k same s by linarith+
    have "(64 * k + (j - ?bs)) div 64 = k" "(64 * k + (j - ?bs)) mod 64 = j - ?bs" using assms(2) by auto
    moreover have "\<not> bit (x :: u64) (64 + j - ?bs)" for x
    proof
      assume "bit x (64 + j - ?bs)"
      then have "64 + j - ?bs < 64" by (auto dest: bit_imp_le_length)
      then show False using same by linarith
    qed
    moreover have "64 - ?bs + j = 64 + j - ?bs" using bs by linarith
    ultimately show ?thesis
      using same k d assms(2)
      by (auto simp: shift_word_def Let_def bit_or_iff bit_push_bit_iff bit_drop_bit_eq)
  next
    case edge
    then have "\<not> shift \<le> 64 * i + j" using s by linarith
    then show ?thesis using edge by (simp add: shift_word_def Let_def bit_push_bit_iff)
  next
    case prev
    then obtain k where k: "i = ?ws + Suc k" using less_iff_Suc_add by auto
    have d: "64 * i + j - shift = 64 * k + (64 + j - ?bs)" "shift \<le> 64 * i + j"
      using k prev s bs by linarith+
    define m where "m = 64 + j - ?bs"
    have m: "64 + j - ?bs = m" "m < 64" using prev bs unfolding m_def by linarith+
    then have "(64 * k + (64 + j - ?bs)) div 64 = k" "(64 * k + (64 + j - ?bs)) mod 64 = 64 + j - ?bs"
      by simp_all
    moreover have "64 - ?bs + j = 64 + j - ?bs" using bs by linarith
    ultimately show ?thesis
      using prev k d by (auto simp: shift_word_def Let_def bit_or_iff bit_push_bit_iff bit_drop_bit_eq)
  qed
qed

lemma shift_left_wf: "wf_window w \<Longrightarrow> wf_window (shift_left w n)"
  by (simp add: shift_left_def wf_window_def shift_loop)

lemma get_shift_bit:
  assumes "wf_window w"
  shows "get_bit (shift_left w n) b \<longleftrightarrow> b < 512 \<and> n \<le> b \<and> get_bit w (b - n)"
proof (cases "n = 0 \<or> n \<ge> 512")
  case True
  then show ?thesis by (auto simp: shift_left_def window_consts get_bit_iff)
next
  case False
  have "bit (shift_left w n ! (b div 64)) (b mod 64) \<longleftrightarrow>
      n \<le> b \<and> bit (w ! ((b - n) div 64)) ((b - n) mod 64)" if "b < 512"
  proof -
    have i: "b div 64 < 8" using that by simp
    then have "shift_left w n ! (b div 64) = shift_word (n div 64) (n mod 64) w (b div 64)"
      using False assms by (simp add: shift_left_def shift_loop wf_window_def window_consts)
    then show ?thesis using shift_word_bit [OF i, of "b mod 64" n w] False by simp
  qed
  then show ?thesis by (auto simp: get_bit_iff)
qed

section \<open>The abstract window\<close>

text \<open>
  The newest counter and the received counters less than 512 behind it, all as natural
  numbers.
\<close>

type_synonym abstract_window = "nat \<times> nat set"

definition spec_fresh :: "abstract_window \<Rightarrow> nat \<Rightarrow> bool" where
  "spec_fresh aw c \<longleftrightarrow> (case aw of (hi, S) \<Rightarrow> c > hi \<or> hi < c + 512 \<and> c \<notin> S)"

definition in_window :: "nat \<Rightarrow> nat set" where
  "in_window hi = {c. c \<le> hi \<and> hi < c + 512}"

definition spec_mark :: "abstract_window \<Rightarrow> nat \<Rightarrow> abstract_window" where
  "spec_mark aw c = (case aw of (hi, S) \<Rightarrow> (max hi c, insert c S \<inter> in_window (max hi c)))"

definition spec_merge :: "abstract_window \<Rightarrow> abstract_window \<Rightarrow> abstract_window" where
  "spec_merge a b = (max (fst a) (fst b), (snd a \<union> snd b) \<inter> in_window (max (fst a) (fst b)))"

definition window_abs :: "'a window_scheme \<Rightarrow> abstract_window" where
  "window_abs s = (unat (w_counter s),
     {c \<in> in_window (unat (w_counter s)). get_bit (w_bitmap s) (unat (w_counter s) - c)})"

lemma unat_diff: "(c :: u64) \<le> hi \<Longrightarrow> unat (hi - c) = unat hi - unat c"
  by (simp add: unat_sub)

lemma window_fresh_abs:
  "counter_is_fresh s c \<longleftrightarrow> spec_fresh (window_abs s) (unat c)"
proof (cases "c > w_counter s")
  case False
  then have "c \<le> w_counter s" by simp
  then show ?thesis
    using False by (auto simp: counter_is_fresh_def spec_fresh_def window_abs_def in_window_def unat_diff
        word_less_nat_alt word_le_nat_alt window_consts)
qed (simp add: counter_is_fresh_def spec_fresh_def window_abs_def word_less_nat_alt)

lemma window_mark_abs:
  assumes "wf_window (w_bitmap s)"
  shows "window_abs (window_mark s c) = spec_mark (window_abs s) (unat c)"
proof (cases "c > w_counter s")
  case True
  have u: "unat (c - w_counter s) = unat c - unat (w_counter s)" "unat (w_counter s) < unat c"
    using True unat_diff [of "w_counter s" c] by (simp_all add: word_less_nat_alt word_le_nat_alt)
  have "get_bit (set_bit_w (shift_left (w_bitmap s) (unat (c - w_counter s))) 0) b \<longleftrightarrow>
      b = 0 \<or> b < 512 \<and> unat (c - w_counter s) \<le> b \<and> get_bit (w_bitmap s) (b - unat (c - w_counter s))" for b
    using assms by (simp add: get_set_bit get_shift_bit shift_left_wf)
  note bits = this [unfolded u(1)]
  have "d \<in> snd (window_abs (window_mark s c)) \<longleftrightarrow> d \<in> snd (spec_mark (window_abs s) (unat c))" for d
  proof (cases "d \<in> in_window (unat c) \<and> d \<noteq> unat c")
    case d: True
    have i: "unat c - d < 512" "d < unat c" "unat c < d + 512" using d by (auto simp: in_window_def)
    have e: "unat c - unat (w_counter s) \<le> unat c - d \<longleftrightarrow> d \<le> unat (w_counter s)"
      "unat c - d - (unat c - unat (w_counter s)) = unat (w_counter s) - d"
      "unat c - d \<noteq> 0" using u(2) i by auto
    show ?thesis
      using True u i d unfolding window_mark_def window_abs_def spec_mark_def
      by (simp add: bits e max_absorb2) (auto simp: in_window_def)
  next
    case False
    then show ?thesis
      using True u by (auto simp: window_mark_def window_abs_def spec_mark_def bits max_absorb2 in_window_def)
  qed
  moreover have "fst (window_abs (window_mark s c)) = fst (spec_mark (window_abs s) (unat c))"
    using True u(2) by (simp add: window_mark_def window_abs_def spec_mark_def)
  ultimately show ?thesis by (intro prod_eqI) auto
next
  case False
  then have u: "unat (w_counter s - c) = unat (w_counter s) - unat c" "unat c \<le> unat (w_counter s)"
    using unat_diff [of c "w_counter s"] by (simp_all add: word_le_nat_alt word_less_nat_alt)
  show ?thesis
    using False u assms
    by (auto simp: window_mark_def window_abs_def spec_mark_def in_window_def window_consts get_set_bit max_def)
qed

lemma window_mark_wf: "wf_window (w_bitmap s) \<Longrightarrow> wf_window (w_bitmap (window_mark s c))"
  by (simp add: window_mark_def shift_left_wf)

lemma spec_guard:
  "spec_fresh aw c \<Longrightarrow> \<not> spec_fresh (spec_mark aw c) c"
  "\<not> spec_fresh aw c \<Longrightarrow> \<not> spec_fresh (spec_mark aw d) c"
  by (auto simp: spec_fresh_def spec_mark_def in_window_def split: prod.splits)

interpretation replay: replay_guard counter_is_fresh window_mark "\<lambda>s :: 'a window_scheme. wf_window (w_bitmap s)"
  by unfold_locales (simp_all add: window_mark_wf window_fresh_abs window_mark_abs spec_guard)

section \<open>Merging two windows\<close>

lemma replay_marked_abs:
  "replay_marked hi w c \<longleftrightarrow> unat c \<in> snd (window_abs \<lparr>w_counter = hi, w_bitmap = w\<rparr>)"
proof -
  have "(drop_bit n x) AND 1 = (1 :: u64) \<longleftrightarrow> bit x n" for n and x :: u64
    by (simp add: and_one_eq bit_iff_odd_drop_bit odd_iff_mod_2_eq_one [symmetric] mod2_eq_if)
  then show ?thesis
    by (auto simp: replay_marked_def Let_def window_abs_def in_window_def get_bit_iff unat_diff
        word_le_nat_alt word_less_nat_alt not_less window_consts)
qed

lemma merge_loop_wf: "wf_window w \<Longrightarrow> wf_window (merge_loop P hi is w)"
  by (induction P hi "is" w rule: merge_loop.induct) (auto simp: wf_window_def)

lemma merge_loop_bits:
  assumes "wf_window w" "sorted is" "\<forall>i \<in> set is. i < 512"
  shows "get_bit (merge_loop P hi is w) b \<longleftrightarrow>
    get_bit w b \<or> b \<in> set is \<and> b \<le> unat hi \<and> P (hi - of_nat b)"
  using assms
proof (induction "is" arbitrary: w)
  case (Cons i "is")
  let ?w = "if P (hi - of_nat i) then set_bit_w w i else w"
  have i: "i < 512" and wf: "wf_window ?w" using Cons.prems by auto
  have step: "merge_loop P hi (i # is) w = (if unat hi < i then w else merge_loop P hi is ?w)"
    using i by (simp add: set_bit_w_def window_consts)
  have bits: "get_bit ?w b \<longleftrightarrow> get_bit w b \<or> b = i \<and> P (hi - of_nat i)"
    using i Cons.prems(1) by (auto simp: get_set_bit)
  show ?case
  proof (cases "unat hi < i")
    case True
    then show ?thesis using Cons.prems(2) by (auto simp: step)
  next
    case False
    then show ?thesis
      using Cons.IH [OF wf] Cons.prems(2,3) by (simp only: step bits if_False) auto
  qed
qed simp

lemma merge_abs:
  assumes "merge_replay_window hi a hi' b = (h, w)"
  shows "wf_window w \<and> window_abs \<lparr>w_counter = h, w_bitmap = w\<rparr> =
    spec_merge (window_abs \<lparr>w_counter = hi, w_bitmap = a\<rparr>) (window_abs \<lparr>w_counter = hi', w_bitmap = b\<rparr>)"
proof -
  let ?A = "window_abs \<lparr>w_counter = hi, w_bitmap = a\<rparr>" and ?B = "window_abs \<lparr>w_counter = hi', w_bitmap = b\<rparr>"
  let ?P = "\<lambda>c. replay_marked hi a c \<or> replay_marked hi' b c"
  have h: "h = max hi hi'" and w: "w = merge_loop ?P h [0..<REPLAY_BITS] (replicate REPLAY_WORDS 0)"
    using assms by (auto simp: merge_replay_window_def Let_def)
  have u: "unat h = max (fst ?A) (fst ?B)"
    by (simp add: h window_abs_def max_def word_le_nat_alt)
  have bits: "get_bit w i \<longleftrightarrow> i < 512 \<and> i \<le> unat h \<and> ?P (h - of_nat i)" for i
    unfolding w by (subst merge_loop_bits) (auto simp: window_consts(3))
  have "c \<in> snd (window_abs \<lparr>w_counter = h, w_bitmap = w\<rparr>) \<longleftrightarrow> c \<in> snd (spec_merge ?A ?B)" for c
  proof (cases "c \<in> in_window (unat h)")
    case True
    then have c: "c \<le> unat h" "unat h - c < 512" by (auto simp: in_window_def)
    have "c < 18446744073709551616" using c(1) unat_bounds(4) [of h] by linarith
    then have oc: "unat (of_nat c :: u64) = c" by (simp add: unat_of_nat)
    have "h - of_nat (unat h - c) = of_nat c" using c(1) by (simp add: of_nat_diff)
    then have "?P (h - of_nat (unat h - c)) \<longleftrightarrow> c \<in> snd ?A \<union> snd ?B"
      by (simp add: replay_marked_abs oc)
    then have "get_bit w (unat h - c) \<longleftrightarrow> c \<in> snd ?A \<union> snd ?B" using c by (simp add: bits)
    then show ?thesis
      using True u by (simp add: window_abs_def [of "\<lparr>w_counter = h, w_bitmap = w\<rparr>"] spec_merge_def)
  next
    case False
    then show ?thesis
      using u by (simp add: window_abs_def [of "\<lparr>w_counter = h, w_bitmap = w\<rparr>"] spec_merge_def)
  qed
  moreover have "fst (window_abs \<lparr>w_counter = h, w_bitmap = w\<rparr>) = fst (spec_merge ?A ?B)"
    using u by (simp add: window_abs_def [of "\<lparr>w_counter = h, w_bitmap = w\<rparr>"] spec_merge_def)
  moreover have "wf_window w" unfolding w by (intro merge_loop_wf) simp
  ultimately show ?thesis by (intro conjI prod_eqI) auto
qed

section \<open>Properties\<close>

text \<open>
  C9: The bitmap window refines the abstract window: deciding freshness and marking a
  counter on the eight-word bitmap give the same answers and the same state as deciding
  and marking on the set of received counters less than 512 behind the newest.
\<close>

theorem replay_window_refines:
  assumes "wf_window (w_bitmap s)"
  shows "(counter_is_fresh s c \<longleftrightarrow> spec_fresh (window_abs s) (unat c)) \<and>
    window_abs (window_mark s c) = spec_mark (window_abs s) (unat c) \<and>
    wf_window (w_bitmap (window_mark s c))"
  using assms window_fresh_abs window_mark_abs window_mark_wf by blast

theorem replay_window_refines_witness:
  "(counter_is_fresh window_new 7 \<longleftrightarrow> spec_fresh (window_abs window_new) 7) \<and>
   window_abs (window_mark window_new 7) = spec_mark (window_abs window_new) 7 \<and>
   wf_window (w_bitmap (window_mark window_new 7))"
  using replay_window_refines [of window_new 7] by (simp add: window_new_def ReplayWindow_default_def)

text \<open>
  Whatever counters arrive in whatever order, the window accepts each of them at most
  once.
\<close>

lemma replay_window_accepts_once:
  "distinct (accept_run counter_is_fresh window_mark window_new cs)"
  by (rule replay.accept_run_distinct) (simp add: window_new_def ReplayWindow_default_def)

text \<open>
  C32: Merging the window shared with the kernel is the union of the received counters, cut
  to the 512 counters behind the newer of the two.
\<close>

theorem replay_merge_is_union:
  "case merge_replay_window hi a hi' b of (h, w) \<Rightarrow>
     window_abs \<lparr>w_counter = h, w_bitmap = w\<rparr> =
       spec_merge (window_abs \<lparr>w_counter = hi, w_bitmap = a\<rparr>) (window_abs \<lparr>w_counter = hi', w_bitmap = b\<rparr>)"
  using merge_abs [of hi a hi' b] by (auto split: prod.splits)

end
