(* ===== verification/Quality.thy ===== *)
theory Quality
  imports Interfaces
begin

text \<open>
  Connection quality of \<open>aivpn_common::quality\<close>: the window of received counters that
  measures loss, the peer's loss report that selects the FEC group, the RTT and loss
  tracker and the adaptive level.  A checked subtraction that would underflow is a panic.
  The term of the score that comes from the neural network's error is floating point; its
  value is an argument of \<open>score\<close>.
\<close>

unbundle bit_operations_syntax

section \<open>The loss window\<close>

definition RECEIVER_LOSS_WINDOW :: nat where "RECEIVER_LOSS_WINDOW = 4096"
definition RECEIVER_LOSS_MIN_SPAN :: nat where "RECEIVER_LOSS_MIN_SPAN = 32"
definition PEER_RECEIVER_FEEDBACK_TTL :: duration where "PEER_RECEIVER_FEEDBACK_TTL = from_secs 30"

record ReceiverLossWindow =
  lw_highest :: "u64 option"
  lw_span :: u16
  lw_received :: u16
  lw_words :: "u64 list"

definition ReceiverLossWindow_default :: ReceiverLossWindow where
  "ReceiverLossWindow_default =
     \<lparr>lw_highest = None, lw_span = 0, lw_received = 0, lw_words = replicate (RECEIVER_LOSS_WINDOW div 64) 0\<rparr>"

definition count_ones :: "u64 \<Rightarrow> nat" where
  "count_ones w = length (filter (bit w) [0..<64])"

definition slot_mask :: "nat \<Rightarrow> nat \<Rightarrow> u64" where
  "slot_mask offset count = (if count = 64 then - 1 else push_bit offset (push_bit count 1 - 1))"

function clear_slots :: "ReceiverLossWindow \<Rightarrow> nat \<Rightarrow> nat \<Rightarrow> ReceiverLossWindow result" where
  "clear_slots s index len =
     (if len = 0 then Inr s
      else let offset = index mod 64;
               count = min len (64 - offset);
               mask = slot_mask offset count;
               word = lw_words s ! (index div 64);
               ones = count_ones (word AND mask)
           in if lw_received s < of_nat ones then Inl Panic
              else clear_slots
                (s \<lparr>lw_received := lw_received s - of_nat ones,
                    lw_words := (lw_words s)[index div 64 := word AND NOT mask]\<rparr>)
                ((index + count) mod RECEIVER_LOSS_WINDOW) (len - count))"
  by pat_completeness auto
termination
  by (relation "measure (\<lambda>(_, _, len). len)") auto

declare clear_slots.simps [simp del]

definition note_counter :: "ReceiverLossWindow \<Rightarrow> u64 \<Rightarrow> ReceiverLossWindow result" where
  "note_counter s counter =
     (let index = unat counter mod RECEIVER_LOSS_WINDOW;
          b = push_bit (index mod 64) 1
      in if (lw_words s ! (index div 64)) AND b = 0
         then if lw_received s = - 1 then Inl Panic
              else Inr (s \<lparr>lw_words := (lw_words s)[index div 64 := (lw_words s ! (index div 64)) OR b],
                           lw_received := lw_received s + 1\<rparr>)
         else Inr s)"

definition observe :: "ReceiverLossWindow \<Rightarrow> u64 \<Rightarrow> ReceiverLossWindow result" where
  "observe s counter =
     (case lw_highest s of
        Some highest \<Rightarrow>
          (if counter > highest
           then let delta = unat (counter - highest) in
             if delta \<ge> RECEIVER_LOSS_WINDOW
             then note_counter (s \<lparr>lw_words := replicate (RECEIVER_LOSS_WINDOW div 64) 0, lw_received := 0,
                    lw_span := of_nat RECEIVER_LOSS_WINDOW, lw_highest := Some counter\<rparr>) counter
             else bind (clear_slots s ((unat highest mod RECEIVER_LOSS_WINDOW + 1) mod RECEIVER_LOSS_WINDOW) delta)
               (\<lambda>s. note_counter (s \<lparr>lw_span := of_nat (min (unat (lw_span s) + delta) RECEIVER_LOSS_WINDOW),
                       lw_highest := Some counter\<rparr>) counter)
           else let distance = unat (highest - counter) in
             if distance \<ge> RECEIVER_LOSS_WINDOW then Inr s
             else note_counter (s \<lparr>lw_span := max (lw_span s) (of_nat (distance + 1))\<rparr>) counter)
      | None \<Rightarrow> note_counter (s \<lparr>lw_highest := Some counter, lw_span := 1\<rparr>) counter)"

definition lw_reset :: "ReceiverLossWindow \<Rightarrow> ReceiverLossWindow" where
  "lw_reset s = ReceiverLossWindow_default"

definition counts :: "ReceiverLossWindow \<Rightarrow> nat \<times> nat" where
  "counts s = (unat (lw_received s), unat (lw_span s))"

definition loss_ppm :: "ReceiverLossWindow \<Rightarrow> u32 option result" where
  "loss_ppm s =
     (if unat (lw_span s) \<ge> RECEIVER_LOSS_MIN_SPAN
      then if lw_span s < lw_received s then Inl Panic
           else Inr (Some (of_nat (unat (lw_span s - lw_received s) * 1000000 div unat (lw_span s))))
      else Inr None)"

section \<open>The peer's report\<close>

datatype AdaptiveLevel = Off | Light | Aggressive | Satellite

definition AdaptiveLevel_from_u8 :: "u8 \<Rightarrow> AdaptiveLevel" where
  "AdaptiveLevel_from_u8 v =
     (if v = 1 then Light else if v = 2 then Aggressive else if v = 3 then Satellite else Off)"

fun keepalive_secs :: "AdaptiveLevel \<Rightarrow> nat" where
  "keepalive_secs Off = 8"
| "keepalive_secs Light = 6"
| "keepalive_secs Aggressive = 4"
| "keepalive_secs Satellite = 15"

fun fec_n :: "AdaptiveLevel \<Rightarrow> u8" where
  "fec_n Off = 0"
| "fec_n Light = 16"
| "fec_n Aggressive = 8"
| "fec_n Satellite = 4"

definition suggest :: "u8 \<Rightarrow> AdaptiveLevel" where
  "suggest score =
     (if 80 \<le> score \<and> score \<le> 100 then Off
      else if 50 \<le> score \<and> score \<le> 79 then Light
      else if 20 \<le> score \<and> score \<le> 49 then Aggressive
      else Satellite)"

record PeerReceiverFeedback =
  pf_last_counter :: "u64 option"
  pf_observation :: "(u32 \<times> instant) option"

definition PeerReceiverFeedback_default :: PeerReceiverFeedback where
  "PeerReceiverFeedback_default = \<lparr>pf_last_counter = None, pf_observation = None\<rparr>"

definition feedback_record :: "PeerReceiverFeedback \<Rightarrow> u64 \<Rightarrow> u32 \<Rightarrow> instant \<Rightarrow> bool \<times> PeerReceiverFeedback" where
  "feedback_record f counter loss now =
     (if (case pf_last_counter f of None \<Rightarrow> False | Some previous \<Rightarrow> counter \<le> previous) then (False, f)
      else (True, f \<lparr>pf_last_counter := Some counter, pf_observation := Some (min loss 1000000, now)\<rparr>))"

definition feedback_reset :: "PeerReceiverFeedback \<Rightarrow> PeerReceiverFeedback" where
  "feedback_reset f = PeerReceiverFeedback_default"

definition fec_group :: "PeerReceiverFeedback \<Rightarrow> AdaptiveLevel \<Rightarrow> instant \<Rightarrow> u8" where
  "fec_group f level now =
     (case pf_observation f of
        Some (loss, recorded) \<Rightarrow>
          (if now - recorded < PEER_RECEIVER_FEEDBACK_TTL
           then if loss = 0 then 0 else if loss \<le> 9999 then 16 else if loss \<le> 49999 then 8 else 4
           else fec_n level)
      | None \<Rightarrow> fec_n level)"

definition replay_observation_counts :: "u64 list \<Rightarrow> nat \<times> nat" where
  "replay_observation_counts ws =
     (sum_list (map count_ones ws),
      (case rev (filter (\<lambda>i. ws ! i \<noteq> 0) [0..<length ws]) of
         [] \<Rightarrow> 0
       | i # _ \<Rightarrow> i * 64 + length (dropWhile (\<lambda>b. \<not> bit (ws ! i) b) (rev [0..<64]))))"

section \<open>The tracker\<close>

record QualityTracker =
  rtt_us :: u64
  jitter_us :: u64
  sent :: u64
  lost :: u64

definition QualityTracker_new :: QualityTracker where
  "QualityTracker_new = \<lparr>rtt_us = 0, jitter_us = 0, sent = 0, lost = 0\<rparr>"

definition EWMA_ALPHA_INV :: nat where "EWMA_ALPHA_INV = 8"

definition sat_add :: "u64 \<Rightarrow> u64 \<Rightarrow> u64" where
  "sat_add a b = (if unat a + unat b < 2 ^ 64 then a + b else - 1)"

definition record_rtt :: "QualityTracker \<Rightarrow> u64 \<Rightarrow> QualityTracker result" where
  "record_rtt t sample_us =
     (if rtt_us t = 0 then Inr (t \<lparr>rtt_us := sample_us\<rparr>)
      else let dev = (if sample_us \<ge> rtt_us t then sample_us - rtt_us t else rtt_us t - sample_us);
               j = unat (jitter_us t) * (EWMA_ALPHA_INV - 1) + unat dev;
               r = unat (rtt_us t) * (EWMA_ALPHA_INV - 1) + unat sample_us
           in if j < 2 ^ 64 \<and> r < 2 ^ 64
              then Inr (t \<lparr>jitter_us := of_nat (j div EWMA_ALPHA_INV), rtt_us := of_nat (r div EWMA_ALPHA_INV)\<rparr>)
              else Inl Panic)"

definition record_gap :: "QualityTracker \<Rightarrow> u32 \<Rightarrow> QualityTracker" where
  "record_gap t gap =
     t \<lparr>lost := sat_add (lost t) (ucast (if gap = 0 then 0 else gap - 1)), sent := sat_add (sent t) (ucast gap)\<rparr>"

definition record_received :: "QualityTracker \<Rightarrow> QualityTracker" where
  "record_received t = t \<lparr>sent := sat_add (sent t) 1\<rparr>"

definition record_window :: "QualityTracker \<Rightarrow> u64 \<Rightarrow> u64 \<Rightarrow> QualityTracker" where
  "record_window t received span = t \<lparr>sent := span, lost := (if received \<le> span then span - received else 0)\<rparr>"

definition rtt_ms :: "QualityTracker \<Rightarrow> nat" where
  "rtt_ms t = min (unat (rtt_us t) div 1000) 65535"

definition jitter_ms :: "QualityTracker \<Rightarrow> nat" where
  "jitter_ms t = min (unat (jitter_us t) div 1000) 65535"

definition tracker_loss_ppm :: "QualityTracker \<Rightarrow> nat result" where
  "tracker_loss_ppm t =
     (if sent t = 0 then Inr 0
      else if unat (lost t) * 1000000 < 2 ^ 64
      then Inr (min (unat (lost t) * 1000000 div unat (sent t)) 1000000)
      else Inl Panic)"

definition score :: "QualityTracker \<Rightarrow> nat \<Rightarrow> nat result" where
  "score t neural_pts =
     bind (tracker_loss_ppm t) (\<lambda>l.
       let rtt_pts = (if rtt_ms t \<ge> 300 then 0 else 40 * (300 - rtt_ms t) div 300);
           jitter_pts = (if jitter_ms t \<ge> 100 then 0 else 20 * (100 - jitter_ms t) div 100);
           loss_pts = (if l \<ge> 50000 then 0 else 30 * (50000 - l) div 50000)
       in Inr (min (rtt_pts + jitter_pts + loss_pts + neural_pts) 100))"

definition reset_loss :: "QualityTracker \<Rightarrow> QualityTracker" where
  "reset_loss t = t \<lparr>sent := 0, lost := 0\<rparr>"


section \<open>Slots\<close>

lemma loss_consts: "RECEIVER_LOSS_WINDOW = 4096" "RECEIVER_LOSS_WINDOW div 64 = 64"
  by (simp_all add: RECEIVER_LOSS_WINDOW_def)

definition slot :: "u64 list \<Rightarrow> nat \<Rightarrow> bool" where
  "slot ws i \<longleftrightarrow> i < 4096 \<and> bit (ws ! (i div 64)) (i mod 64)"

definition slots :: "u64 list \<Rightarrow> nat set" where
  "slots ws = {i. slot ws i}"

lemma finite_slots [simp]: "finite (slots ws)"
  by (rule finite_subset [of _ "{..<4096}"]) (auto simp: slots_def slot_def)

lemma slots_empty [simp]: "slots (replicate 64 0) = {}"
  by (auto simp: slots_def slot_def less_mult_imp_div_less)

lemma slot_mask_bit:
  assumes "offset + count \<le> 64" "i < 64"
  shows "bit (slot_mask offset count) i \<longleftrightarrow> offset \<le> i \<and> i < offset + count"
proof (cases "count = 64")
  case False
  have "push_bit count 1 - 1 = (mask count :: u64)" by (simp add: mask_eq_exp_minus_1)
  then show ?thesis
    using False assms by (auto simp: slot_mask_def bit_push_bit_iff bit_mask_iff possible_bit_def)
qed (use assms in \<open>auto simp: slot_mask_def\<close>)

lemma slot_range:
  fixes i index :: nat
  assumes "index mod 64 + count \<le> 64"
  shows "i \<in> {index..<index + count} \<longleftrightarrow>
    i div 64 = index div 64 \<and> index mod 64 \<le> i mod 64 \<and> i mod 64 < index mod 64 + count"
proof -
  define p j q r where d: "p = i div 64" "j = i mod 64" "q = index div 64" "r = index mod 64"
  have i: "i = 64 * p + j" "index = 64 * q + r" "j < 64" "r < 64" by (simp_all add: d)
  have r: "r + count \<le> 64" using assms by (simp add: d)
  have "i \<in> {index..<index + count} \<longleftrightarrow> p = q \<and> r \<le> j \<and> j < r + count"
  proof
    assume a: "i \<in> {index..<index + count}"
    then have "64 * q \<le> 64 * p + 63" "64 * p \<le> 64 * q + 63" using i r by auto
    then have "q \<le> p" "p \<le> q" by linarith+
    then have "p = q" by simp
    then show "p = q \<and> r \<le> j \<and> j < r + count" using a i by auto
  qed (use i in auto)
  then show ?thesis by (simp add: d)
qed

lemma slots_clear:
  assumes "length ws = 64" "index < 4096" "index mod 64 + count \<le> 64"
  shows "slots (ws[index div 64 := ws ! (index div 64) AND NOT (slot_mask (index mod 64) count)]) =
    slots ws - {index..<index + count}"
proof (intro set_eqI)
  fix i
  show "i \<in> slots (ws[index div 64 := ws ! (index div 64) AND NOT (slot_mask (index mod 64) count)]) \<longleftrightarrow>
      i \<in> slots ws - {index..<index + count}"
  proof (cases "i div 64 = index div 64")
    case True
    then have "i \<in> {index..<index + count} \<longleftrightarrow> bit (slot_mask (index mod 64) count) (i mod 64)"
      by (simp only: slot_mask_bit [OF assms(3)] slot_range [OF assms(3)] mod_less_divisor simp_thms)
    then show ?thesis using assms(1,2) True by (simp add: slots_def slot_def bit_and_iff bit_not_iff)
  next
    case False
    then have "i \<notin> {index..<index + count}" by (simp only: slot_range [OF assms(3)] simp_thms)
    then show ?thesis using False by (simp add: slots_def slot_def)
  qed
qed

lemma count_ones_card: "count_ones w = card {i. i < 64 \<and> bit w i}"
proof -
  have "{i. i < 64 \<and> bit w i} = set (filter (bit w) [0..<64])" by auto
  then show ?thesis by (simp only: count_ones_def) (subst distinct_card, simp_all)
qed

lemma count_ones_slots:
  assumes "length ws = 64" "index < 4096" "index mod 64 + count \<le> 64"
  shows "count_ones (ws ! (index div 64) AND slot_mask (index mod 64) count) =
    card (slots ws \<inter> {index..<index + count})"
proof -
  let ?B = "{i. i < 64 \<and> bit (ws ! (index div 64) AND slot_mask (index mod 64) count) i}"
  let ?f = "\<lambda>i. 64 * (index div 64) + i"
  have q: "index div 64 < 64" using assms(2) by simp
  have "i \<in> slots ws \<inter> {index..<index + count} \<longleftrightarrow> i \<in> ?f ` ?B" for i
  proof -
    have "i \<in> slots ws \<inter> {index..<index + count} \<longleftrightarrow> i div 64 = index div 64 \<and> i mod 64 \<in> ?B"
      using q slot_range [OF assms(3), of i] slot_mask_bit [OF assms(3), of "i mod 64"]
      by (auto simp: slots_def slot_def bit_and_iff)
    also have "\<dots> \<longleftrightarrow> i \<in> ?f ` ?B"
    proof
      assume "i div 64 = index div 64 \<and> i mod 64 \<in> ?B"
      then show "i \<in> ?f ` ?B" by (intro image_eqI [of _ _ "i mod 64"]) (metis mult_div_mod_eq, simp)
    qed auto
    finally show ?thesis .
  qed
  then have "slots ws \<inter> {index..<index + count} = ?f ` ?B" by blast
  then show ?thesis by (simp add: count_ones_card card_image inj_on_def)
qed

definition cyclic :: "nat \<Rightarrow> nat \<Rightarrow> nat set" where
  "cyclic index len = (\<lambda>k. (index + k) mod 4096) ` {..<len}"

lemma cyclic_step:
  assumes "index < 4096" "count \<le> len" "index + count \<le> 4096"
  shows "cyclic index len = {index..<index + count} \<union> cyclic ((index + count) mod 4096) (len - count)"
proof -
  have "{..<len} = {..<count} \<union> (\<lambda>k. count + k) ` {..<len - count}"
  proof (intro set_eqI iffI)
    fix k assume "k \<in> {..<len}"
    then show "k \<in> {..<count} \<union> (\<lambda>k. count + k) ` {..<len - count}"
      by (cases "k < count") (auto intro!: image_eqI [of _ _ "k - count"])
  qed (use assms(2) in auto)
  then have "cyclic index len = (\<lambda>k. (index + k) mod 4096) ` {..<count} \<union>
      (\<lambda>k. (index + (count + k)) mod 4096) ` {..<len - count}"
    by (simp add: cyclic_def image_Un image_image)
  moreover have "(\<lambda>k. (index + k) mod 4096) ` {..<count} = {index..<index + count}"
  proof -
    have "(\<lambda>k. (index + k) mod 4096) ` {..<count} = (\<lambda>k. index + k) ` {..<count}"
      using assms(3) by (intro image_cong) auto
    also have "\<dots> = {index..<index + count}" by (simp add: lessThan_atLeast0 image_add_atLeastLessThan add.commute)
    finally show ?thesis .
  qed
  moreover have "(\<lambda>k. (index + (count + k)) mod 4096) = (\<lambda>k. ((index + count) mod 4096 + k) mod 4096)"
    by (simp add: add.assoc mod_add_left_eq)
  ultimately show ?thesis by (simp only: cyclic_def)
qed

text \<open>The window is well formed when its counter of received packets is the number of set slots.\<close>

definition lw_ok :: "ReceiverLossWindow \<Rightarrow> bool" where
  "lw_ok s \<longleftrightarrow> length (lw_words s) = 64 \<and> unat (lw_received s) = card (slots (lw_words s))"

lemma card_slots_small: "card (slots ws) \<le> 4096"
  using card_mono [of "{..<4096}" "slots ws"] by (auto simp: slots_def slot_def)

lemma clear_slots_ok:
  assumes "lw_ok s" "index < 4096"
  shows "\<exists>s'. clear_slots s index len = Inr s' \<and> lw_ok s' \<and>
    slots (lw_words s') = slots (lw_words s) - cyclic index len \<and>
    lw_span s' = lw_span s \<and> lw_highest s' = lw_highest s"
  using assms
proof (induction s index len rule: clear_slots.induct)
  case (1 s index len)
  show ?case
  proof (cases "len = 0")
    case True
    then show ?thesis using "1.prems" by (simp add: clear_slots.simps cyclic_def)
  next
    case False
    define count where "count = min len (64 - index mod 64)"
    define ones where "ones = count_ones (lw_words s ! (index div 64) AND slot_mask (index mod 64) count)"
    define s1 where "s1 = s \<lparr>lw_received := lw_received s - of_nat ones,
      lw_words := (lw_words s)[index div 64 := lw_words s ! (index div 64) AND NOT (slot_mask (index mod 64) count)]\<rparr>"
    have c: "index mod 64 + count \<le> 64" "count \<le> len" "0 < count" "index + count \<le> 4096"
    proof -
      show "index mod 64 + count \<le> 64" "count \<le> len" "0 < count" using False by (auto simp: count_def)
      have "index = 64 * (index div 64) + index mod 64" "index div 64 \<le> 63" using "1.prems"(2) by auto
      then show "index + count \<le> 4096" using \<open>index mod 64 + count \<le> 64\<close> by linarith
    qed
    have len: "length (lw_words s) = 64" and r: "unat (lw_received s) = card (slots (lw_words s))"
      using "1.prems"(1) by (auto simp: lw_ok_def)
    have o: "ones = card (slots (lw_words s) \<inter> {index..<index + count})"
      unfolding ones_def using len "1.prems"(2) c(1) by (rule count_ones_slots)
    then have le: "ones \<le> unat (lw_received s)" using r card_mono [of "slots (lw_words s)"] by simp
    then have un: "unat (of_nat ones :: u16) = ones"
      using card_slots_small [of "lw_words s"] r by (simp add: unat_of_nat)
    have sl: "slots (lw_words s1) = slots (lw_words s) - {index..<index + count}"
      unfolding s1_def using slots_clear [OF len "1.prems"(2) c(1)] by simp
    have "unat (lw_received s1) = card (slots (lw_words s)) - ones"
      using le un r by (simp add: s1_def unat_sub word_le_nat_alt)
    moreover have "card (slots (lw_words s) - {index..<index + count}) = card (slots (lw_words s)) - ones"
      unfolding o by (simp add: card_Diff_subset_Int)
    ultimately have ok: "lw_ok s1" using sl len by (simp add: lw_ok_def) (simp add: s1_def)
    have step: "clear_slots s index len = clear_slots s1 ((index + count) mod 4096) (len - count)"
      using False le un
      by (subst clear_slots.simps) (simp add: Let_def count_def [symmetric] ones_def [symmetric] s1_def
          word_less_nat_alt not_less loss_consts(1))
    have "\<not> lw_received s < of_nat ones" using le un by (simp add: word_less_nat_alt)
    with "1.IH" [OF False refl refl refl refl refl] ok obtain s' where
      "clear_slots s1 ((index + count) mod 4096) (len - count) = Inr s' \<and> lw_ok s' \<and>
       slots (lw_words s') = slots (lw_words s1) - cyclic ((index + count) mod 4096) (len - count) \<and>
       lw_span s' = lw_span s1 \<and> lw_highest s' = lw_highest s1"
      unfolding count_def [symmetric] ones_def [symmetric] s1_def loss_consts(1) by auto
    then show ?thesis
      using step sl cyclic_step [OF "1.prems"(2) c(2,4)] by (auto simp: s1_def)
  qed
qed

lemma note_counter_ok:
  assumes "lw_ok s"
  shows "\<exists>s'. note_counter s c = Inr s' \<and> lw_ok s' \<and>
    slots (lw_words s') = insert (unat c mod 4096) (slots (lw_words s)) \<and>
    lw_span s' = lw_span s \<and> lw_highest s' = lw_highest s"
proof -
  define i where "i = unat c mod 4096"
  define b :: u64 where "b = push_bit (i mod 64) 1"
  have i: "i < 4096" "i div 64 < 64" by (auto simp: i_def)
  have len: "length (lw_words s) = 64" and r: "unat (lw_received s) = card (slots (lw_words s))"
    using assms by (auto simp: lw_ok_def)
  have b: "bit b j \<longleftrightarrow> j = i mod 64" for j
    by (auto simp: b_def bit_exp_iff possible_bit_def)
  have z: "(lw_words s ! (i div 64)) AND b = 0 \<longleftrightarrow> i \<notin> slots (lw_words s)"
  proof -
    have "(lw_words s ! (i div 64)) AND b = 0 \<longleftrightarrow> (\<forall>n. \<not> bit ((lw_words s ! (i div 64)) AND b) n)"
      by (metis bit_0_eq bit_eqI bot_apply bot_bool_def)
    then show ?thesis using i by (auto simp: bit_and_iff b slots_def slot_def)
  qed
  have o: "slots ((lw_words s)[i div 64 := (lw_words s ! (i div 64)) OR b]) = insert i (slots (lw_words s))"
  proof (intro set_eqI)
    fix j
    have "j = i \<longleftrightarrow> j div 64 = i div 64 \<and> j mod 64 = i mod 64" by (metis mult_div_mod_eq)
    then show "j \<in> slots ((lw_words s)[i div 64 := (lw_words s ! (i div 64)) OR b]) \<longleftrightarrow>
        j \<in> insert i (slots (lw_words s))"
      using len i by (cases "j div 64 = i div 64") (auto simp: slots_def slot_def bit_or_iff b)
  qed
  have eq: "note_counter s c = (if (lw_words s ! (i div 64)) AND b = 0
      then if lw_received s = - 1 then Inl Panic
           else Inr (s \<lparr>lw_words := (lw_words s)[i div 64 := (lw_words s ! (i div 64)) OR b],
                        lw_received := lw_received s + 1\<rparr>)
      else Inr s)"
    by (simp only: note_counter_def Let_def loss_consts(1) i_def b_def)
  show ?thesis
  proof (cases "i \<in> slots (lw_words s)")
    case True
    then show ?thesis using z assms eq by (simp add: i_def [symmetric] insert_absorb)
  next
    case False
    have "unat (lw_received s) < 2 ^ 16 - 1" using r card_slots_small [of "lw_words s"] by simp
    moreover have "unat (- 1 :: u16) = 2 ^ 16 - 1" by (simp add: unsigned_minus_1_eq_mask mask_eq_exp_minus_1)
    ultimately have n: "lw_received s \<noteq> - 1" "unat (lw_received s + 1) = Suc (unat (lw_received s))"
      by (auto simp: unat_word_ariths)
    then show ?thesis using False z o r len eq by (simp add: i_def [symmetric] lw_ok_def)
  qed
qed

section \<open>The window over a history of counters\<close>

text \<open>
  The counters of a history that the window still covers: less than 4096 behind the newest.
\<close>

definition recent :: "nat set \<Rightarrow> nat set" where
  "recent H = {c \<in> H. Max H - c < 4096}"

text \<open>
  The window represents a history when its slots are the recent counters and its span
  reaches back to a counter of the history that is not newer than any recent one.
\<close>

definition represents :: "ReceiverLossWindow \<Rightarrow> nat set \<Rightarrow> bool" where
  "represents s H \<longleftrightarrow> lw_ok s \<and> finite H \<and> H \<noteq> {} \<and> map_option unat (lw_highest s) = Some (Max H) \<and>
     slots (lw_words s) = (\<lambda>c. c mod 4096) ` recent H \<and>
     (\<exists>lo\<in>H. unat (lw_span s) = min 4096 (Max H - lo + 1) \<and> (\<forall>c\<in>recent H. lo \<le> c))"

lemma recent_range: "finite H \<Longrightarrow> c \<in> recent H \<Longrightarrow> c \<le> Max H \<and> Max H < c + 4096"
  by (auto simp: recent_def)

lemma recent_insert_new:
  assumes "finite H" "H \<noteq> {}" "Max H < c"
  shows "recent (insert c H) = insert c {x \<in> recent H. c - x < 4096}"
proof -
  have m: "Max (insert c H) = c" using assms by (simp add: max_def del: Max_less_iff Max_ge_iff)
  have "c - x < 4096 \<Longrightarrow> Max H - x < 4096" for x using assms(3) by linarith
  then show ?thesis unfolding recent_def m by auto
qed

lemma recent_insert_old:
  assumes "finite H" "H \<noteq> {}" "c \<le> Max H"
  shows "recent (insert c H) = (if Max H - c < 4096 then insert c (recent H) else recent H)"
proof -
  have m: "Max (insert c H) = Max H" using assms by (simp add: max_def del: Max_less_iff Max_ge_iff)
  show ?thesis unfolding recent_def m by auto
qed

lemma mod_eq_gap:
  fixes x y :: nat
  assumes "x mod n = y mod n" "x < y"
  shows "x + n \<le> y"
proof -
  have "n dvd y - x" using assms mod_eq_dvd_iff_nat [of x y n] by simp
  then show ?thesis using assms(2) dvd_imp_le [of n "y - x"] by simp
qed

lemma mod_inj_recent: "finite H \<Longrightarrow> inj_on (\<lambda>c. c mod 4096) (recent H)"
proof (rule inj_onI)
  fix x y assume "finite H" "x \<in> recent H" "y \<in> recent H" "x mod 4096 = y mod 4096"
  then have "x < y + 4096" "y < x + 4096" "x mod 4096 = y mod 4096"
    using recent_range [of H x] recent_range [of H y] by auto
  then show "x = y" using mod_eq_gap [of x 4096 y] mod_eq_gap [of y 4096 x] by (cases x y rule: linorder_cases) auto
qed

lemma represents_counts:
  assumes "represents s H"
  shows "unat (lw_received s) = card (recent H)" "lw_received s \<le> lw_span s" "unat (lw_span s) \<le> 4096"
proof -
  obtain lo where lo: "lo \<in> H" "unat (lw_span s) = min 4096 (Max H - lo + 1)" "\<forall>c\<in>recent H. lo \<le> c"
    and f: "finite H" and ok: "lw_ok s" "slots (lw_words s) = (\<lambda>c. c mod 4096) ` recent H"
    using assms by (auto simp: represents_def)
  show r: "unat (lw_received s) = card (recent H)"
    using ok mod_inj_recent [OF f] by (simp add: lw_ok_def card_image)
  have "recent H \<subseteq> {Max H + 1 - min 4096 (Max H - lo + 1)..Max H}"
  proof
    fix c assume "c \<in> recent H"
    then show "c \<in> {Max H + 1 - min 4096 (Max H - lo + 1)..Max H}"
      using recent_range [OF f, of c] lo(3) by fastforce
  qed
  then have "card (recent H) \<le> min 4096 (Max H - lo + 1)"
    using card_mono [of "{Max H + 1 - min 4096 (Max H - lo + 1)..Max H}" "recent H"] by simp
  then show "lw_received s \<le> lw_span s" using r lo(2) by (simp add: word_le_nat_alt)
  show "unat (lw_span s) \<le> 4096" using lo(2) by simp
qed

section \<open>Observing a counter\<close>

lemma cyclic_counters: "cyclic ((h mod 4096 + 1) mod 4096) d = (\<lambda>x. x mod 4096) ` {h<..h + d}"
proof -
  have "{h<..h + d} = (\<lambda>k. h + 1 + k) ` {..<d}"
  proof (intro set_eqI iffI)
    fix x assume "x \<in> {h<..h + d}"
    then show "x \<in> (\<lambda>k. h + 1 + k) ` {..<d}" by (intro image_eqI [of _ _ "x - h - 1"]) auto
  qed auto
  then show ?thesis by (simp add: cyclic_def image_image mod_simps add.commute)
qed

lemma slots_advance:
  assumes "finite H" "H \<noteq> {}" "Max H < c" "c - Max H < 4096"
  shows "(\<lambda>x. x mod 4096) ` recent H - (\<lambda>x. x mod 4096) ` {Max H<..c} =
    (\<lambda>x. x mod 4096) ` {x \<in> recent H. c - x < 4096}"
proof -
  have "x mod 4096 \<in> (\<lambda>x. x mod 4096) ` {Max H<..c} \<longleftrightarrow> \<not> c - x < 4096" if "x \<in> recent H" for x
  proof
    assume "x mod 4096 \<in> (\<lambda>x. x mod 4096) ` {Max H<..c}"
    then obtain y where "x mod 4096 = y mod 4096" "Max H < y" "y \<le> c" by auto
    moreover have "x < y" using recent_range [OF assms(1) that] \<open>Max H < y\<close> by linarith
    ultimately have "x + 4096 \<le> y" using mod_eq_gap by blast
    then show "\<not> c - x < 4096" using \<open>y \<le> c\<close> by linarith
  next
    assume "\<not> c - x < 4096"
    then have "x + 4096 \<in> {Max H<..c}" using recent_range [OF assms(1) that] by auto
    then show "x mod 4096 \<in> (\<lambda>x. x mod 4096) ` {Max H<..c}" by (rule rev_image_eqI) simp
  qed
  then show ?thesis by auto
qed

lemma observe_first:
  "\<exists>s. observe ReceiverLossWindow_default c = Inr s \<and> represents s {unat c}"
proof -
  have "lw_ok (ReceiverLossWindow_default \<lparr>lw_highest := Some c, lw_span := 1\<rparr>)"
    by (simp add: lw_ok_def ReceiverLossWindow_default_def loss_consts)
  from note_counter_ok [OF this, of c] show ?thesis
    by (auto simp: observe_def represents_def recent_def) (auto simp: ReceiverLossWindow_default_def loss_consts)
qed

lemma span_advance:
  fixes lo M c :: nat
  assumes "lo \<le> M" "M < c"
  shows "min 4096 (c - lo + 1) = (if 4096 \<le> c - M then 4096 else min (min 4096 (M - lo + 1) + (c - M)) 4096)"
  using assms by (auto simp: min_def)

lemma observe_newer:
  assumes "represents s H" "Max H < unat c"
  shows "\<exists>s'. observe s c = Inr s' \<and> represents s' (insert (unat c) H)"
proof -
  obtain h lo where h: "lw_highest s = Some h" "unat h = Max H" and f: "finite H" "H \<noteq> {}" and ok: "lw_ok s"
    and sl: "slots (lw_words s) = (\<lambda>c. c mod 4096) ` recent H" and lo: "lo \<in> H"
      "unat (lw_span s) = min 4096 (Max H - lo + 1)" "\<forall>c\<in>recent H. lo \<le> c"
    using assms(1) by (auto simp: represents_def)
  have gt: "h < c" using assms(2) h(2) by (simp add: word_less_nat_alt)
  have d: "unat (c - h) = unat c - Max H" using gt h(2) unat_sub [of h c] by (simp add: less_imp_le)
  have m: "Max (insert (unat c) H) = unat c" using f assms(2) by (simp add: max_def del: Max_less_iff Max_ge_iff)
  have lo': "lo \<le> Max H" using lo(1) f by simp
  let ?R = "{x \<in> recent H. unat c - x < 4096}"
  note R = recent_insert_new [OF f assms(2)]
  define s1 where "s1 = (if unat c - Max H \<ge> 4096
    then Inr (s \<lparr>lw_words := replicate 64 0, lw_received := 0\<rparr>)
    else clear_slots s ((unat h mod 4096 + 1) mod 4096) (unat c - Max H))"
  have "\<exists>t. s1 = Inr t \<and> lw_ok t \<and> slots (lw_words t) = (\<lambda>c. c mod 4096) ` ?R \<and> lw_span t = lw_span s"
  proof (cases "unat c - Max H \<ge> 4096")
    case True
    then have "?R = {}" using recent_range [OF f(1)] by fastforce
    then show ?thesis using True by (simp add: s1_def lw_ok_def)
  next
    case False
    have "Max H + (unat c - Max H) = unat c" using assms(2) by linarith
    then have "slots (lw_words s) - cyclic ((Max H mod 4096 + 1) mod 4096) (unat c - Max H) = (\<lambda>c. c mod 4096) ` ?R"
      using slots_advance [OF f assms(2)] False by (simp only: cyclic_counters sl not_le)
    then show ?thesis
      using clear_slots_ok [OF ok, of "(Max H mod 4096 + 1) mod 4096" "unat c - Max H"] False
      unfolding s1_def h(2) by auto
  qed
  then obtain t where t: "s1 = Inr t" "lw_ok t" "slots (lw_words t) = (\<lambda>c. c mod 4096) ` ?R" "lw_span t = lw_span s"
    by blast
  define n where "n = min 4096 (unat c - lo + 1)"
  have sp: "of_nat n = (if unat c - Max H \<ge> 4096 then (of_nat 4096 :: u16)
      else of_nat (min (unat (lw_span t) + (unat c - Max H)) 4096))"
  proof -
    have "n = (if unat c - Max H \<ge> 4096 then 4096 else min (unat (lw_span t) + (unat c - Max H)) 4096)"
      unfolding n_def t(4) lo(2) using lo' assms(2) by (rule span_advance)
    then show ?thesis by (simp only: split: if_split) simp
  qed
  have ob: "observe s c = note_counter (t \<lparr>lw_span := of_nat n, lw_highest := Some c\<rparr>) c"
    using t(1) gt unfolding sp observe_def h(1) s1_def
    by (simp add: Let_def d loss_consts split: if_splits)
  have "lw_ok (t \<lparr>lw_span := of_nat n, lw_highest := Some c\<rparr>)" using t(2) by (simp add: lw_ok_def)
  from note_counter_ok [OF this, of c] obtain s' where s': "observe s c = Inr s'" "lw_ok s'"
    "slots (lw_words s') = insert (unat c mod 4096) (slots (lw_words t))" "lw_span s' = of_nat n"
    "lw_highest s' = Some c" by (auto simp: ob)
  have "n < 2 ^ 16" by (simp add: n_def)
  then have "unat (of_nat n :: u16) = n" by (simp add: unat_of_nat)
  then have "represents s' (insert (unat c) H)"
    unfolding represents_def m R using s' t(3) f lo lo' assms(2) by (auto simp: n_def intro!: bexI [of _ lo])
  with s'(1) show ?thesis by blast
qed

lemma observe_older:
  assumes "represents s H" "unat c \<le> Max H"
  shows "\<exists>s'. observe s c = Inr s' \<and> represents s' (insert (unat c) H)"
proof -
  obtain h lo where h: "lw_highest s = Some h" "unat h = Max H" and f: "finite H" "H \<noteq> {}" and ok: "lw_ok s"
    and sl: "slots (lw_words s) = (\<lambda>c. c mod 4096) ` recent H" and lo: "lo \<in> H"
      "unat (lw_span s) = min 4096 (Max H - lo + 1)" "\<forall>c\<in>recent H. lo \<le> c"
    using assms(1) by (auto simp: represents_def)
  have ngt: "\<not> h < c" using assms(2) h(2) by (simp add: word_less_nat_alt)
  have d: "unat (h - c) = Max H - unat c" using ngt h(2) unat_sub [of c h] by (simp add: not_less)
  have m: "Max (insert (unat c) H) = Max H" using f assms(2) by (simp add: max_def del: Max_less_iff Max_ge_iff)
  note R = recent_insert_old [OF f assms(2)]
  show ?thesis
  proof (cases "Max H - unat c < 4096")
    case False
    then have "represents s (insert (unat c) H)"
      unfolding represents_def m R using ok f h sl lo by auto
    then show ?thesis using False ngt by (simp add: observe_def h(1) d loss_consts)
  next
    case True
    let ?t = "s \<lparr>lw_span := max (lw_span s) (of_nat (Max H - unat c + 1))\<rparr>"
    have "lw_ok ?t" using ok by (simp add: lw_ok_def)
    from note_counter_ok [OF this, of c] obtain s' where s': "observe s c = Inr s'" "lw_ok s'"
      "slots (lw_words s') = insert (unat c mod 4096) (slots (lw_words s))"
      "lw_span s' = max (lw_span s) (of_nat (Max H - unat c + 1))" "lw_highest s' = Some h"
      using True ngt h(1) by (auto simp: observe_def d loss_consts Let_def)
    have "unat (of_nat (Max H - unat c + 1) :: u16) = Max H - unat c + 1"
      using True by (simp only: unat_of_nat) simp
    then have "unat (lw_span s') = max (unat (lw_span s)) (Max H - unat c + 1)"
      using s'(4) by (simp add: max_def word_le_nat_alt)
    also have "\<dots> = min 4096 (Max H - min lo (unat c) + 1)"
      using True lo(2) assms(2) by (auto simp: min_def max_def)
    finally have "\<exists>l\<in>insert (unat c) H. unat (lw_span s') = min 4096 (Max H - l + 1) \<and>
        (\<forall>x\<in>insert (unat c) (recent H). l \<le> x)"
      using lo(1,3) by (intro bexI [of _ "min lo (unat c)"] conjI) (auto simp: min_le_iff_disj min_def split: if_splits)
    then have "represents s' (insert (unat c) H)"
      unfolding represents_def m R using True s' sl f h by simp
    with s'(1) show ?thesis by blast
  qed
qed

fun observe_all :: "ReceiverLossWindow \<Rightarrow> u64 list \<Rightarrow> ReceiverLossWindow result" where
  "observe_all s [] = Inr s"
| "observe_all s (c # cs) = bind (observe s c) (\<lambda>s. observe_all s cs)"

lemma observe_represents:
  assumes "represents s H"
  shows "\<exists>s'. observe s c = Inr s' \<and> represents s' (insert (unat c) H)"
  using observe_newer [OF assms] observe_older [OF assms] by (cases "Max H < unat c") (simp_all add: not_less)

lemma observe_all_represents:
  "represents s H \<Longrightarrow> \<exists>s'. observe_all s cs = Inr s' \<and> represents s' (H \<union> unat ` set cs)"
proof (induction cs arbitrary: s H)
  case (Cons c cs)
  from observe_represents [OF Cons.prems, of c] Cons.IH show ?case by fastforce
qed simp

lemma observe_all_default:
  assumes "cs \<noteq> []"
  shows "\<exists>s. observe_all ReceiverLossWindow_default cs = Inr s \<and> represents s (unat ` set cs)"
proof -
  obtain c cs' where cs: "cs = c # cs'" using assms by (cases cs) auto
  obtain s where s: "observe ReceiverLossWindow_default c = Inr s" "represents s {unat c}"
    using observe_first by blast
  from observe_all_represents [OF s(2), of cs'] s(1) show ?thesis by (simp add: cs)
qed

lemma loss_ppm_represents:
  assumes "represents s H"
  shows "\<exists>p. loss_ppm s = Inr p \<and> (\<forall>x. p = Some x \<longrightarrow> x \<le> 1000000)"
proof -
  define n r where "n = unat (lw_span s)" "r = unat (lw_received s)"
  have le: "lw_received s \<le> lw_span s" and n: "n \<le> 4096" using represents_counts [OF assms] by (auto simp: n_r_def)
  have d: "unat (lw_span s - lw_received s) = n - r" using unat_sub [OF le] by (simp add: n_r_def)
  have "(n - r) * 1000000 div n \<le> n * 1000000 div n" by (intro div_le_mono mult_le_mono1) simp
  then have "(n - r) * 1000000 div n \<le> 1000000" by (cases "n = 0") simp_all
  then have "of_nat ((n - r) * 1000000 div n) \<le> (1000000 :: u32)"
    by (simp add: word_le_nat_alt unat_of_nat)
  then show ?thesis using le by (auto simp: loss_ppm_def d n_r_def [symmetric] not_less)
qed

text \<open>
  C27: Over any non-empty history of counters the window never panics, its count of received
  packets is exactly the number of distinct counters less than 4096 behind the newest, its
  span reaches back to a counter of the history and covers all of these, and the loss it
  reports is at most a million parts per million.
\<close>

theorem loss_window_exact:
  assumes "cs \<noteq> []"
  shows "\<exists>s. observe_all ReceiverLossWindow_default cs = Inr s \<and>
    fst (counts s) = card {c \<in> unat ` set cs. Max (unat ` set cs) - c < 4096} \<and>
    fst (counts s) \<le> snd (counts s) \<and>
    (\<exists>lo\<in>unat ` set cs. snd (counts s) = min 4096 (Max (unat ` set cs) - lo + 1)) \<and>
    (\<exists>p. loss_ppm s = Inr p \<and> (\<forall>x. p = Some x \<longrightarrow> x \<le> 1000000))"
proof -
  obtain s where s: "observe_all ReceiverLossWindow_default cs = Inr s" "represents s (unat ` set cs)"
    using observe_all_default [OF assms] by blast
  note r = represents_counts [OF s(2)] loss_ppm_represents [OF s(2)]
  have "\<exists>lo\<in>unat ` set cs. snd (counts s) = min 4096 (Max (unat ` set cs) - lo + 1)"
    using s(2) by (auto simp: represents_def counts_def)
  then show ?thesis using s(1) r by (auto simp: counts_def recent_def word_le_nat_alt)
qed

theorem loss_window_exact_witness:
  "\<exists>s. observe_all ReceiverLossWindow_default [5, 7, 5] = Inr s \<and> fst (counts s) = 2"
proof -
  have *: "Max {5, 7 :: nat} = 7" by simp
  have "{c :: nat. (c = 5 \<or> c = 7) \<and> 7 - c < 4096} = {5, 7}" by auto
  then show ?thesis using loss_window_exact [of "[5, 7, 5]"] by (auto simp: insert_commute)
qed

section \<open>The tracker's averages\<close>

lemma ewma_bounds:
  fixes r s :: nat
  shows "min r s \<le> (r * 7 + s) div 8" "(r * 7 + s) div 8 \<le> max r s"
  by (auto simp: min_def max_def)

fun record_rtts :: "QualityTracker \<Rightarrow> u64 list \<Rightarrow> QualityTracker result" where
  "record_rtts t [] = Inr t"
| "record_rtts t (x # xs) = bind (record_rtt t x) (\<lambda>t. record_rtts t xs)"

lemma record_rtt_step:
  assumes "unat (rtt_us t) \<le> B" "unat (jitter_us t) \<le> B" "unat x \<le> B" "8 * B < 2 ^ 64"
  shows "\<exists>t'. record_rtt t x = Inr t' \<and> unat (rtt_us t') \<le> B \<and> unat (jitter_us t') \<le> B \<and>
    (rtt_us t \<noteq> 0 \<longrightarrow> min (unat (rtt_us t)) (unat x) \<le> unat (rtt_us t')) \<and>
    (rtt_us t = 0 \<longrightarrow> rtt_us t' = x)"
proof (cases "rtt_us t = 0")
  case False
  define dev where "dev = (if x \<ge> rtt_us t then x - rtt_us t else rtt_us t - x)"
  have dev: "unat dev \<le> B" using assms unat_sub [of "rtt_us t" x] unat_sub [of x "rtt_us t"]
    by (auto simp: dev_def)
  let ?j = "unat (jitter_us t) * 7 + unat dev" and ?r = "unat (rtt_us t) * 7 + unat x"
  have j: "?j < 2 ^ 64" "?j div 8 \<le> B" and r: "?r < 2 ^ 64" "?r div 8 \<le> B"
    using assms dev by auto
  have u: "unat (of_nat (?j div 8) :: u64) = ?j div 8" "unat (of_nat (?r div 8) :: u64) = ?r div 8"
    using j r by (simp_all add: unat_of_nat)
  have "record_rtt t x = Inr (t \<lparr>jitter_us := of_nat (?j div 8), rtt_us := of_nat (?r div 8)\<rparr>)"
    unfolding record_rtt_def dev_def [symmetric] using False j r by (simp add: Let_def EWMA_ALPHA_INV_def dev_def [symmetric])
  then show ?thesis using False j r ewma_bounds(1) [of "unat (rtt_us t)" "unat x"] by (auto simp: u)
qed (use assms in \<open>simp add: record_rtt_def\<close>)

lemma record_rtts_bounds:
  assumes "unat (rtt_us t) \<le> B" "unat (jitter_us t) \<le> B" "\<forall>x\<in>set xs. A \<le> unat x \<and> unat x \<le> B"
    "8 * B < 2 ^ 64" "0 < A" "rtt_us t \<noteq> 0 \<longrightarrow> A \<le> unat (rtt_us t)"
  shows "\<exists>t'. record_rtts t xs = Inr t' \<and> unat (rtt_us t') \<le> B \<and> unat (jitter_us t') \<le> B \<and>
    (rtt_us t \<noteq> 0 \<or> xs \<noteq> [] \<longrightarrow> A \<le> unat (rtt_us t'))"
  using assms(1-3,6)
proof (induction xs arbitrary: t)
  case (Cons x xs)
  have x: "A \<le> unat x" "unat x \<le> B" using Cons.prems(3) by auto
  obtain t' where t': "record_rtt t x = Inr t'" "unat (rtt_us t') \<le> B" "unat (jitter_us t') \<le> B"
    "A \<le> unat (rtt_us t')"
    using record_rtt_step [OF Cons.prems(1,2) x(2) assms(4)] x Cons.prems(4) by (cases "rtt_us t = 0") auto
  then have "rtt_us t' \<noteq> 0" using assms(5) by auto
  with Cons.IH [OF t'(2,3)] Cons.prems(3) t' show ?case by auto
qed auto

text \<open>
  Whatever round-trip samples arrive between a positive lower and an upper bound that
  leaves room for the weighted sum, the tracker never overflows, its average stays between
  these bounds, and the jitter estimate stays below the upper one.
\<close>

lemma rtt_average_bounded:
  assumes "0 < A" "8 * B < 2 ^ 64" "\<forall>x\<in>set xs. A \<le> unat x \<and> unat x \<le> B" "xs \<noteq> []"
  shows "\<exists>t. record_rtts QualityTracker_new xs = Inr t \<and>
    A \<le> unat (rtt_us t) \<and> unat (rtt_us t) \<le> B \<and> unat (jitter_us t) \<le> B"
  using record_rtts_bounds [of QualityTracker_new B xs A] assms by (auto simp: QualityTracker_new_def)

lemma points_mono: "(x :: nat) \<le> y \<Longrightarrow> (if y \<ge> n then 0 else k * (n - y) div n) \<le> (if x \<ge> n then 0 else k * (n - x) div n)"
  by (auto intro!: div_le_mono mult_le_mono2)

text \<open>
  The quality score is at most 100, and it is monotone: a link that is no worse in round
  trip, jitter and loss gets no smaller score.
\<close>

lemma score_monotone:
  assumes "rtt_us t \<le> rtt_us u" "jitter_us t \<le> jitter_us u"
    "tracker_loss_ppm t = Inr l" "tracker_loss_ppm u = Inr l'" "l \<le> l'"
  shows "\<exists>x y. score t k = Inr x \<and> score u k = Inr y \<and> y \<le> x \<and> x \<le> 100"
proof -
  have "rtt_ms t \<le> rtt_ms u" "jitter_ms t \<le> jitter_ms u"
    using assms(1,2) by (auto simp: rtt_ms_def jitter_ms_def word_le_nat_alt div_le_mono min_le_iff_disj)
  then show ?thesis
    using assms(3-5) points_mono [of "rtt_ms t" "rtt_ms u" 300 40] points_mono [of "jitter_ms t" "jitter_ms u" 100 20]
      points_mono [of l l' 50000 30]
    by (simp add: score_def Let_def del: not_less split del: if_split)
      (rule min.coboundedI1, intro add_mono order_refl; assumption)
qed

end
