(* ===== verification/Ip_Packet.thy ===== *)
theory Ip_Packet
  imports Interfaces
begin

text \<open>
  IP packets of \<open>aivpn_common::ip_packet\<close>: the length and address check that precedes
  routing, and the shard of the destination.  The classification of packets into flows of
  \<open>flow_queue.rs\<close> reads the checked packet; its indexing is modelled with the bounds
  checks of the language, so a read past the end would be a panic.
\<close>

unbundle bit_operations_syntax

section \<open>Parsing\<close>

datatype IpAddr = IpV4 u32 | IpV6 u128

record IpPacket =
  ip_source :: IpAddr
  ip_destination :: IpAddr
  ip_length :: nat

definition parse_v4 :: "bytes \<Rightarrow> IpPacket option result" where
  "parse_v4 bs =
     bind (idx bs 0) (\<lambda>b0.
     bind (slice bs 2 4) (\<lambda>l.
       let header_len = unat (b0 AND 15) * 4;
           len = unat (from_be l :: u16)
       in if header_len < 20 \<or> len < header_len then Inr None
          else bind (slice bs 12 16) (\<lambda>src.
               bind (slice bs 16 20) (\<lambda>dst.
                 Inr (Some \<lparr>ip_source = IpV4 (from_be src), ip_destination = IpV4 (from_be dst), ip_length = len\<rparr>)))))"

definition parse_v6 :: "bytes \<Rightarrow> IpPacket option result" where
  "parse_v6 bs =
     bind (slice bs 4 6) (\<lambda>l.
     bind (idx bs 6) (\<lambda>next_header.
       let payload = unat (from_be l :: u16)
       in if payload = 0 \<and> next_header \<noteq> 59 then Inr None
          else bind (slice bs 8 24) (\<lambda>src.
               bind (slice bs 24 40) (\<lambda>dst.
                 Inr (Some \<lparr>ip_source = IpV6 (from_be src), ip_destination = IpV6 (from_be dst),
                            ip_length = 40 + payload\<rparr>)))))"

definition parse_ip :: "bytes \<Rightarrow> IpPacket option result" where
  "parse_ip bs =
     (case bs of
        [] \<Rightarrow> Inr None
      | b # _ \<Rightarrow>
          bind (if drop_bit 4 b = 4 \<and> length bs \<ge> 20 then parse_v4 bs
                else if drop_bit 4 b = 6 \<and> length bs \<ge> 40 then parse_v6 bs
                else Inr None)
            (\<lambda>r. case r of
               None \<Rightarrow> Inr None
             | Some packet \<Rightarrow>
                 if ip_length packet > length bs \<or> list_ex (\<lambda>b. b \<noteq> 0) (drop (ip_length packet) bs) then Inr None
                 else Inr (Some packet)))"

definition destination_shard :: "IpPacket \<Rightarrow> nat \<Rightarrow> nat" where
  "destination_shard p count =
     (case ip_destination p of IpV4 a \<Rightarrow> unat a | IpV6 a \<Rightarrow> unat a) mod max count 1"

section \<open>Flows\<close>

record Flow =
  fl_source :: IpAddr
  fl_destination :: IpAddr
  fl_protocol :: u8
  fl_ports :: bytes

definition flow_ports :: "bytes \<Rightarrow> u8 \<Rightarrow> nat \<Rightarrow> bool \<Rightarrow> nat \<Rightarrow> bytes result" where
  "flow_ports packet protocol offset fragmented len =
     (if \<not> fragmented \<and> protocol \<in> {6, 17} \<and> offset + 4 \<le> len then slice packet offset (offset + 4)
      else if \<not> fragmented \<and> protocol \<in> {1, 58} \<and> offset + 8 \<le> len
      then bind (slice packet (offset + 4) (offset + 6)) (\<lambda>p. Inr (p @ [0, 0]))
      else Inr [0, 0, 0, 0])"

definition flow :: "bytes \<Rightarrow> Flow option result" where
  "flow packet =
     bind (parse_ip packet) (\<lambda>r. case r of
       None \<Rightarrow> Inr None
     | Some ip \<Rightarrow>
         bind (idx packet 0) (\<lambda>b0.
         bind (if drop_bit 4 b0 = 4
               then bind (idx packet 9) (\<lambda>protocol. bind (slice packet 6 8) (\<lambda>f.
                      Inr (protocol, unat (b0 AND 15) * 4, (from_be f :: u16) AND 0x3fff \<noteq> 0)))
               else bind (idx packet 6) (\<lambda>protocol. Inr (protocol, 40, False)))
         (\<lambda>(protocol, offset, fragmented).
         bind (flow_ports packet protocol offset fragmented (ip_length ip)) (\<lambda>ports.
           Inr (Some \<lparr>fl_source = ip_source ip, fl_destination = ip_destination ip,
                      fl_protocol = protocol, fl_ports = ports\<rparr>)))))"

section \<open>What parsing guarantees\<close>

lemma parse_v4_ok:
  assumes "20 \<le> length bs" "parse_v4 bs = Inr (Some p)"
  shows "unat (bs ! 0 AND 15) * 4 \<ge> 20" "unat (bs ! 0 AND 15) * 4 \<le> ip_length p"
  using assms by (auto simp: parse_v4_def Let_def bind_eq_Inr idx_eq_Inr split: if_splits)

lemma parse_v6_ok:
  assumes "40 \<le> length bs" "parse_v6 bs = Inr (Some p)"
  shows "40 \<le> ip_length p"
  using assms by (auto simp: parse_v6_def Let_def bind_eq_Inr idx_eq_Inr split: if_splits)

lemma parse_parts_no_panic [no_panic]:
  "20 \<le> length bs \<Longrightarrow> parse_v4 bs \<noteq> Inl Panic"
  "40 \<le> length bs \<Longrightarrow> parse_v6 bs \<noteq> Inl Panic"
  by (auto simp: parse_v4_def parse_v6_def Let_def bind_eq_Inl idx_eq_Inl slice_eq_Inl split: if_splits)

lemma parse_ip_no_panic: "parse_ip bs \<noteq> Inl Panic"
  by (cases bs) (auto simp: parse_ip_def bind_eq_Inl parse_parts_no_panic split: if_splits option.splits)

lemma parse_ip_bounds:
  assumes "parse_ip bs = Inr (Some p)"
  shows "20 \<le> ip_length p \<and> ip_length p \<le> length bs \<and>
    (drop_bit 4 (bs ! 0) = 4 \<longrightarrow> unat (bs ! 0 AND 15) * 4 \<le> ip_length p) \<and>
    (drop_bit 4 (bs ! 0) \<noteq> 4 \<longrightarrow> 40 \<le> ip_length p) \<and> (\<forall>b\<in>set (drop (ip_length p) bs). b = 0)"
  using assms parse_v4_ok [of bs p] parse_v6_ok [of bs p]
  by (cases bs) (auto simp: parse_ip_def bind_eq_Inr list_ex_iff split: if_splits option.splits)

lemma flow_ports_no_panic: "len \<le> length packet \<Longrightarrow> flow_ports packet protocol offset fragmented len \<noteq> Inl Panic"
  by (auto simp: flow_ports_def)

lemma flow_no_panic: "flow packet \<noteq> Inl Panic"
proof (cases "parse_ip packet")
  case (Inl e)
  then show ?thesis using parse_ip_no_panic [of packet] by (simp add: flow_def)
next
  case (Inr r)
  show ?thesis
  proof (cases r)
    case None
    then show ?thesis using Inr by (simp add: flow_def)
  next
    case (Some ip)
    note b = parse_ip_bounds [OF Inr [unfolded Some]]
    have "idx packet 0 = Inr (packet ! 0)" using b by (intro idx_in) linarith
    then show ?thesis using Inr Some b flow_ports_no_panic [of "ip_length ip" packet]
      by (auto simp: flow_def bind_eq_Inl)
  qed
qed

lemma flow_total: obtains k where "flow packet = Inr k"
proof (cases "flow packet")
  case (Inl e)
  have "e = Panic"
    using Inl by (auto simp: flow_def parse_ip_def parse_v4_def parse_v6_def flow_ports_def Let_def bind_eq_Inl
        idx_eq_Inl slice_eq_Inl split: list.splits option.splits if_splits)
  then show ?thesis using Inl flow_no_panic by blast
qed

end
