(* ===== verification/Flow_Queue.thy ===== *)
theory Flow_Queue
  imports Ip_Packet "HOL-Library.Multiset"
begin

text \<open>
  The bounded queue of IP flows of \<open>aivpn_common::flow_queue\<close>: one lane per flow, served
  round robin, and when the queue is full a packet of a new flow evicts the tail of the
  longest lane.  \<open>unwrap\<close> of an absent lane or of an empty one is a panic.  The channel the
  packets come from belongs to the asynchronous runtime; its receive operations are
  parameters with a state of their own, from which the clock is read as well.
\<close>

section \<open>The fair queue\<close>

record 'a FairQueue =
  lanes :: "(Flow option, 'a list) hmap"
  active :: "Flow option list"
  fq_len :: nat
  capacity :: nat

definition FairQueue_new :: "nat \<Rightarrow> 'a FairQueue" where
  "FairQueue_new cap = \<lparr>lanes = [], active = [], fq_len = 0, capacity = max cap 1\<rparr>"

definition fq_is_empty :: "'a FairQueue \<Rightarrow> bool" where
  "fq_is_empty q \<longleftrightarrow> fq_len q = 0"

definition fq_clear :: "'a FairQueue \<Rightarrow> 'a FairQueue" where
  "fq_clear q = q \<lparr>lanes := [], active := [], fq_len := 0\<rparr>"

definition evict_longest :: "'a FairQueue \<Rightarrow> ('a option \<times> 'a FairQueue) result" where
  "evict_longest q =
     (case max_by_key (\<lambda>(_, lane). length lane) (lanes q) of
        None \<Rightarrow> Inl Panic
      | Some (victim, lane) \<Rightarrow>
          (if fq_len q = 0 then Inl Panic
           else let q = q \<lparr>fq_len := fq_len q - 1\<rparr> in
             Inr (if lane = [] then None else Some (last lane),
               if butlast lane = []
               then q \<lparr>lanes := AList.delete victim (lanes q), active := filter (\<lambda>c. c \<noteq> victim) (active q)\<rparr>
               else q \<lparr>lanes := AList.update victim (butlast lane) (lanes q)\<rparr>)))"

definition enqueue :: "Flow option \<Rightarrow> 'a \<Rightarrow> 'a FairQueue \<Rightarrow> 'a FairQueue" where
  "enqueue key item q =
     (case map_of (lanes q) key of
        None \<Rightarrow> q \<lparr>lanes := AList.update key [item] (lanes q), active := active q @ [key], fq_len := fq_len q + 1\<rparr>
      | Some lane \<Rightarrow> q \<lparr>lanes := AList.update key (lane @ [item]) (lanes q), fq_len := fq_len q + 1\<rparr>)"

text \<open>The inner sum is the result of the source: \<open>Inl\<close> returns the refused item.\<close>

definition fq_push :: "('a \<Rightarrow> bytes) \<Rightarrow> 'a FairQueue \<Rightarrow> 'a \<Rightarrow> (('a + 'a option) \<times> 'a FairQueue) result" where
  "fq_push packet q item =
     bind (flow (packet item)) (\<lambda>key.
       if fq_len q = capacity q
       then if contains_key key (lanes q) then Inr (Inl item, q)
            else bind (evict_longest q) (\<lambda>(evicted, q). Inr (Inr evicted, enqueue key item q))
       else Inr (Inr None, enqueue key item q))"

definition fq_oldest :: "('a \<Rightarrow> instant) \<Rightarrow> 'a FairQueue \<Rightarrow> instant option" where
  "fq_oldest timestamp q =
     (case [timestamp (hd lane). (_, lane) \<leftarrow> lanes q, lane \<noteq> []] of [] \<Rightarrow> None | ts \<Rightarrow> Some (Min (set ts)))"

definition fq_pop :: "'a FairQueue \<Rightarrow> ('a option \<times> 'a FairQueue) result" where
  "fq_pop q =
     (case active q of
        [] \<Rightarrow> Inr (None, q)
      | key # rest \<Rightarrow>
          (case map_of (lanes q) key of
             None \<Rightarrow> Inl Panic
           | Some [] \<Rightarrow> Inl Panic
           | Some (item # lane) \<Rightarrow>
               if fq_len q = 0 then Inl Panic
               else let q = q \<lparr>active := rest, fq_len := fq_len q - 1\<rparr> in
                 Inr (Some item,
                   if lane = [] then q \<lparr>lanes := AList.delete key (lanes q)\<rparr>
                   else q \<lparr>lanes := AList.update key lane (lanes q), active := rest @ [key]\<rparr>)))"

section \<open>The queue in front of the mask scheduler\<close>

record FlowQueue =
  fl_queue :: "(bytes \<times> instant) FairQueue"
  fl_wait :: duration

datatype TryRecvError = Empty | Disconnected

definition FlowQueue_new :: "nat \<Rightarrow> FlowQueue" where
  "FlowQueue_new cap = \<lparr>fl_queue = FairQueue_new cap, fl_wait = 0\<rparr>"

definition flow_push :: "FlowQueue \<Rightarrow> bytes \<Rightarrow> instant \<Rightarrow> FlowQueue result" where
  "flow_push q packet now =
     bind (fq_push fst (fl_queue q) (packet, now)) (\<lambda>(_, fq). Inr (q \<lparr>fl_queue := fq\<rparr>))"

definition flow_pop :: "FlowQueue \<Rightarrow> instant \<Rightarrow> (bytes option \<times> FlowQueue) result" where
  "flow_pop q now =
     (let q = q \<lparr>fl_wait := (case fq_oldest snd (fl_queue q) of None \<Rightarrow> 0 | Some at \<Rightarrow> now - at)\<rparr>
      in bind (fq_pop (fl_queue q)) (\<lambda>(item, fq). Inr (map_option fst item, q \<lparr>fl_queue := fq\<rparr>)))"

definition queue_wait :: "FlowQueue \<Rightarrow> duration" where
  "queue_wait q = fl_wait q"

fun receive_loop ::
    "('s \<Rightarrow> instant) \<Rightarrow> ('s \<Rightarrow> (TryRecvError + bytes) \<times> 's) \<Rightarrow> nat \<Rightarrow> FlowQueue \<Rightarrow> 's \<Rightarrow>
     (TryRecvError \<times> FlowQueue \<times> 's) result" where
  "receive_loop clock try_recv 0 q s = Inr (Empty, q, s)"
| "receive_loop clock try_recv (Suc n) q s =
     (case try_recv s of
        (Inr packet, s) \<Rightarrow> bind (flow_push q packet (clock s)) (\<lambda>q. receive_loop clock try_recv n q s)
      | (Inl e, s) \<Rightarrow> Inr (e, q, s))"

definition try_next ::
    "('s \<Rightarrow> instant) \<Rightarrow> ('s \<Rightarrow> (TryRecvError + bytes) \<times> 's) \<Rightarrow> FlowQueue \<Rightarrow> 's \<Rightarrow>
     ((TryRecvError + bytes) \<times> FlowQueue \<times> 's) result" where
  "try_next clock try_recv q s =
     bind (receive_loop clock try_recv (capacity (fl_queue q)) q s) (\<lambda>(empty, q, s).
     bind (flow_pop q (clock s)) (\<lambda>(item, q).
       Inr (case item of Some p \<Rightarrow> Inr p | None \<Rightarrow> Inl empty, q, s)))"

definition flow_next ::
    "('s \<Rightarrow> instant) \<Rightarrow> ('s \<Rightarrow> (TryRecvError + bytes) \<times> 's) \<Rightarrow> ('s \<Rightarrow> bytes option \<times> 's) \<Rightarrow>
     FlowQueue \<Rightarrow> 's \<Rightarrow> (bytes option \<times> FlowQueue \<times> 's) result" where
  "flow_next clock try_recv recv q s =
     bind (try_next clock try_recv q s) (\<lambda>(r, q, s). case r of
       Inr packet \<Rightarrow> Inr (Some packet, q, s)
     | Inl Disconnected \<Rightarrow> Inr (None, q, s)
     | Inl Empty \<Rightarrow>
         (case recv s of
            (None, s) \<Rightarrow> Inr (None, q, s)
          | (Some packet, s) \<Rightarrow>
              bind (flow_push q packet (clock s)) (\<lambda>q.
              bind (try_next clock try_recv q s) (\<lambda>(r, q, s).
                Inr (case r of Inr p \<Rightarrow> Some p | Inl _ \<Rightarrow> None, q, s)))))"

section \<open>Invariant\<close>

definition items :: "'a FairQueue \<Rightarrow> 'a list" where
  "items q = concat (map snd (lanes q))"

text \<open>
  Lanes are not empty, the round-robin order lists each lane once, every packet is in the
  lane of its flow, and the counter is the number of queued packets, at most the capacity.
\<close>

definition fq_inv :: "('a \<Rightarrow> bytes) \<Rightarrow> 'a FairQueue \<Rightarrow> bool" where
  "fq_inv packet q \<longleftrightarrow>
     wf_hmap (lanes q) \<and> distinct (active q) \<and> set (active q) = hkeys (lanes q) \<and>
     (\<forall>(k, lane)\<in>set (lanes q). lane \<noteq> [] \<and> (\<forall>x\<in>set lane. flow (packet x) = Inr k)) \<and>
     fq_len q = length (items q) \<and> fq_len q \<le> capacity q \<and> 0 < capacity q"

lemma concat_update:
  assumes "wf_hmap m"
  shows "mset (concat (map snd (AList.update k l m))) + mset (case map_of m k of None \<Rightarrow> [] | Some l' \<Rightarrow> l') =
    mset l + mset (concat (map snd m))"
  using assms
proof (induction m)
  case (Cons p m)
  obtain k' l' where p: "p = (k', l')" by (cases p)
  have wf: "wf_hmap m" and nk: "k' \<notin> fst ` set m" using Cons.prems by (auto simp: wf_hmap_def p)
  show ?case
  proof (cases "k' = k")
    case True
    then have "map_of m k = None" using nk by (simp add: map_of_eq_None_iff)
    then show ?thesis using True p by (simp add: add.assoc add.commute)
  next
    case False
    then show ?thesis using Cons.IH [OF wf] p by (simp add: add.assoc)
  qed
qed simp

lemma concat_delete:
  assumes "wf_hmap m"
  shows "mset (concat (map snd (AList.delete k m))) + mset (case map_of m k of None \<Rightarrow> [] | Some l' \<Rightarrow> l') =
    mset (concat (map snd m))"
  using assms
proof (induction m)
  case (Cons p m)
  obtain k' l' where p: "p = (k', l')" by (cases p)
  have wf: "wf_hmap m" and nk: "k' \<notin> fst ` set m" using Cons.prems by (auto simp: wf_hmap_def p)
  show ?case
  proof (cases "k' = k")
    case True
    then have "AList.delete k m = m" "map_of m k = None" using nk by (auto simp: map_of_eq_None_iff delete_id)
    then show ?thesis using True p by simp
  next
    case False
    then show ?thesis using Cons.IH [OF wf] p by (simp add: add.assoc)
  qed
qed simp

definition lane :: "'a FairQueue \<Rightarrow> Flow option \<Rightarrow> 'a list" where
  "lane q k = (case map_of (lanes q) k of None \<Rightarrow> [] | Some l \<Rightarrow> l)"

lemma lane_members:
  assumes "fq_inv packet q"
  shows "k \<in> set (active q) \<longleftrightarrow> lane q k \<noteq> []" "x \<in> set (lane q k) \<Longrightarrow> flow (packet x) = Inr k"
proof -
  have w: "wf_hmap (lanes q)" "set (active q) = hkeys (lanes q)"
    and l: "(k, l) \<in> set (lanes q) \<Longrightarrow> l \<noteq> [] \<and> (\<forall>x\<in>set l. flow (packet x) = Inr k)" for k l
    using assms by (auto simp: fq_inv_def)
  show "k \<in> set (active q) \<longleftrightarrow> lane q k \<noteq> []"
    using w l map_of_None_keys [of "lanes q" k] map_of_SomeD [of "lanes q" k]
    by (cases "map_of (lanes q) k") (auto simp: lane_def map_of_Some_keys)
  show "x \<in> set (lane q k) \<Longrightarrow> flow (packet x) = Inr k"
    using l map_of_SomeD [of "lanes q" k] by (cases "map_of (lanes q) k") (auto simp: lane_def)
qed

text \<open>Replacing one lane, and dropping it when the replacement is empty.\<close>

definition set_lane :: "Flow option \<Rightarrow> 'a list \<Rightarrow> 'a FairQueue \<Rightarrow> 'a FairQueue" where
  "set_lane k l q = q \<lparr>lanes := (if l = [] then AList.delete k (lanes q) else AList.update k l (lanes q))\<rparr>"

lemma lane_set_lane: "lane (set_lane k l q) = (lane q)(k := l)"
  by (auto simp: lane_def set_lane_def fun_eq_iff update_conv' delete_conv' split: option.splits)

lemma mset_set_lane:
  "wf_hmap (lanes q) \<Longrightarrow> mset (items (set_lane k l q)) + mset (lane q k) = mset l + mset (items q)"
  using concat_update [of "lanes q" k l] concat_delete [of "lanes q" k]
  by (auto simp: items_def lane_def set_lane_def)

lemma length_set_lane:
  "wf_hmap (lanes q) \<Longrightarrow> length (items (set_lane k l q)) + length (lane q k) = length l + length (items q)"
  using mset_set_lane [of q k l] by (metis size_mset size_union)

lemma fq_inv_set_lane:
  assumes "fq_inv packet q" "\<forall>x\<in>set l. flow (packet x) = Inr k" "distinct as"
    "set as = (if l = [] then set (active q) - {k} else insert k (set (active q)))"
    "n + length (lane q k) = length l + fq_len q" "n \<le> capacity q"
  shows "fq_inv packet (set_lane k l q \<lparr>active := as, fq_len := n\<rparr>)"
proof -
  have w: "wf_hmap (lanes q)" and a: "set (active q) = hkeys (lanes q)" and c: "0 < capacity q"
    and f: "fq_len q = length (items q)"
    and m: "\<forall>(k, l)\<in>set (lanes q). l \<noteq> [] \<and> (\<forall>x\<in>set l. flow (packet x) = Inr k)"
    using assms(1) by (auto simp: fq_inv_def)
  have n: "n = length (items (set_lane k l q))"
    using length_set_lane [OF w, of k l] assms(5) f by linarith
  have "set (lanes (set_lane k l q)) \<subseteq> (if l = [] then set (lanes q) else insert (k, l) (set (lanes q)))"
    using set_update_subset [of k l "lanes q"] set_delete_subset [of k "lanes q"] by (auto simp: set_lane_def)
  then have m': "\<forall>(k, l)\<in>set (lanes (set_lane k l q)). l \<noteq> [] \<and> (\<forall>x\<in>set l. flow (packet x) = Inr k)"
    using m assms(2) by (fastforce split: if_splits)
  have "hkeys (lanes (set_lane k l q)) = (if l = [] then set (active q) - {k} else insert k (set (active q)))"
    using a by (simp add: set_lane_def)
  moreover have "wf_hmap (lanes (set_lane k l q))" using w by (simp add: set_lane_def)
  ultimately show ?thesis
    using m' n assms(3,4,6) c by (auto simp: fq_inv_def items_def set_lane_def)
qed

lemma lane_more [simp]:
  "lane (q \<lparr>active := as, fq_len := n\<rparr>) = lane q" "items (q \<lparr>active := as, fq_len := n\<rparr>) = items q"
  by (auto simp: lane_def items_def fun_eq_iff)

lemma enqueue_eq:
  assumes "fq_inv packet q"
  shows "enqueue k x q = set_lane k (lane q k @ [x]) q
    \<lparr>active := active q @ (if lane q k = [] then [k] else []), fq_len := fq_len q + 1\<rparr>"
proof (cases "map_of (lanes q) k")
  case None
  then show ?thesis by (simp add: enqueue_def set_lane_def lane_def)
next
  case (Some l)
  then have "l \<noteq> []" using lane_members(1) [OF assms, of k] assms by (simp add: lane_def fq_inv_def map_of_Some_keys)
  then show ?thesis using Some by (simp add: enqueue_def set_lane_def lane_def)
qed

lemma enqueue_ok:
  assumes "fq_inv packet q" "fq_len q < capacity q" "flow (packet x) = Inr k"
  shows "fq_inv packet (enqueue k x q)" "mset (items (enqueue k x q)) = add_mset x (mset (items q))"
    "lane (enqueue k x q) = (lane q)(k := lane q k @ [x])" "fq_len (enqueue k x q) = fq_len q + 1"
    "active (enqueue k x q) = active q @ (if lane q k = [] then [k] else [])"
    "capacity (enqueue k x q) = capacity q"
proof -
  have w: "wf_hmap (lanes q)" "distinct (active q)" using assms(1) by (auto simp: fq_inv_def)
  note e = enqueue_eq [OF assms(1), of k x]
  show "fq_inv packet (enqueue k x q)"
    unfolding e using assms w lane_members [OF assms(1), where k = k]
    by (intro fq_inv_set_lane) auto
  show "mset (items (enqueue k x q)) = add_mset x (mset (items q))"
    unfolding e using mset_set_lane [OF w(1), of k "lane q k @ [x]"] by simp
  show "lane (enqueue k x q) = (lane q)(k := lane q k @ [x])" unfolding e by (simp add: lane_set_lane)
qed (simp_all add: enqueue_eq [OF assms(1)] set_lane_def)

lemma max_lane:
  assumes "fq_inv packet q" "0 < fq_len q"
  obtains k where "max_by_key (\<lambda>(_, l). length l) (lanes q) = Some (k, lane q k)" "lane q k \<noteq> []"
    "\<forall>k'. length (lane q k') \<le> length (lane q k)"
proof -
  have w: "wf_hmap (lanes q)" and f: "fq_len q = length (items q)" using assms(1) by (auto simp: fq_inv_def)
  then have "lanes q \<noteq> []" using assms(2) by (auto simp: items_def)
  then obtain k l where m: "max_by_key (\<lambda>(_, l). length l) (lanes q) = Some (k, l)"
    using max_by_key_None [of "\<lambda>(_, l). length l" "lanes q"] by (cases "max_by_key (\<lambda>(_, l). length l) (lanes q)") auto
  from max_by_key_in [OF m] have kl: "map_of (lanes q) k = Some l" by (rule map_of_in [OF w])
  then have l: "lane q k = l" by (simp add: lane_def)
  have "lane q k \<noteq> []" using kl lane_members(1) [OF assms(1), of k] assms(1)
    by (auto simp: fq_inv_def dest: map_of_Some_keys)
  moreover have "\<forall>k'. length (lane q k') \<le> length (lane q k)"
    using max_by_key_ge [OF m] by (fastforce simp: lane_def kl split: option.splits dest: map_of_SomeD)
  ultimately show ?thesis using m l that by simp
qed

lemma evict_ok:
  assumes "fq_inv packet q" "0 < fq_len q"
  obtains k q' where "evict_longest q = Inr (Some (last (lane q k)), q')" "lane q k \<noteq> []" "fq_inv packet q'"
    "\<forall>k'. length (lane q k') \<le> length (lane q k)" "lane q' = (lane q)(k := butlast (lane q k))"
    "fq_len q = fq_len q' + 1" "mset (items q) = add_mset (last (lane q k)) (mset (items q'))"
    "active q' = filter (\<lambda>c. lane q' c \<noteq> []) (active q)" "capacity q' = capacity q"
proof -
  obtain k where k: "max_by_key (\<lambda>(_, l). length l) (lanes q) = Some (k, lane q k)" "lane q k \<noteq> []"
    "\<forall>k'. length (lane q k') \<le> length (lane q k)" using max_lane [OF assms] by blast
  have w: "wf_hmap (lanes q)" "distinct (active q)" "fq_len q \<le> capacity q"
    using assms(1) by (auto simp: fq_inv_def)
  define as where "as = filter (\<lambda>c. c \<noteq> k \<or> butlast (lane q k) \<noteq> []) (active q)"
  define q' where "q' = set_lane k (butlast (lane q k)) q \<lparr>active := as, fq_len := fq_len q - 1\<rparr>"
  have ev: "evict_longest q = Inr (Some (last (lane q k)), q')"
    using k(1,2) assms(2) by (auto simp: evict_longest_def q'_def set_lane_def as_def)
  have m: "\<forall>x\<in>set (lane q k). flow (packet x) = Inr k" "k \<in> set (active q)"
    using lane_members [OF assms(1), where k = k] k(2) by auto
  obtain n where "length (lane q k) = Suc n" using k(2) by (cases "lane q k") auto
  then have inv: "fq_inv packet q'"
    unfolding q'_def using assms w k(2) m
    by (intro fq_inv_set_lane) (auto simp: as_def dest: in_set_butlastD)
  have ln: "lane q' = (lane q)(k := butlast (lane q k))" by (simp add: q'_def lane_set_lane)
  have "mset (items q') + mset (lane q k) = mset (butlast (lane q k)) + mset (items q)"
    using mset_set_lane [OF w(1), of k "butlast (lane q k)"] by (simp add: q'_def)
  moreover have "mset (lane q k) = add_mset (last (lane q k)) (mset (butlast (lane q k)))"
    using arg_cong [OF append_butlast_last_id [OF k(2)], of mset] by simp
  ultimately have ms: "mset (items q) = add_mset (last (lane q k)) (mset (items q'))" by simp
  have "active q' = filter (\<lambda>c. lane q' c \<noteq> []) (active q)"
    unfolding ln using lane_members(1) [OF assms(1)] by (auto simp: q'_def as_def intro!: filter_cong)
  moreover have "fq_len q = fq_len q' + 1" "capacity q' = capacity q" using assms(2) by (auto simp: q'_def set_lane_def)
  ultimately show ?thesis using that ev k(2,3) inv ln ms by blast
qed

lemma pop_ok:
  assumes "fq_inv packet q" "active q = k # rest"
  obtains x l q' where "lane q k = x # l" "fq_pop q = Inr (Some x, q')" "fq_inv packet q'"
    "lane q' = (lane q)(k := l)" "active q' = rest @ (if l = [] then [] else [k])"
    "fq_len q = fq_len q' + 1" "mset (items q) = add_mset x (mset (items q'))" "capacity q' = capacity q"
proof -
  have w: "wf_hmap (lanes q)" "distinct (active q)" "fq_len q \<le> capacity q" "fq_len q = length (items q)"
    using assms(1) by (auto simp: fq_inv_def)
  obtain x l where l: "lane q k = x # l"
    using lane_members(1) [OF assms(1), of k] assms(2) by (cases "lane q k") auto
  then have mo: "map_of (lanes q) k = Some (x # l)" by (auto simp: lane_def split: option.splits)
  have "x \<in> set (items q)" using map_of_SomeD [OF mo] unfolding items_def set_concat by (intro UN_I [of "x # l"]) force+
  then have pos: "0 < fq_len q" using w(4) by (cases "items q") auto
  define q' where "q' = set_lane k l q \<lparr>active := rest @ (if l = [] then [] else [k]), fq_len := fq_len q - 1\<rparr>"
  have p: "fq_pop q = Inr (Some x, q')"
    using assms(2) mo pos by (auto simp: fq_pop_def q'_def set_lane_def)
  have m: "\<forall>y\<in>set (lane q k). flow (packet y) = Inr k" using lane_members(2) [OF assms(1)] by blast
  have inv: "fq_inv packet q'"
    unfolding q'_def using assms w(2,3) l m pos
    by (intro fq_inv_set_lane) auto
  have "mset (items q') + mset (lane q k) = mset l + mset (items q)"
    using mset_set_lane [OF w(1), of k l] by (simp add: q'_def)
  then have ms: "mset (items q) = add_mset x (mset (items q'))" by (simp add: l)
  have "lane q' = (lane q)(k := l)" "active q' = rest @ (if l = [] then [] else [k])"
    "fq_len q = fq_len q' + 1" "capacity q' = capacity q"
    using pos by (simp_all add: q'_def lane_set_lane) (simp_all add: set_lane_def)
  with that l p inv ms show ?thesis by blast
qed

lemma pop_empty: "fq_inv packet q \<Longrightarrow> active q = [] \<Longrightarrow> fq_pop q = Inr (None, q) \<and> items q = []"
  by (cases "lanes q") (auto simp: fq_pop_def fq_inv_def hkeys_def items_def)

text \<open>The outcomes of a push: queued, refused because the flow already has a lane, or queued in the
  place of the newest packet of the longest lane.\<close>

lemma push_ok:
  assumes "fq_inv packet q" "flow (packet x) = Inr k"
  obtains "fq_len q < capacity q" "fq_push packet q x = Inr (Inr None, enqueue k x q)"
  | "fq_len q = capacity q" "lane q k \<noteq> []" "fq_push packet q x = Inr (Inl x, q)"
  | v q' where "fq_len q = capacity q" "lane q k = []" "lane q v \<noteq> []" "fq_inv packet q'" "fq_len q' < capacity q'"
    "\<forall>k'. length (lane q k') \<le> length (lane q v)" "lane q' = (lane q)(v := butlast (lane q v))"
    "mset (items q) = add_mset (last (lane q v)) (mset (items q'))"
    "active q' = filter (\<lambda>c. lane q' c \<noteq> []) (active q)" "capacity q' = capacity q"
    "fq_push packet q x = Inr (Inr (Some (last (lane q v))), enqueue k x q')"
proof -
  have le: "fq_len q \<le> capacity q" "0 < capacity q" using assms(1) by (auto simp: fq_inv_def)
  have ck: "contains_key k (lanes q) \<longleftrightarrow> lane q k \<noteq> []"
    using lane_members(1) [OF assms(1), of k] assms(1) by (simp add: fq_inv_def)
  consider "fq_len q < capacity q" | "fq_len q = capacity q" "lane q k \<noteq> []" | "fq_len q = capacity q" "lane q k = []"
    using le by fastforce
  then show ?thesis
  proof cases
    case 3
    then have "0 < fq_len q" using le by simp
    from evict_ok [OF assms(1) this] obtain v q' where e: "evict_longest q = Inr (Some (last (lane q v)), q')"
      "lane q v \<noteq> []" "fq_inv packet q'" "\<forall>k'. length (lane q k') \<le> length (lane q v)"
      "lane q' = (lane q)(v := butlast (lane q v))" "fq_len q = fq_len q' + 1"
      "mset (items q) = add_mset (last (lane q v)) (mset (items q'))"
      "active q' = filter (\<lambda>c. lane q' c \<noteq> []) (active q)" "capacity q' = capacity q" by metis
    have "fq_push packet q x = Inr (Inr (Some (last (lane q v))), enqueue k x q')"
      using 3 assms(2) ck e(1) by (simp add: fq_push_def)
    moreover have "fq_len q' < capacity q'" using e(6,9) 3(1) by simp
    ultimately show ?thesis using that(3) 3 e by blast
  qed (use that assms(2) ck in \<open>simp_all add: fq_push_def\<close>)
qed

section \<open>Runs of operations\<close>

datatype 'a queue_op = Push 'a | Pop | Clear
datatype 'a queue_out = Queued "'a option" | Refused 'a | Popped "'a option" | Cleared "'a list"

definition fq_step :: "('a \<Rightarrow> bytes) \<Rightarrow> 'a FairQueue \<Rightarrow> 'a queue_op \<Rightarrow> ('a queue_out \<times> 'a FairQueue) result" where
  "fq_step packet q oper =
     (case oper of
        Push x \<Rightarrow> bind (fq_push packet q x) (\<lambda>(r, q). Inr (case r of Inl y \<Rightarrow> Refused y | Inr e \<Rightarrow> Queued e, q))
      | Pop \<Rightarrow> bind (fq_pop q) (\<lambda>(x, q). Inr (Popped x, q))
      | Clear \<Rightarrow> Inr (Cleared (items q), fq_clear q))"

fun fq_run :: "('a \<Rightarrow> bytes) \<Rightarrow> 'a FairQueue \<Rightarrow> 'a queue_op list \<Rightarrow> ('a queue_out list \<times> 'a FairQueue) result" where
  "fq_run packet q [] = Inr ([], q)"
| "fq_run packet q (oper # ops) =
     bind (fq_step packet q oper) (\<lambda>(y, q). bind (fq_run packet q ops) (\<lambda>(ys, q). Inr (y # ys, q)))"

fun offered :: "'a queue_op \<Rightarrow> 'a list" where
  "offered (Push x) = [x]"
| "offered _ = []"

fun released :: "'a queue_out \<Rightarrow> 'a list" where
  "released (Queued None) = []"
| "released (Queued (Some x)) = [x]"
| "released (Refused x) = [x]"
| "released (Popped None) = []"
| "released (Popped (Some x)) = [x]"
| "released (Cleared xs) = xs"

lemma fq_step_ok:
  assumes "fq_inv packet q"
  shows "\<exists>y q'. fq_step packet q oper = Inr (y, q') \<and> fq_inv packet q' \<and> capacity q' = capacity q \<and>
    mset (offered oper) + mset (items q) = mset (released y) + mset (items q')"
proof (cases oper)
  case (Push x)
  obtain k where k: "flow (packet x) = Inr k" by (rule flow_total)
  from assms k show ?thesis
  proof (cases rule: push_ok)
    case 1
    then show ?thesis using enqueue_ok [OF assms 1(1) k] by (simp add: Push fq_step_def)
  next
    case 2
    then show ?thesis using assms by (simp add: Push fq_step_def)
  next
    case (3 v q')
    show ?thesis using enqueue_ok [OF 3(4,5) k] 3(8,10,11) by (simp add: Push fq_step_def)
  qed
next
  case Pop
  show ?thesis
  proof (cases "active q")
    case Nil
    then show ?thesis using pop_empty [OF assms Nil] assms by (simp add: Pop fq_step_def)
  next
    case (Cons k rest)
    show ?thesis by (rule pop_ok [OF assms Cons]) (simp add: Pop fq_step_def)
  qed
next
  case Clear
  then show ?thesis using assms by (auto simp: fq_step_def fq_clear_def fq_inv_def items_def hkeys_def)
qed

lemma fq_run_ok:
  "fq_inv packet q \<Longrightarrow> \<exists>ys q'. fq_run packet q ops = Inr (ys, q') \<and> fq_inv packet q' \<and> capacity q' = capacity q \<and>
    mset (concat (map offered ops)) + mset (items q) = mset (concat (map released ys)) + mset (items q')"
proof (induction ops arbitrary: q)
  case (Cons oper ops)
  from fq_step_ok [OF Cons.prems, of oper] obtain y q1 where s: "fq_step packet q oper = Inr (y, q1)" "fq_inv packet q1"
    "capacity q1 = capacity q" "mset (offered oper) + mset (items q) = mset (released y) + mset (items q1)" by blast
  from Cons.IH [OF s(2)] obtain ys q2 where r: "fq_run packet q1 ops = Inr (ys, q2)" "fq_inv packet q2"
    "capacity q2 = capacity q1"
    "mset (concat (map offered ops)) + mset (items q1) = mset (concat (map released ys)) + mset (items q2)" by blast
  have "mset (concat (map offered (oper # ops))) + mset (items q) =
      mset (concat (map offered ops)) + (mset (released y) + mset (items q1))"
    unfolding s(4) [symmetric] by (simp add: add.assoc add.commute add.left_commute)
  also have "\<dots> = mset (released y) + (mset (concat (map released ys)) + mset (items q2))"
    unfolding r(4) [symmetric] by (simp add: add.assoc add.commute add.left_commute)
  finally show ?case using s r by (simp add: add.assoc)
qed simp

lemma fq_inv_new: "fq_inv packet (FairQueue_new cap)"
  by (simp add: fq_inv_def FairQueue_new_def items_def hkeys_def)

text \<open>
  C33: Whatever packets are pushed and popped in whatever order, the queue never panics,
  never holds more than its capacity, and loses or duplicates nothing: the packets offered
  are exactly those handed out, evicted or refused and those still queued.
\<close>

theorem fair_queue_conserves:
  "\<exists>ys q. fq_run packet (FairQueue_new cap) ops = Inr (ys, q) \<and> fq_len q = length (items q) \<and>
     fq_len q \<le> max cap 1 \<and>
     mset (concat (map offered ops)) = mset (concat (map released ys)) + mset (items q)"
proof -
  from fq_run_ok [OF fq_inv_new [of packet cap], of ops] obtain ys q where
    r: "fq_run packet (FairQueue_new cap) ops = Inr (ys, q)" "fq_inv packet q" "capacity q = max cap 1"
    "mset (concat (map offered ops)) + mset (items (FairQueue_new cap :: 'a FairQueue)) = mset (concat (map released ys)) + mset (items q)"
    by (auto simp: FairQueue_new_def)
  moreover have "items (FairQueue_new cap :: 'a FairQueue) = []" by (simp add: FairQueue_new_def items_def)
  ultimately show ?thesis by (auto simp: fq_inv_def)
qed

section \<open>Order within a flow\<close>

lemma drain:
  assumes "fq_inv packet q" "fq_len q = n"
  shows "\<exists>xs q'. fq_run packet q (replicate n Pop) = Inr (map (\<lambda>x. Popped (Some x)) xs, q') \<and>
    fq_len q' = 0 \<and> (\<forall>k. filter (\<lambda>x. flow (packet x) = Inr k) xs = lane q k)"
  using assms
proof (induction n arbitrary: q)
  case 0
  then have "items q = []" by (simp add: fq_inv_def)
  then have "lane q k = []" for k
    using map_of_SomeD [of "lanes q" k] by (cases "map_of (lanes q) k") (force simp: items_def lane_def)+
  then show ?case using 0 by simp
next
  case (Suc n)
  obtain k rest where a: "active q = k # rest"
    using pop_empty [OF Suc.prems(1)] Suc.prems by (cases "active q") (auto simp: fq_inv_def)
  from pop_ok [OF Suc.prems(1) a] obtain x l q1 where p: "lane q k = x # l" "fq_pop q = Inr (Some x, q1)"
    "fq_inv packet q1" "lane q1 = (lane q)(k := l)" "fq_len q = fq_len q1 + 1" by metis
  have x: "flow (packet x) = Inr k" using lane_members(2) [OF Suc.prems(1), of x k] p(1) by simp
  from Suc.IH [OF p(3)] p(5) Suc.prems(2) obtain xs q' where
    r: "fq_run packet q1 (replicate n Pop) = Inr (map (\<lambda>x. Popped (Some x)) xs, q')" "fq_len q' = 0"
    "\<forall>k. filter (\<lambda>x. flow (packet x) = Inr k) xs = lane q1 k" by auto
  show ?case
    using r p x by (intro exI [of _ "x # xs"] exI [of _ q']) (auto simp: fq_step_def)
qed

text \<open>
  In any state the queue reaches, as many pops as there are queued packets empty it,
  and the packets of each flow come out in the order of that flow's lane.
\<close>

lemma fair_queue_fifo_per_flow:
  assumes "fq_run packet (FairQueue_new cap) ops = Inr (ys, q)"
  shows "\<exists>xs q'. fq_run packet q (replicate (fq_len q) Pop) = Inr (map (\<lambda>x. Popped (Some x)) xs, q') \<and>
    fq_len q' = 0 \<and> (\<forall>k. filter (\<lambda>x. flow (packet x) = Inr k) xs = lane q k)"
proof -
  have "fq_inv packet q" using fq_run_ok [OF fq_inv_new [of packet cap], of ops] assms by auto
  from drain [OF this refl] show ?thesis .
qed

section \<open>Every flow is served\<close>

text \<open>The number of lanes served before the lane of a flow.\<close>

definition ahead :: "'a FairQueue \<Rightarrow> Flow option \<Rightarrow> nat" where
  "ahead q k = length (takeWhile (\<lambda>c. c \<noteq> k) (active q))"

lemma ahead_filter:
  "k \<in> set (filter P xs) \<Longrightarrow>
   length (takeWhile (\<lambda>c. c \<noteq> k) (filter P xs @ ys)) \<le> length (takeWhile (\<lambda>c. c \<noteq> k) xs)"
  by (induction xs) auto

lemma served_step:
  assumes "fq_inv packet q" "k \<in> set (active q)" "oper \<noteq> Clear" "fq_step packet q oper = Inr (y, q')"
    "\<forall>x\<in>set (released y). oper = Pop \<or> y = Queued (Some x) \<longrightarrow> flow (packet x) \<noteq> Inr k"
  shows "k \<in> set (active q') \<and> ahead q' k + (if oper = Pop then 1 else 0) \<le> ahead q k"
proof (cases oper)
  case (Push x)
  obtain f where f: "flow (packet x) = Inr f" by (rule flow_total)
  from assms(1) f show ?thesis
  proof (cases rule: push_ok)
    case 1
    then have "q' = enqueue f x q" using assms(4) by (simp add: Push fq_step_def)
    then show ?thesis using enqueue_ok(5) [OF assms(1) 1(1) f] assms(2) by (simp add: Push ahead_def)
  next
    case 2
    then show ?thesis using assms by (simp add: Push fq_step_def)
  next
    case (3 v q1)
    then have q': "q' = enqueue f x q1" and y: "y = Queued (Some (last (lane q v)))"
      using assms(4) by (simp_all add: Push fq_step_def)
    have "flow (packet (last (lane q v))) = Inr v" using lane_members(2) [OF assms(1)] 3(3) by simp
    then have "v \<noteq> k" using assms(5) y by auto
    then have "lane q1 k \<noteq> []" using 3(7) lane_members(1) [OF assms(1), of k] assms(2) by simp
    then have "k \<in> set (filter (\<lambda>c. lane q1 c \<noteq> []) (active q))" using assms(2) by simp
    from ahead_filter [OF this] this show ?thesis
      using enqueue_ok(5) [OF 3(4,5) f] 3(9) q' by (simp add: Push ahead_def)
  qed
next
  case Pop
  obtain k0 rest where a: "active q = k0 # rest" using assms(2) by (cases "active q") auto
  from pop_ok [OF assms(1) a] obtain x l q1 where p: "lane q k0 = x # l" "fq_pop q = Inr (Some x, q1)"
    "active q1 = rest @ (if l = [] then [] else [k0])" by metis
  have q1: "q1 = q'" "y = Popped (Some x)" using p(2) assms(4) by (simp_all add: Pop fq_step_def)
  have "flow (packet x) = Inr k0" using lane_members(2) [OF assms(1), of x k0] p(1) by simp
  then have "k0 \<noteq> k" using assms(5) q1(2) Pop by auto
  then show ?thesis using assms(2) a p(3) q1(1) by (auto simp: Pop ahead_def)
qed (use assms(3) in simp)

text \<open>
  C28: No flow starves.  If some lanes are served before the lane of a flow, then any
  sequence of pushes and pops with more pops than these lanes hands out a packet of
  the flow, or a push has evicted one.
\<close>

theorem fair_queue_serves:
  assumes "fq_inv packet q" "k \<in> set (active q)" "Clear \<notin> set ops"
    "ahead q k < length (filter (\<lambda>oper. oper = Pop) ops)" "fq_run packet q ops = Inr (ys, q')"
  shows "\<exists>x. flow (packet x) = Inr k \<and> (Popped (Some x) \<in> set ys \<or> Queued (Some x) \<in> set ys)"
  using assms
proof (induction ops arbitrary: q ys)
  case (Cons oper ops)
  from Cons.prems(5) obtain y q1 ys' where s: "fq_step packet q oper = Inr (y, q1)"
    "fq_run packet q1 ops = Inr (ys', q')" "ys = y # ys'" by (auto simp: bind_eq_Inr)
  show ?case
  proof (cases "\<exists>x. flow (packet x) = Inr k \<and> (y = Popped (Some x) \<or> y = Queued (Some x))")
    case False
    have "fq_inv packet q1" using fq_step_ok [OF Cons.prems(1), of oper] s(1) by auto
    moreover have "\<forall>x\<in>set (released y). oper = Pop \<or> y = Queued (Some x) \<longrightarrow> flow (packet x) \<noteq> Inr k"
      using False s(1) by (cases oper; cases y rule: released.cases) (auto simp: fq_step_def bind_eq_Inr split: sum.splits)
    then have "k \<in> set (active q1) \<and> ahead q1 k + (if oper = Pop then 1 else 0) \<le> ahead q k"
      using served_step [OF Cons.prems(1,2) _ s(1)] Cons.prems(3) by auto
    moreover have "Clear \<notin> set ops" using Cons.prems(3) by simp
    moreover have "ahead q1 k < length (filter (\<lambda>oper. oper = Pop) ops)"
      using Cons.prems(4) calculation(2) by (simp split: if_splits)
    ultimately show ?thesis using Cons.IH [of q1 ys'] s(2,3) by auto
  qed (use s(3) in auto)
qed simp


theorem fair_queue_serves_witness:
  "\<exists>x. flow x = Inr None \<and> (Popped (Some x) \<in> {Popped (Some [1 :: u8]), Queued None} \<or>
     Queued (Some x) \<in> {Popped (Some [1]), Queued None})"
proof -
  define q where "q = \<lparr>lanes = [(None, [[1 :: u8], [2]])], active = [None], fq_len = 2, capacity = 4\<rparr>"
  have "fq_inv (\<lambda>x. x) q"
    by (simp add: q_def fq_inv_def wf_hmap_def hkeys_def items_def flow_def parse_ip_def)
  moreover have "\<exists>q'. fq_run (\<lambda>x. x) q [Push [3], Pop] = Inr ([Queued None, Popped (Some [1])], q')"
    by (simp add: q_def fq_step_def fq_push_def fq_pop_def flow_def parse_ip_def enqueue_def)
  then obtain q' where "fq_run (\<lambda>x. x) q [Push [3], Pop] = Inr ([Queued None, Popped (Some [1])], q')" by blast
  ultimately show ?thesis
    using fair_queue_serves [of "\<lambda>x. x" q None "[Push [3], Pop]" "[Queued None, Popped (Some [1])]" q']
    by (auto simp: q_def ahead_def)
qed

section \<open>The channel in front of the queue\<close>

definition flow_inv :: "FlowQueue \<Rightarrow> bool" where
  "flow_inv q \<longleftrightarrow> fq_inv fst (fl_queue q)"

lemma flow_push_ok:
  assumes "flow_inv q"
  shows "\<exists>q'. flow_push q p now = Inr q' \<and> flow_inv q' \<and> capacity (fl_queue q') = capacity (fl_queue q) \<and>
    0 < fq_len (fl_queue q')"
proof -
  have i: "fq_inv fst (fl_queue q)" using assms by (simp add: flow_inv_def)
  obtain k where "flow p = Inr k" by (rule flow_total)
  then have k: "flow (fst (p, now)) = Inr k" by simp
  have c: "0 < capacity (fl_queue q)" using i by (simp add: fq_inv_def)
  from i k show ?thesis
  proof (cases rule: push_ok)
    case 1
    then show ?thesis using enqueue_ok [OF i 1(1) k] by (simp add: flow_push_def flow_inv_def)
  next
    case 2
    then show ?thesis using i c by (simp add: flow_push_def flow_inv_def)
  next
    case (3 v q')
    show ?thesis using enqueue_ok [OF 3(4,5) k] 3(10,11) by (simp add: flow_push_def flow_inv_def)
  qed
qed

lemma flow_pop_ok:
  assumes "flow_inv q"
  shows "\<exists>x q'. flow_pop q now = Inr (x, q') \<and> flow_inv q' \<and> (x = None \<longleftrightarrow> fq_len (fl_queue q) = 0) \<and>
    capacity (fl_queue q') = capacity (fl_queue q)"
proof (cases "active (fl_queue q)")
  case Nil
  then show ?thesis using pop_empty [of fst "fl_queue q"] assms
    by (simp add: flow_inv_def flow_pop_def fq_inv_def)
next
  case (Cons k rest)
  show ?thesis
    by (rule pop_ok [OF assms [unfolded flow_inv_def] Cons]) (simp add: flow_pop_def flow_inv_def)
qed

lemma receive_loop_ok:
  assumes "flow_inv q"
  shows "\<exists>e q' s'. receive_loop clock try_recv n q s = Inr (e, q', s') \<and> flow_inv q' \<and>
    capacity (fl_queue q') = capacity (fl_queue q) \<and>
    (fq_len (fl_queue q') = 0 \<longrightarrow> fq_len (fl_queue q) = 0 \<and> (n \<noteq> 0 \<longrightarrow> fst (try_recv s) = Inl e)) \<and>
    (0 < fq_len (fl_queue q) \<longrightarrow> 0 < fq_len (fl_queue q'))"
  using assms
proof (induction n arbitrary: q s)
  case (Suc n)
  obtain r s1 where r: "try_recv s = (r, s1)" by (cases "try_recv s")
  show ?case
  proof (cases r)
    case (Inl e)
    then show ?thesis using r Suc.prems by simp
  next
    case (Inr p)
    from flow_push_ok [OF Suc.prems, of p "clock s1"] obtain q1 where q1: "flow_push q p (clock s1) = Inr q1"
      "flow_inv q1" "capacity (fl_queue q1) = capacity (fl_queue q)" "0 < fq_len (fl_queue q1)" by blast
    from Suc.IH [OF q1(2), of s1] q1 r Inr show ?thesis by auto
  qed
qed simp

text \<open>
  The queue in front of the mask scheduler never panics, and it reports that nothing is
  available only if it is empty and the channel itself said so.
\<close>

lemma try_next_serves:
  assumes "flow_inv q"
  shows "\<exists>r q' s'. try_next clock try_recv q s = Inr (r, q', s') \<and> flow_inv q' \<and>
    (\<forall>e. r = Inl e \<longrightarrow> fq_len (fl_queue q) = 0 \<and> fst (try_recv s) = Inl e)"
proof -
  have c: "capacity (fl_queue q) \<noteq> 0" using assms by (simp add: flow_inv_def fq_inv_def)
  from receive_loop_ok [OF assms, of clock try_recv "capacity (fl_queue q)" s] obtain e q1 s1 where
    l: "receive_loop clock try_recv (capacity (fl_queue q)) q s = Inr (e, q1, s1)" "flow_inv q1"
    "fq_len (fl_queue q1) = 0 \<longrightarrow> fq_len (fl_queue q) = 0 \<and> fst (try_recv s) = Inl e" using c by auto
  from flow_pop_ok [OF l(2), of "clock s1"] obtain x q2 where
    p: "flow_pop q1 (clock s1) = Inr (x, q2)" "flow_inv q2" "x = None \<longleftrightarrow> fq_len (fl_queue q1) = 0" by auto
  show ?thesis using l p by (auto simp: try_next_def split: option.splits)
qed

end
