(* ===== verification/Limits.thy ===== *)
theory Limits
  imports Ip_Packet
begin

text \<open>
  The limits that protect a node: the retry budget of a handshake
  (\<open>aivpn_common::handshake_retry\<close>), the per-session throttles of expensive control
  messages (\<open>gateway/throttle.rs\<close>), the packet rates per source address
  (\<open>source_rates.rs\<close>) and the processor-time budget of unauthenticated handshakes
  (\<open>gateway/preauth.rs\<close>).  Instants and durations are nanoseconds; subtraction of
  durations saturates at zero as in the library.  The bounds are stated over arbitrary
  sequences of requests.
\<close>

section \<open>Handshake retries\<close>

definition HANDSHAKE_TIMEOUT :: duration where "HANDSHAKE_TIMEOUT = from_secs 10"
definition MAX_RETRY_INTERVAL :: duration where "MAX_RETRY_INTERVAL = from_secs 2"

record HandshakeRetry =
  hr_next_at :: duration
  hr_interval :: duration

definition with_initial_delay :: "duration \<Rightarrow> HandshakeRetry" where
  "with_initial_delay delay =
     (let interval = min (max delay (from_millis 250)) (from_millis 350)
      in \<lparr>hr_next_at = interval, hr_interval = interval\<rparr>)"

definition next_at :: "HandshakeRetry \<Rightarrow> duration" where
  "next_at r = min (hr_next_at r) HANDSHAKE_TIMEOUT"

definition expired :: "HandshakeRetry \<Rightarrow> duration \<Rightarrow> bool" where
  "expired r elapsed \<longleftrightarrow> elapsed \<ge> HANDSHAKE_TIMEOUT"

definition retry_sent :: "HandshakeRetry \<Rightarrow> duration \<Rightarrow> HandshakeRetry" where
  "retry_sent r elapsed =
     (let interval = min (hr_interval r * 2) MAX_RETRY_INTERVAL
      in r \<lparr>hr_interval := interval, hr_next_at := elapsed + interval\<rparr>)"

section \<open>Throttles\<close>

definition MASK_PREFERENCE_THROTTLE :: duration where "MASK_PREFERENCE_THROTTLE = from_secs 2"
definition MASK_FEEDBACK_THROTTLE :: duration where "MASK_FEEDBACK_THROTTLE = from_secs 5"
definition MGMT_THROTTLE :: duration where "MGMT_THROTTLE = from_millis 200"

definition throttled :: "instant option \<Rightarrow> instant \<Rightarrow> duration \<Rightarrow> bool" where
  "throttled last_processed now window =
     (case last_processed of Some previous \<Rightarrow> now - previous < window | None \<Rightarrow> False)"

definition mask_preference_throttled :: "instant option \<Rightarrow> instant \<Rightarrow> bool" where
  "mask_preference_throttled last_processed now = throttled last_processed now MASK_PREFERENCE_THROTTLE"

definition mask_feedback_throttled :: "instant option \<Rightarrow> instant \<Rightarrow> bool" where
  "mask_feedback_throttled last_processed now = throttled last_processed now MASK_FEEDBACK_THROTTLE"

definition mgmt_throttled :: "instant option \<Rightarrow> instant \<Rightarrow> bool" where
  "mgmt_throttled last_processed now = throttled last_processed now MGMT_THROTTLE"

definition try_claim_slot ::
    "(bytes, instant) hmap \<Rightarrow> bytes \<Rightarrow> instant \<Rightarrow> (instant option \<Rightarrow> instant \<Rightarrow> bool) \<Rightarrow> bool \<times> (bytes, instant) hmap" where
  "try_claim_slot throttle session_id now is_throttled =
     (case map_of throttle session_id of
        Some previous \<Rightarrow>
          (if is_throttled (Some previous) now then (False, throttle)
           else (True, AList.update session_id now throttle))
      | None \<Rightarrow> (True, AList.update session_id now throttle))"

definition try_claim_mask_preference_slot :: "(bytes, instant) hmap \<Rightarrow> bytes \<Rightarrow> instant \<Rightarrow> bool \<times> (bytes, instant) hmap" where
  "try_claim_mask_preference_slot throttle session_id now =
     try_claim_slot throttle session_id now mask_preference_throttled"

definition try_claim_mask_feedback_slot :: "(bytes, instant) hmap \<Rightarrow> bytes \<Rightarrow> instant \<Rightarrow> bool \<times> (bytes, instant) hmap" where
  "try_claim_mask_feedback_slot throttle session_id now =
     try_claim_slot throttle session_id now mask_feedback_throttled"

definition try_claim_mgmt_slot :: "(bytes, instant) hmap \<Rightarrow> bytes \<Rightarrow> instant \<Rightarrow> bool \<times> (bytes, instant) hmap" where
  "try_claim_mgmt_slot throttle session_id now = try_claim_slot throttle session_id now mgmt_throttled"

section \<open>Packet rates per source\<close>

record SourceRates =
  sr_entries :: "(IpAddr, u64 \<times> instant) hmap"
  sr_last_sweep :: "instant option"

definition SourceRates_default :: SourceRates where
  "SourceRates_default = \<lparr>sr_entries = [], sr_last_sweep = None\<rparr>"

definition sweep_rates :: "SourceRates \<Rightarrow> instant \<Rightarrow> SourceRates" where
  "sweep_rates r now =
     (if (case sr_last_sweep r of None \<Rightarrow> True | Some previous \<Rightarrow> now - previous \<ge> from_secs 1)
      then r \<lparr>sr_entries := retain (\<lambda>_ (_, since). now - since < from_secs 1) (sr_entries r),
              sr_last_sweep := Some now\<rparr>
      else r)"

definition count_packet :: "SourceRates \<Rightarrow> IpAddr \<Rightarrow> instant \<Rightarrow> u64 \<Rightarrow> bool \<times> SourceRates" where
  "count_packet r ip now limit =
     (let (count, since) = (case map_of (sr_entries r) ip of Some e \<Rightarrow> e | None \<Rightarrow> (0, now));
          (count, since) = (if now - since \<ge> from_secs 1 then (0, now) else (count, since))
      in if count \<ge> limit then (False, r \<lparr>sr_entries := AList.update ip (count, since) (sr_entries r)\<rparr>)
         else (True, r \<lparr>sr_entries := AList.update ip (count + 1, since) (sr_entries r)\<rparr>))"

definition allow :: "SourceRates \<Rightarrow> IpAddr \<Rightarrow> instant \<Rightarrow> nat \<Rightarrow> u64 \<Rightarrow> bool \<times> SourceRates" where
  "allow r ip now cap limit =
     (if length (sr_entries r) \<ge> cap \<and> \<not> contains_key ip (sr_entries r)
      then let r = sweep_rates r now in
        if length (sr_entries r) \<ge> cap then (False, r) else count_packet r ip now limit
      else count_packet r ip now limit)"

record UdpIngressRates =
  untrusted :: SourceRates
  authenticated :: SourceRates

definition udp_allow :: "UdpIngressRates \<Rightarrow> IpAddr \<Rightarrow> instant \<Rightarrow> nat \<Rightarrow> u64 \<times> u64 \<Rightarrow> bool \<Rightarrow> bool \<times> UdpIngressRates" where
  "udp_allow u ip now cap limits auth =
     (if auth
      then case allow (authenticated u) ip now cap (snd limits) of (ok, r) \<Rightarrow> (ok, u \<lparr>authenticated := r\<rparr>)
      else case allow (untrusted u) ip now cap (fst limits) of (ok, r) \<Rightarrow> (ok, u \<lparr>untrusted := r\<rparr>))"

section \<open>The budget of unauthenticated handshakes\<close>

text \<open>Arithmetic on 128-bit signed integers saturates; a duration fits into one.\<close>

definition sat_i128 :: "int \<Rightarrow> int" where
  "sat_i128 x = max (- (2 ^ 127)) (min (2 ^ 127 - 1) x)"

record PreauthBudget =
  credit_ns :: int
  pb_updated :: instant
  busy :: bool

definition PreauthBudget_new :: "instant \<Rightarrow> PreauthBudget" where
  "PreauthBudget_new now = \<lparr>credit_ns = 100000000, pb_updated = now, busy = False\<rparr>"

definition refill :: "PreauthBudget \<Rightarrow> instant \<Rightarrow> PreauthBudget" where
  "refill b now =
     (let elapsed = int (now - pb_updated b)
      in b \<lparr>credit_ns := min (sat_i128 (credit_ns b + elapsed div 10)) 100000000, pb_updated := now\<rparr>)"

definition try_begin :: "PreauthBudget \<Rightarrow> instant \<Rightarrow> bool \<times> PreauthBudget" where
  "try_begin b now =
     (let b = refill b now
      in if busy b \<or> credit_ns b \<le> 0 then (False, b) else (True, b \<lparr>busy := True\<rparr>))"

definition pb_finish :: "PreauthBudget \<Rightarrow> instant \<Rightarrow> duration \<Rightarrow> PreauthBudget" where
  "pb_finish b now cost =
     (let b = refill b now
      in b \<lparr>credit_ns := sat_i128 (credit_ns b - int cost), busy := False\<rparr>)"

text \<open>A lease remembers when it was acquired; dropping it charges the time since.\<close>

definition lease_acquire :: "PreauthBudget \<Rightarrow> instant \<Rightarrow> instant option \<times> PreauthBudget" where
  "lease_acquire b started =
     (case try_begin b started of (ok, b) \<Rightarrow> (if ok then Some started else None, b))"

definition lease_drop :: "PreauthBudget \<Rightarrow> instant \<Rightarrow> instant \<Rightarrow> PreauthBudget" where
  "lease_drop b started now = pb_finish b now (now - started)"

section \<open>A handshake sends at most seven retries\<close>

text \<open>
  The retries of a handshake: one is sent at an elapsed time that has reached the planned
  one, before the handshake expires.
\<close>

inductive retries :: "HandshakeRetry \<Rightarrow> duration list \<Rightarrow> bool" where
  stop: "retries r []"
| send: "next_at r \<le> t \<Longrightarrow> \<not> expired r t \<Longrightarrow> retries (retry_sent r t) ts \<Longrightarrow> retries r (t # ts)"

inductive_simps retries_Cons: "retries r (t # ts)"

lemma send_time: "next_at r \<le> t \<Longrightarrow> \<not> expired r t \<Longrightarrow> hr_next_at r \<le> t \<and> t < from_secs 10"
  by (auto simp: next_at_def expired_def HANDSHAKE_TIMEOUT_def min_def split: if_splits)

lemma retries_capped:
  "retries r ts \<Longrightarrow> from_secs 1 \<le> hr_interval r \<Longrightarrow> ts \<noteq> [] \<Longrightarrow>
   hr_next_at r + from_secs 2 * (length ts - 1) < from_secs 10"
proof (induction rule: retries.induct)
  case (send r t ts)
  have t: "hr_next_at r \<le> t" "t < from_secs 10" using send_time [OF send.hyps(1,2)] by auto
  show ?case
  proof (cases ts)
    case (Cons u us)
    have "hr_interval (retry_sent r t) = from_secs 2" "hr_next_at (retry_sent r t) = t + from_secs 2"
      using send.prems(1) by (auto simp: retry_sent_def MAX_RETRY_INTERVAL_def)
    then have "t + from_secs 2 + from_secs 2 * (length ts - 1) < from_secs 10"
      using send.IH Cons by simp
    then show ?thesis using t(1) Cons by simp
  qed (use t in simp)
qed simp

text \<open>
  C34: A handshake sends at most seven retries before it expires, whatever the initial delay
  and however late the retries are sent.
\<close>

theorem handshake_retries_bounded:
  assumes "retries (with_initial_delay d) ts"
  shows "length ts \<le> 7"
proof (cases "length ts \<le> 2")
  case False
  then obtain t u us where ts: "ts = t # u # us" "us \<noteq> []"
    by (cases ts; cases "tl ts") (auto simp: Suc_le_eq numeral_eq_Suc)
  define r0 r1 r2 where r: "r0 = with_initial_delay d" "r1 = retry_sent r0 t" "r2 = retry_sent r1 u"
  have s: "next_at r0 \<le> t" "\<not> expired r0 t" "next_at r1 \<le> u" "\<not> expired r1 u" "retries r2 us"
    using assms by (auto simp: ts r retries_Cons)
  have i: "from_millis 250 \<le> hr_interval r0" "hr_next_at r0 = hr_interval r0"
    by (auto simp: r(1) with_initial_delay_def Let_def)
  then have i1: "from_millis 500 \<le> hr_interval r1" "hr_next_at r1 = t + hr_interval r1"
    by (auto simp: r(2) retry_sent_def Let_def MAX_RETRY_INTERVAL_def)
  then have i2: "from_millis 1000 \<le> hr_interval r2" "hr_next_at r2 = u + hr_interval r2"
    by (auto simp: r(3) retry_sent_def Let_def MAX_RETRY_INTERVAL_def)
  have "hr_next_at r2 + from_secs 2 * (length us - 1) < from_secs 10"
    using retries_capped [OF s(5)] i2(1) ts(2) by simp
  moreover have "from_millis 1750 \<le> hr_next_at r2"
    using send_time [OF s(1,2)] send_time [OF s(3,4)] i i1 i2 by linarith
  ultimately show ?thesis using ts by simp
qed simp

theorem handshake_retries_bounded_witness:
  "retries (with_initial_delay (from_millis 300)) [from_millis 300, from_millis 900] \<and>
   length [from_millis 300, from_millis 900] \<le> 7"
proof
  show "retries (with_initial_delay (from_millis 300)) [from_millis 300, from_millis 900]"
    by (auto simp: retries_Cons retries.stop next_at_def expired_def retry_sent_def with_initial_delay_def
        HANDSHAKE_TIMEOUT_def MAX_RETRY_INTERVAL_def)
  then show "length [from_millis 300, from_millis 900] \<le> 7" by (rule handshake_retries_bounded)
qed

section \<open>A throttle grants one request per window\<close>

fun claims :: "('m \<Rightarrow> bytes \<Rightarrow> instant \<Rightarrow> bool \<times> 'm) \<Rightarrow> 'm \<Rightarrow> (bytes \<times> instant) list \<Rightarrow> (bytes \<times> instant) list" where
  "claims claim m [] = []"
| "claims claim m ((i, now) # reqs) =
     (case claim m i now of (ok, m) \<Rightarrow> (if ok then (i, now) # claims claim m reqs else claims claim m reqs))"

definition spaced :: "duration \<Rightarrow> (bytes \<times> instant) list \<Rightarrow> bool" where
  "spaced window gs = sorted_wrt (\<lambda>(i, t) (j, u). i = j \<longrightarrow> t + window \<le> u) gs"

abbreviation window_claim :: "duration \<Rightarrow> (bytes, instant) hmap \<Rightarrow> bytes \<Rightarrow> instant \<Rightarrow> bool \<times> (bytes, instant) hmap" where
  "window_claim window m i now \<equiv> try_claim_slot m i now (\<lambda>previous now. throttled previous now window)"

lemma claims_after:
  assumes "0 < window"
  shows "map_of m i = Some previous \<Longrightarrow> (i, u) \<in> set (claims (window_claim window) m reqs) \<Longrightarrow> previous + window \<le> u"
proof (induction reqs arbitrary: m previous)
  case (Cons r reqs)
  obtain j now where r: "r = (j, now)" by (cases r)
  show ?case
  proof (cases "j = i")
    case True
    show ?thesis
    proof (cases "now - previous < window")
      case False
      then have g: "window_claim window m j now = (True, AList.update j now m)"
        using True Cons.prems(1) by (simp add: try_claim_slot_def throttled_def)
      have "previous + window \<le> now" using False assms by linarith
      moreover have "u = now \<or> now + window \<le> u"
        using Cons.prems(2) Cons.IH [of "AList.update j now m" now] g True by (auto simp: r update_conv')
      ultimately show ?thesis by auto
    qed (use True Cons r in \<open>auto simp: try_claim_slot_def throttled_def\<close>)
  next
    case False
    obtain ok m' where c: "window_claim window m j now = (ok, m')" by (cases "window_claim window m j now")
    then have "map_of m' i = Some previous"
      using False Cons.prems(1) by (auto simp: try_claim_slot_def update_conv' split: option.splits if_splits)
    then show ?thesis using Cons.IH Cons.prems(2) False c by (auto simp: r split: if_splits)
  qed
qed simp

lemma claims_spaced:
  assumes "0 < window"
  shows "spaced window (claims (window_claim window) m reqs)"
proof (induction reqs arbitrary: m)
  case (Cons r reqs)
  obtain i now where r: "r = (i, now)" by (cases r)
  obtain ok m' where c: "window_claim window m i now = (ok, m')" by (cases "window_claim window m i now")
  have "ok \<Longrightarrow> map_of m' i = Some now"
    using c by (auto simp: try_claim_slot_def update_conv' split: option.splits if_splits)
  then have "ok \<Longrightarrow> (i, u) \<in> set (claims (window_claim window) m' reqs) \<Longrightarrow> now + window \<le> u" for u
    using claims_after [OF assms] by blast
  with Cons.IH [of m'] show ?case by (auto simp: r c spaced_def)
qed (simp add: spaced_def)

text \<open>
  The throttles of mask preferences, mask feedback and management requests grant two
  requests of one session only at least two seconds, five seconds and 200 milliseconds
  apart, whatever requests arrive and whatever order their time stamps have.
\<close>

lemma throttles_space_requests:
  "spaced (from_secs 2) (claims try_claim_mask_preference_slot [] reqs) \<and>
   spaced (from_secs 5) (claims try_claim_mask_feedback_slot [] reqs) \<and>
   spaced (from_millis 200) (claims try_claim_mgmt_slot [] reqs)"
proof -
  have e: "try_claim_mask_preference_slot = window_claim (from_secs 2)"
    "try_claim_mask_feedback_slot = window_claim (from_secs 5)"
    "try_claim_mgmt_slot = window_claim (from_millis 200)"
    by (simp_all add: fun_eq_iff try_claim_mask_preference_slot_def try_claim_mask_feedback_slot_def
        try_claim_mgmt_slot_def mask_preference_throttled_def [abs_def] mask_feedback_throttled_def [abs_def]
        mgmt_throttled_def [abs_def] MASK_PREFERENCE_THROTTLE_def MASK_FEEDBACK_THROTTLE_def MGMT_THROTTLE_def)
  show ?thesis unfolding e by (intro conjI claims_spaced) simp_all
qed

section \<open>A source sends at most twice its limit in any second\<close>

fun granted :: "SourceRates \<Rightarrow> nat \<Rightarrow> u64 \<Rightarrow> (IpAddr \<times> instant) list \<Rightarrow> (IpAddr \<times> instant) list \<times> SourceRates" where
  "granted r cap limit [] = ([], r)"
| "granted r cap limit ((ip, now) # reqs) =
     (case allow r ip now cap limit of (ok, r) \<Rightarrow>
      case granted r cap limit reqs of (gs, r) \<Rightarrow> (if ok then (ip, now) # gs else gs, r))"

definition within :: "instant list \<Rightarrow> nat \<Rightarrow> nat \<Rightarrow> nat" where
  "within ts a b = length (filter (\<lambda>t. a \<le> t \<and> t < b) ts)"

lemma within_append [simp]: "within (ts @ [t]) a b = within ts a b + (if a \<le> t \<and> t < b then 1 else 0)"
  by (simp add: within_def)

lemma within_Nil [simp]: "within [] a b = 0"
  by (simp add: within_def)

lemma within_split: "a \<le> b \<Longrightarrow> b \<le> c \<Longrightarrow> within ts a c = within ts a b + within ts b c"
proof (induction ts)
  case (Cons t ts)
  then show ?case by (auto simp: within_def)
qed simp

lemma within_mono: "a' \<le> a \<Longrightarrow> b \<le> b' \<Longrightarrow> within ts a b \<le> within ts a' b'"
  unfolding within_def by (induction ts) auto

text \<open>
  What the entry of one source says of the times \<open>ts\<close> at which it was granted a packet,
  the latest at \<open>now\<close> or before: the current window began at \<open>since\<close>, its count is the
  number of grants since, the second before it had at most \<open>limit\<close> grants, and no second
  had more than twice the limit.  Without an entry, the last window is over.
\<close>

definition source_ok :: "nat \<Rightarrow> (u64 \<times> instant) option \<Rightarrow> instant list \<Rightarrow> instant \<Rightarrow> bool" where
  "source_ok limit e ts now \<longleftrightarrow>
     (\<forall>t\<in>set ts. t \<le> now) \<and> (\<forall>a. within ts a (a + from_secs 1) \<le> 2 * limit) \<and>
     (\<exists>since. within ts since (now + 1) \<le> limit \<and> (\<forall>a. a + from_secs 1 \<ge> since \<longrightarrow> within ts a since \<le> limit) \<and>
        since \<le> now \<and> (\<forall>t\<in>set ts. t < since + from_secs 1) \<and>
        (case e of None \<Rightarrow> ts = [] \<or> since + from_secs 1 \<le> now
         | Some (c, s) \<Rightarrow> s = since \<and> unat c = within ts since (now + 1)))"

lemma within_bound: "\<forall>t\<in>set ts. t < b \<Longrightarrow> within ts b c = 0"
  by (auto simp: within_def filter_empty_conv)

lemma within_beyond: "\<forall>t\<in>set ts. t < b \<Longrightarrow> b \<le> c \<Longrightarrow> within ts a c = within ts a b"
  by (auto simp: within_def intro!: arg_cong [of _ _ length] filter_cong)

lemma source_later:
  assumes "source_ok limit e ts now" "now \<le> now'"
  shows "source_ok limit e ts now'"
proof -
  have "within ts s (now' + 1) = within ts s (now + 1)" for s
    using assms by (intro within_beyond) (auto simp: source_ok_def less_Suc_eq_le)
  then show ?thesis using assms unfolding source_ok_def
    by (auto split: option.splits)
qed

lemma source_new_window:
  assumes "\<forall>t\<in>set ts. t \<le> now" "\<forall>a. within ts a (a + from_secs 1) \<le> 2 * limit"
    "ts = [] \<or> (within ts since (now + 1) \<le> limit \<and> since + from_secs 1 \<le> now \<and> (\<forall>t\<in>set ts. t < since + from_secs 1))"
  shows "source_ok limit (Some (0, now)) ts now"
proof -
  have z: "within ts now (now + 1) = 0" using assms(3) by (auto intro!: within_bound)
  have "within ts a now \<le> limit" if "now \<le> a + from_secs 1" for a
  proof (cases "ts = []")
    case False
    then have "within ts a now \<le> within ts since (now + 1)" using assms(3) that by (intro within_mono) auto
    then show ?thesis using False assms(3) by auto
  qed simp
  moreover have "\<forall>t\<in>set ts. t < now + from_secs 1" using assms(1) by (auto intro: le_less_trans)
  ultimately show ?thesis using assms(1,2) z by (simp add: source_ok_def)
qed

lemma source_window:
  assumes "source_ok limit e ts now"
    "(c, s) = (case e of Some e \<Rightarrow> e | None \<Rightarrow> (0, now))"
    "(c', s') = (if now - s \<ge> from_secs 1 then (0, now) else (c, s))"
  shows "source_ok limit (Some (c', s')) ts now" "now < s' + from_secs 1"
proof -
  from assms(1) obtain since where o: "\<forall>t\<in>set ts. t \<le> now" "\<forall>a. within ts a (a + from_secs 1) \<le> 2 * limit"
    "within ts since (now + 1) \<le> limit" "since \<le> now" "\<forall>t\<in>set ts. t < since + from_secs 1"
    "case e of None \<Rightarrow> ts = [] \<or> since + from_secs 1 \<le> now | Some (c, s) \<Rightarrow> s = since"
    by (auto simp: source_ok_def split: option.splits)
  show "source_ok limit (Some (c', s')) ts now"
  proof (cases e)
    case None
    then show ?thesis using assms(2,3) o source_new_window [OF o(1,2), of since] by auto
  next
    case (Some p)
    then have "s = since" "p = (c, s)" using o(6) assms(2) by auto
    moreover have "now - since \<ge> from_secs 1 \<Longrightarrow> since + from_secs 1 \<le> now" by linarith
    ultimately show ?thesis using assms(1,3) Some o source_new_window [OF o(1,2), of since]
      by (cases "now - s \<ge> from_secs 1") auto
  qed
  show "now < s' + from_secs 1" using assms(3) by (auto split: if_splits)
qed

lemma source_grant:
  assumes "source_ok limit (Some (c, s)) ts now" "now < s + from_secs 1" "unat c < limit" "unat c + 1 < 2 ^ 64"
  shows "source_ok limit (Some (c + 1, s)) (ts @ [now]) now"
proof -
  have o: "\<forall>t\<in>set ts. t \<le> now" "\<And>a. within ts a (a + from_secs 1) \<le> 2 * limit"
    "\<And>a. a + from_secs 1 \<ge> s \<Longrightarrow> within ts a s \<le> limit" "s \<le> now" "\<forall>t\<in>set ts. t < s + from_secs 1"
    "unat c = within ts s (now + 1)" using assms(1) by (auto simp: source_ok_def)
  have u: "unat (c + 1) = Suc (unat c)" using assms(4) by (simp add: unat_word_ariths)
  have after: "within ts s b \<le> unat c" for b
  proof -
    have "within ts s b \<le> within ts s (max b (now + 1))" by (intro within_mono) auto
    also have "\<dots> = within ts s (now + 1)" using o(1) by (intro within_beyond) (auto simp: less_Suc_eq_le)
    finally show ?thesis using o(6) by simp
  qed
  have "within (ts @ [now]) a (a + from_secs 1) \<le> 2 * limit" for a
  proof (cases "a \<le> now \<and> now < a + from_secs 1")
    case True
    have "within ts a (a + from_secs 1) + 1 \<le> 2 * limit"
    proof (cases "a \<le> s")
      case le: True
      have "within ts a (a + from_secs 1) = within ts a s + within ts s (a + from_secs 1)"
        using True le o(4) by (intro within_split) auto
      then show ?thesis using o(3) [of a] True o(4) after [of "a + from_secs 1"] assms(3) by simp
    next
      case False
      then have "within ts a (a + from_secs 1) \<le> within ts s (a + from_secs 1)" by (intro within_mono) auto
      then show ?thesis using after [of "a + from_secs 1"] assms(3) by simp
    qed
    then show ?thesis using True by simp
  qed (use o(2) in auto)
  then show ?thesis using o u assms(2,3) by (auto simp: source_ok_def)
qed

definition rates_ok :: "nat \<Rightarrow> nat \<Rightarrow> SourceRates \<Rightarrow> (IpAddr \<times> instant) list \<Rightarrow> instant \<Rightarrow> bool" where
  "rates_ok cap limit r gs now \<longleftrightarrow> wf_hmap (sr_entries r) \<and> length (sr_entries r) \<le> cap \<and>
     (\<forall>ip. source_ok limit (map_of (sr_entries r) ip) (map snd (filter (\<lambda>g. fst g = ip) gs)) now)"

lemma source_swept:
  assumes "source_ok limit (Some (c, s)) ts now" "\<not> now - s < from_secs 1"
  shows "source_ok limit None ts now"
  using assms unfolding source_ok_def by auto

lemma sweep_ok:
  assumes "rates_ok cap limit r gs now"
  shows "rates_ok cap limit (sweep_rates r now) gs now"
proof -
  have w: "wf_hmap (sr_entries r)" and l: "length (sr_entries r) \<le> cap"
    and o: "source_ok limit (map_of (sr_entries r) ip) (map snd (filter (\<lambda>g. fst g = ip) gs)) now" for ip
    using assms by (auto simp: rates_ok_def)
  have "source_ok limit (map_of (retain (\<lambda>_ (_, since). now - since < from_secs 1) (sr_entries r)) ip)
      (map snd (filter (\<lambda>g. fst g = ip) gs)) now" for ip
    using o [of ip] source_swept by (auto simp: map_of_retain [OF w] split: option.splits)
  then show ?thesis
    using w l o length_retain [of "\<lambda>_ (_, since). now - since < from_secs 1" "sr_entries r"]
    by (auto simp: sweep_rates_def rates_ok_def)
qed

lemma count_packet_ok:
  assumes "rates_ok cap (unat limit) r gs now" "contains_key ip (sr_entries r) \<or> length (sr_entries r) < cap"
    "count_packet r ip now limit = (ok, r')"
  shows "rates_ok cap (unat limit) r' (gs @ (if ok then [(ip, now)] else [])) now"
proof -
  obtain c s where cs: "(c, s) = (case map_of (sr_entries r) ip of Some e \<Rightarrow> e | None \<Rightarrow> (0, now))"
    by (metis surj_pair)
  obtain c' s' where cs': "(c', s') = (if now - s \<ge> from_secs 1 then (0, now) else (c, s))" by (metis surj_pair)
  have w: "wf_hmap (sr_entries r)" and l: "length (sr_entries r) \<le> cap"
    and o: "source_ok (unat limit) (map_of (sr_entries r) ip) (map snd (filter (\<lambda>g. fst g = ip) gs)) now" for ip
    using assms(1) by (auto simp: rates_ok_def)
  note win = source_window [OF o [of ip] cs cs']
  have len: "length (AList.update ip v (sr_entries r)) \<le> cap" for v
    using assms(2) l by (auto simp: length_update contains_key_iff)
  show ?thesis
  proof (cases "c' \<ge> limit")
    case True
    then have "ok = False" "r' = r \<lparr>sr_entries := AList.update ip (c', s') (sr_entries r)\<rparr>"
      using assms(3) cs [symmetric] cs' [symmetric] by (auto simp: count_packet_def Let_def)
    then show ?thesis using w o win(1) len by (auto simp: rates_ok_def update_conv')
  next
    case False
    then have r': "ok = True" "r' = r \<lparr>sr_entries := AList.update ip (c' + 1, s') (sr_entries r)\<rparr>"
      using assms(3) cs [symmetric] cs' [symmetric] by (auto simp: count_packet_def Let_def)
    have "unat c' < unat limit" using False by (simp add: word_less_nat_alt not_le)
    moreover then have "unat c' + 1 < 2 ^ 64" using unat_bounds(4) [of limit] by simp
    ultimately show ?thesis using w o len source_grant [OF win] by (auto simp: r' rates_ok_def update_conv')
  qed
qed

lemma allow_ok:
  assumes "rates_ok cap (unat limit) r gs now" "allow r ip now cap limit = (ok, r')"
  shows "rates_ok cap (unat limit) r' (gs @ (if ok then [(ip, now)] else [])) now"
proof (cases "length (sr_entries r) \<ge> cap \<and> \<not> contains_key ip (sr_entries r)")
  case True
  note s = sweep_ok [OF assms(1)]
  show ?thesis
  proof (cases "length (sr_entries (sweep_rates r now)) \<ge> cap")
    case full: True
    then have "ok = False" "r' = sweep_rates r now" using assms(2) True by (auto simp: allow_def Let_def)
    then show ?thesis using s by simp
  next
    case False
    then have "count_packet (sweep_rates r now) ip now limit = (ok, r')"
      using assms(2) True by (simp add: allow_def Let_def)
    then show ?thesis using False by (intro count_packet_ok [OF s]) auto
  qed
next
  case False
  then have "count_packet r ip now limit = (ok, r')" using assms(2) by (auto simp: allow_def)
  then show ?thesis using False by (intro count_packet_ok [OF assms(1)]) auto
qed

lemma rates_later: "rates_ok cap limit r gs now \<Longrightarrow> now \<le> now' \<Longrightarrow> rates_ok cap limit r gs now'"
  unfolding rates_ok_def using source_later by blast

lemma granted_ok:
  "rates_ok cap (unat limit) r gs0 now \<Longrightarrow> sorted (now # map snd reqs) \<Longrightarrow> granted r cap limit reqs = (gs, r') \<Longrightarrow>
   \<exists>now'. rates_ok cap (unat limit) r' (gs0 @ gs) now'"
proof (induction reqs arbitrary: r gs0 now gs)
  case (Cons q reqs)
  obtain ip t where q: "q = (ip, t)" by (cases q)
  obtain ok r1 where a: "allow r ip t cap limit = (ok, r1)" by (cases "allow r ip t cap limit")
  obtain gs1 r2 where g0: "granted r1 cap limit reqs = (gs1, r2)" by (cases "granted r1 cap limit reqs")
  have g: "granted r1 cap limit reqs = (gs1, r')" "gs = (if ok then [(ip, t)] else []) @ gs1"
    using Cons.prems(3) by (auto simp: q a g0)
  have "now \<le> t" and s: "sorted (t # map snd reqs)" using Cons.prems(2) by (simp_all add: q)
  from rates_later [OF Cons.prems(1) this(1)]
  have "rates_ok cap (unat limit) r1 (gs0 @ (if ok then [(ip, t)] else [])) t" using a by (rule allow_ok)
  from Cons.IH [OF this s g(1)] show ?case by (simp add: g(2))
qed auto

text \<open>
  C35: With time stamps in order, no source address is granted more than twice its limit in
  any interval of one second, and the table never exceeds its capacity.
\<close>

theorem source_rates_bounded:
  assumes "sorted (map snd reqs)" "granted SourceRates_default cap limit reqs = (gs, r)"
  shows "length (sr_entries r) \<le> cap \<and>
    (\<forall>ip a. length (filter (\<lambda>g. fst g = ip \<and> a \<le> snd g \<and> snd g < a + from_secs 1) gs) \<le> 2 * unat limit)"
proof -
  have "rates_ok cap (unat limit) SourceRates_default [] 0"
    by (auto simp: rates_ok_def SourceRates_default_def source_ok_def wf_hmap_def)
  from granted_ok [OF this _ assms(2)] assms(1) obtain now where "rates_ok cap (unat limit) r gs now" by auto
  then have "length (sr_entries r) \<le> cap"
    "\<forall>ip a. within (map snd (filter (\<lambda>g. fst g = ip) gs)) a (a + from_secs 1) \<le> 2 * unat limit"
    by (auto simp: rates_ok_def source_ok_def)
  then show ?thesis by (simp add: within_def filter_map o_def conj_commute)
qed

theorem source_rates_bounded_witness:
  "length (filter (\<lambda>g. fst g = IpV4 7 \<and> 0 \<le> snd g \<and> snd g < from_secs 1)
     (fst (granted SourceRates_default 4 1 [(IpV4 7, 0), (IpV4 7, 5), (IpV4 7, from_secs 1)]))) \<le> 2"
proof -
  obtain gs r where g: "granted SourceRates_default 4 1 [(IpV4 7, 0), (IpV4 7, 5), (IpV4 7, from_secs 1)] = (gs, r)"
    by (metis surj_pair)
  from source_rates_bounded [OF _ g] show ?thesis unfolding g by (auto dest!: spec [of _ "IpV4 7"] spec [of _ 0])
qed

section \<open>Unauthenticated handshakes use a tenth of a core\<close>

text \<open>
  The history of the budget: attempts and the ends of admitted leases, in the order in which
  the lock serialises them, with the total time charged so far and the running lease.  Time
  stamps are in order and, as durations are, below \<open>2 ^ 94\<close> nanoseconds.
\<close>

inductive leases :: "instant \<Rightarrow> PreauthBudget \<Rightarrow> nat \<Rightarrow> instant option \<Rightarrow> bool" for t0 where
  start: "leases t0 (PreauthBudget_new t0) 0 None"
| admitted: "leases t0 b spent running \<Longrightarrow> pb_updated b \<le> now \<Longrightarrow> now < 2 ^ 94 \<Longrightarrow>
    lease_acquire b now = (Some started, b') \<Longrightarrow> leases t0 b' spent (Some started)"
| rejected: "leases t0 b spent running \<Longrightarrow> pb_updated b \<le> now \<Longrightarrow> now < 2 ^ 94 \<Longrightarrow>
    lease_acquire b now = (None, b') \<Longrightarrow> leases t0 b' spent running"
| dropped: "leases t0 b spent (Some started) \<Longrightarrow> pb_updated b \<le> now \<Longrightarrow> now < 2 ^ 94 \<Longrightarrow>
    leases t0 (lease_drop b started now) (spent + (now - started)) None"

lemma refill_exact:
  assumes "- (2 ^ 96) \<le> credit_ns b" "credit_ns b \<le> 100000000" "now < 2 ^ 94"
  shows "credit_ns (refill b now) = min (credit_ns b + int (now - pb_updated b) div 10) 100000000"
proof -
  have "int (now - pb_updated b) div 10 \<le> 2 ^ 94" "0 \<le> int (now - pb_updated b) div 10"
    using assms(3) by (auto simp: zdiv_int [symmetric] of_nat_diff)
  then show ?thesis using assms(1,2) by (simp add: refill_def Let_def sat_i128_def)
qed

lemma refill_bounds:
  assumes "- (2 ^ 96) \<le> credit_ns b" "credit_ns b \<le> 100000000" "now < 2 ^ 94"
  shows "credit_ns b \<le> credit_ns (refill b now)" "credit_ns (refill b now) \<le> 100000000"
    "credit_ns (refill b now) * 10 \<le> credit_ns b * 10 + int (now - pb_updated b)"
proof -
  have "0 \<le> int (now - pb_updated b) div 10" "int (now - pb_updated b) div 10 * 10 \<le> int (now - pb_updated b)" by simp_all
  then show "credit_ns b \<le> credit_ns (refill b now)" "credit_ns (refill b now) \<le> 100000000"
    "credit_ns (refill b now) * 10 \<le> credit_ns b * 10 + int (now - pb_updated b)"
    using refill_exact [OF assms] assms(2) by linarith+
qed

lemma refill_fields [simp]: "pb_updated (refill b now) = now" "busy (refill b now) = busy b"
  by (simp_all add: refill_def Let_def)

definition budget_inv :: "instant \<Rightarrow> PreauthBudget \<Rightarrow> nat \<Rightarrow> instant option \<Rightarrow> bool" where
  "budget_inv t0 b spent running \<longleftrightarrow>
     t0 \<le> pb_updated b \<and> (busy b \<longleftrightarrow> running \<noteq> None) \<and> - (2 ^ 95) \<le> credit_ns b \<and> credit_ns b \<le> 100000000 \<and>
     (running \<noteq> None \<longrightarrow> 0 < credit_ns b) \<and>
     credit_ns b * 10 + int spent * 10 \<le> 1000000000 + int (pb_updated b - t0)"

lemma refill_inv:
  assumes "budget_inv t0 b spent running" "pb_updated b \<le> now" "now < 2 ^ 94"
  shows "budget_inv t0 (refill b now) spent running"
proof -
  have "credit_ns b \<le> credit_ns (refill b now)" "credit_ns (refill b now) \<le> 100000000"
    "credit_ns (refill b now) * 10 \<le> credit_ns b * 10 + int (now - pb_updated b)"
    using refill_bounds [of b now] assms by (auto simp: budget_inv_def)
  moreover have "int (now - t0) = int (now - pb_updated b) + int (pb_updated b - t0)"
    using assms by (simp add: budget_inv_def of_nat_diff)
  ultimately show ?thesis using assms(1,2) by (auto simp: budget_inv_def)
qed

lemma drop_inv:
  assumes "budget_inv t0 b spent (Some started)" "pb_updated b \<le> now" "now < 2 ^ 94"
  shows "budget_inv t0 (lease_drop b started now) (spent + (now - started)) None"
proof -
  have r: "budget_inv t0 (refill b now) spent (Some started)" by (rule refill_inv [OF assms])
  moreover have "int (now - started) < 2 ^ 94" using assms(3) by simp
  ultimately have "credit_ns (lease_drop b started now) = credit_ns (refill b now) - int (now - started)"
    by (simp add: lease_drop_def pb_finish_def Let_def sat_i128_def budget_inv_def)
  then show ?thesis using r \<open>int (now - started) < 2 ^ 94\<close>
    by (simp add: budget_inv_def) (auto simp: lease_drop_def pb_finish_def Let_def of_nat_diff)
qed

lemma leases_inv: "leases t0 b spent running \<Longrightarrow> budget_inv t0 b spent running"
proof (induction rule: leases.induct)
  case start
  then show ?case by (simp add: budget_inv_def PreauthBudget_new_def)
next
  case (admitted b spent running now started b')
  have r: "budget_inv t0 (refill b now) spent running" by (rule refill_inv [OF admitted.IH admitted.hyps(2,3)])
  have "b' = refill b now \<lparr>busy := True\<rparr>" "0 < credit_ns (refill b now)" "\<not> busy b"
    using admitted.hyps(4) by (auto simp: lease_acquire_def try_begin_def Let_def split: if_splits)
  with r show ?case by (auto simp: budget_inv_def)
next
  case (rejected b spent running now b')
  have "b' = refill b now"
    using rejected.hyps(4) by (auto simp: lease_acquire_def try_begin_def Let_def split: if_splits)
  then show ?case using refill_inv [OF rejected.IH rejected.hyps(2,3)] by simp
next
  case (dropped b spent started now)
  then show ?case using drop_inv by blast
qed

text \<open>
  C37: Whenever an unauthenticated handshake is admitted, none is running and the time all
  earlier ones took is less than a tenth of a second plus a tenth of the time since the
  budget was created.
\<close>

theorem preauth_budget_bounded:
  assumes "leases t0 b spent running" "pb_updated b \<le> now" "now < 2 ^ 94" "lease_acquire b now = (Some started, b')"
  shows "running = None \<and> 10 * spent < from_secs 1 + (now - t0)"
proof -
  note i = leases_inv [OF assms(1)]
  note r = refill_inv [OF i assms(2,3)]
  have a: "0 < credit_ns (refill b now)" "\<not> busy b"
    using assms(4) by (auto simp: lease_acquire_def try_begin_def Let_def split: if_splits)
  have "running = None" using i a(2) by (auto simp: budget_inv_def)
  moreover have "int (10 * spent) < int (1000000000 + (now - t0))" using r a(1) by (auto simp: budget_inv_def)
  ultimately show ?thesis by linarith
qed

theorem preauth_budget_bounded_witness:
  "\<exists>b'. lease_acquire (PreauthBudget_new 5) 6 = (Some 6, b') \<and> 10 * 0 < from_secs 1 + (6 - 5 :: nat)"
proof -
  have "\<exists>b'. lease_acquire (PreauthBudget_new 5) 6 = (Some 6, b')"
    by (simp add: lease_acquire_def try_begin_def refill_def PreauthBudget_new_def sat_i128_def)
  then obtain b' where a: "lease_acquire (PreauthBudget_new 5) 6 = (Some 6, b')" by blast
  from preauth_budget_bounded [OF leases.start _ _ a] a show ?thesis by (simp add: PreauthBudget_new_def)
qed

text \<open>
  A debt is paid back: once no lease is running, an attempt is admitted as soon as the
  time since the last one covers ten times the debt and one nanosecond of credit.
\<close>

lemma preauth_debt_repaid:
  assumes "leases t0 b spent None" "now < 2 ^ 94" "10 * (1 - credit_ns b) \<le> int (now - pb_updated b)"
  shows "\<exists>b'. lease_acquire b now = (Some now, b')"
proof -
  note i = leases_inv [OF assms(1)]
  have "credit_ns (refill b now) = min (credit_ns b + int (now - pb_updated b) div 10) 100000000"
    using i assms(2) by (intro refill_exact) (auto simp: budget_inv_def)
  moreover have "1 - credit_ns b \<le> int (now - pb_updated b) div 10" using zdiv_mono1 [OF assms(3), of 10] by simp
  ultimately show ?thesis using i
    by (simp add: lease_acquire_def try_begin_def Let_def budget_inv_def)
qed

end
