(* ===== verification/Key_Schedule.thy ===== *)
theory Key_Schedule
  imports Ipv6_Text Framing "HOL-Library.List_Lexorder"
begin

text \<open>
  The key schedule of \<open>aivpn_common::crypto\<close>: session keys derived from a shared secret,
  the envelope of session payloads, resonance tags, the directional keys of a link between
  two nodes, and the message a node signs to prove its identity.  The primitives (BLAKE3,
  ChaCha20-Poly1305, XChaCha20-Poly1305, Ed25519) are library code: they are the fields of
  the parameter \<open>P\<close>, and \<open>suite_ok\<close> states what their documentation promises.  Random
  bytes are arguments.
\<close>

unbundle bit_operations_syntax

section \<open>Primitives\<close>

record primitives =
  blake3_derive :: "bytes \<Rightarrow> bytes \<Rightarrow> bytes"
  blake3_keyed :: "bytes \<Rightarrow> bytes \<Rightarrow> bytes"
  seal :: "bytes \<Rightarrow> bytes \<Rightarrow> bytes \<Rightarrow> bytes \<Rightarrow> bytes option"
  unseal :: "bytes \<Rightarrow> bytes \<Rightarrow> bytes \<Rightarrow> bytes \<Rightarrow> bytes option"
  xseal :: "bytes \<Rightarrow> bytes \<Rightarrow> bytes \<Rightarrow> bytes \<Rightarrow> (bytes \<times> bytes) option"
  xunseal :: "bytes \<Rightarrow> bytes \<Rightarrow> bytes \<Rightarrow> bytes \<Rightarrow> bytes option"
  ed_verify :: "bytes \<Rightarrow> bytes \<Rightarrow> bytes \<Rightarrow> bool"

definition NONCE_SIZE :: nat where "NONCE_SIZE = 12"
definition DEFAULT_WINDOW_MS :: u64 where "DEFAULT_WINDOW_MS = 10000"

definition suite_ok :: "primitives \<Rightarrow> bool" where
  "suite_ok P \<longleftrightarrow>
     (\<forall>c m. length (blake3_derive P c m) = 32) \<and> (\<forall>k m. length (blake3_keyed P k m) = 32) \<and>
     (\<forall>k n a p c. seal P k n a p = Some c \<longrightarrow>
        length c = length p + POLY1305_TAG_SIZE \<and> unseal P k n a c = Some p) \<and>
     (\<forall>k n a p c mac. xseal P k n a p = Some (c, mac) \<longrightarrow>
        length c = length p \<and> length mac = POLY1305_TAG_SIZE \<and> xunseal P k n a (c @ mac) = Some p)"

definition aead_error :: error where "aead_error = Crypto ''aead::Error''"

section \<open>Session keys\<close>

datatype PacketCipher = Established | InitialV2 bytes
datatype PacketDirection = ClientToServer | ServerToClient

definition is_initial :: "PacketCipher \<Rightarrow> bool" where
  "is_initial c = (case c of InitialV2 _ \<Rightarrow> True | Established \<Rightarrow> False)"

record SessionKeys =
  packet_cipher :: PacketCipher
  session_key :: bytes
  session_key_s2c :: bytes
  tag_secret :: bytes
  prng_seed :: bytes

definition key_material :: "bytes \<Rightarrow> bytes option \<Rightarrow> bytes \<Rightarrow> bytes" where
  "key_material dh psk eph = dh @ (case psk of Some k \<Rightarrow> k | None \<Rightarrow> []) @ eph"

definition derive_session_keys :: "primitives \<Rightarrow> bytes \<Rightarrow> bytes option \<Rightarrow> bytes \<Rightarrow> SessionKeys" where
  "derive_session_keys P dh psk eph =
     (let input = key_material dh psk eph in
      \<lparr>packet_cipher = Established,
       session_key = blake3_derive P (ascii ''aivpn-session-key-v1'') input,
       session_key_s2c = blake3_derive P (ascii ''aivpn-session-key-s2c-v1'') input,
       tag_secret = blake3_derive P (ascii ''aivpn-tag-secret-v1'') input,
       prng_seed = blake3_derive P (ascii ''aivpn-prng-seed-v1'') input\<rparr>)"

definition derive_initial_session_keys :: "primitives \<Rightarrow> bytes \<Rightarrow> bytes option \<Rightarrow> bytes \<Rightarrow> SessionKeys" where
  "derive_initial_session_keys P dh psk eph =
     (let material = key_material dh psk eph in
      \<lparr>packet_cipher = InitialV2 eph,
       session_key = blake3_derive P (ascii ''aivpn-initial-session-key-v2'') material,
       session_key_s2c = blake3_derive P (ascii ''aivpn-initial-session-key-s2c-v2'') material,
       tag_secret = blake3_derive P (ascii ''aivpn-initial-tag-secret-v2'') material,
       prng_seed = blake3_derive P (ascii ''aivpn-initial-prng-seed-v2'') material\<rparr>)"

section \<open>Session payloads\<close>

definition session_payload_overhead :: "SessionKeys \<Rightarrow> nat" where
  "session_payload_overhead keys = (if is_initial (packet_cipher keys) then 24 else 0)"

definition initial_packet_aad :: "PacketDirection \<Rightarrow> u64 \<Rightarrow> bytes \<Rightarrow> bytes \<Rightarrow> bytes \<Rightarrow> bytes" where
  "initial_packet_aad direction counter tag eph nonce =
     ascii ''aivpn-packet-aead'' @ [2, 0] @ [case direction of ClientToServer \<Rightarrow> 0 | ServerToClient \<Rightarrow> 1] @
     to_le 8 counter @ tag @ eph @ nonce"

definition counter_nonce :: "u64 \<Rightarrow> bytes" where
  "counter_nonce counter = to_le 8 counter @ replicate (NONCE_SIZE - 8) 0"

definition encrypt_payload :: "primitives \<Rightarrow> bytes \<Rightarrow> bytes \<Rightarrow> bytes \<Rightarrow> bytes result" where
  "encrypt_payload P key nonce plaintext =
     (case seal P key nonce [] plaintext of Some c \<Rightarrow> Inr c | None \<Rightarrow> Inl aead_error)"

definition decrypt_payload :: "primitives \<Rightarrow> bytes \<Rightarrow> bytes \<Rightarrow> bytes \<Rightarrow> bytes result" where
  "decrypt_payload P key nonce ciphertext =
     (case unseal P key nonce [] ciphertext of Some p \<Rightarrow> Inr p | None \<Rightarrow> Inl aead_error)"

definition direction_key :: "SessionKeys \<Rightarrow> PacketDirection \<Rightarrow> bytes" where
  "direction_key keys direction =
     (case direction of ClientToServer \<Rightarrow> session_key keys | ServerToClient \<Rightarrow> session_key_s2c keys)"

definition encrypt_session_payload ::
    "primitives \<Rightarrow> SessionKeys \<Rightarrow> PacketDirection \<Rightarrow> u64 \<Rightarrow> bytes \<Rightarrow> bytes \<Rightarrow> bytes option \<Rightarrow> bytes result" where
  "encrypt_session_payload P keys direction counter tag plaintext random =
     (let key = direction_key keys direction in
      case packet_cipher keys of
        Established \<Rightarrow> encrypt_payload P key (counter_nonce counter) plaintext
      | InitialV2 eph \<Rightarrow>
          (case random of
             None \<Rightarrow> Inl (Crypto ''Failed to obtain a nonce from the system RNG'')
           | Some nonce \<Rightarrow>
               (let aad = initial_packet_aad direction counter tag eph nonce in
                case xseal P key nonce aad plaintext of
                  Some (c, mac) \<Rightarrow> Inr (nonce @ c @ mac)
                | None \<Rightarrow> Inl aead_error)))"

definition decrypt_session_payload ::
    "primitives \<Rightarrow> SessionKeys \<Rightarrow> PacketDirection \<Rightarrow> u64 \<Rightarrow> bytes \<Rightarrow> bytes \<Rightarrow> bytes result" where
  "decrypt_session_payload P keys direction counter tag envelope =
     (let key = direction_key keys direction in
      case packet_cipher keys of
        Established \<Rightarrow> decrypt_payload P key (counter_nonce counter) envelope
      | InitialV2 eph \<Rightarrow>
          (if length envelope < 24 + POLY1305_TAG_SIZE then Inl (InvalidPacket ''InitialV2 envelope too short'')
           else bind (slice envelope 0 24) (\<lambda>nonce.
             let aad = initial_packet_aad direction counter tag eph nonce in
             case xunseal P key nonce aad (drop 24 envelope) of
               Some p \<Rightarrow> Inr p
             | None \<Rightarrow> Inl aead_error)))"

section \<open>Tags\<close>

definition compute_time_window :: "u64 \<Rightarrow> u64 \<Rightarrow> u64" where
  "compute_time_window timestamp_ms window_ms = timestamp_ms div window_ms"

definition generate_resonance_tag :: "primitives \<Rightarrow> bytes \<Rightarrow> u64 \<Rightarrow> u64 \<Rightarrow> bytes" where
  "generate_resonance_tag P secret counter time_window =
     (let tag = take TAG_SIZE (blake3_keyed P secret (to_le 8 counter @ to_le 8 time_window))
      in if hd tag \<ge> 1 \<and> hd tag \<le> 4 then tag[0 := hd tag + 5] else tag)"

section \<open>Nodes\<close>

definition device_enrollment_proof :: "primitives \<Rightarrow> bytes \<Rightarrow> bytes \<Rightarrow> bytes \<Rightarrow> bytes" where
  "device_enrollment_proof P dh server_eph client_eph =
     blake3_derive P (ascii ''aivpn-device-enrollment-v2'') (dh @ server_eph @ client_eph)"

definition derive_peer_pair_key :: "primitives \<Rightarrow> bytes \<Rightarrow> bytes \<Rightarrow> rstring \<Rightarrow> rstring \<Rightarrow> bytes" where
  "derive_peer_pair_key P context_string shared low high =
     blake3_derive P context_string (shared @ to_le 4 (of_nat (length low) :: u32) @ low @ high)"

definition PEER_DIR_C2S_CONTEXT :: bytes where "PEER_DIR_C2S_CONTEXT = ascii ''aivpn-peer-dir-c2s-v1''"
definition PEER_DIR_S2C_CONTEXT :: bytes where "PEER_DIR_S2C_CONTEXT = ascii ''aivpn-peer-dir-s2c-v1''"

definition derive_directional_peer_keys ::
    "primitives \<Rightarrow> bytes \<Rightarrow> rstring \<Rightarrow> rstring \<Rightarrow> (bytes \<times> bytes) result" where
  "derive_directional_peer_keys P shared local_id peer_id =
     (if local_id = peer_id
      then Inl (Crypto (''directional peer keys require distinct peer ids (both are '' @ [CHR 0x27] @
             map (\<lambda>b. char_of (unat b)) local_id @ [CHR 0x27] @ '')''))
      else let local_is_client = local_id < peer_id;
               (low, high) = (if local_is_client then (local_id, peer_id) else (peer_id, local_id));
               c2s = derive_peer_pair_key P PEER_DIR_C2S_CONTEXT shared low high;
               s2c = derive_peer_pair_key P PEER_DIR_S2C_CONTEXT shared low high
           in Inr (if local_is_client then (c2s, s2c) else (s2c, c2s)))"

definition pool_client_psk :: "primitives \<Rightarrow> bytes \<Rightarrow> bytes" where
  "pool_client_psk P sync_key = blake3_derive P (ascii ''aivpn-pool-client-psk-v1'') sync_key"

definition node_enrollment_signing_bytes :: "rstring \<Rightarrow> bytes \<Rightarrow> u64 \<Rightarrow> bytes \<Rightarrow> bytes \<Rightarrow> bytes" where
  "node_enrollment_signing_bytes node_id node_pub time_window server_eph client_eph =
     ascii ''aivpn-node-enrollment-v1'' @ to_le 4 (of_nat (length node_id) :: u32) @ node_id @ node_pub @
     to_le 8 time_window @ server_eph @ client_eph"

definition verify_node_enrollment ::
    "primitives \<Rightarrow> bytes \<Rightarrow> rstring \<Rightarrow> u64 \<Rightarrow> bytes \<Rightarrow> bytes \<Rightarrow> bytes \<Rightarrow> bool" where
  "verify_node_enrollment P node_pub node_id time_window signature server_eph client_eph =
     ed_verify P node_pub (node_enrollment_signing_bytes node_id node_pub time_window server_eph client_eph) signature"

definition obfuscate_eph_pub :: "primitives \<Rightarrow> bytes \<Rightarrow> bytes \<Rightarrow> bytes" where
  "obfuscate_eph_pub P eph server_static =
     (let mask = blake3_derive P (ascii ''aivpn-eph-obfuscation-v1'') server_static
      in map (\<lambda>(a, b). a XOR b) (zip eph mask))"

section \<open>Theorems\<close>

lemma counter_nonce_inj: "counter_nonce a = counter_nonce b \<longleftrightarrow> a = b"
  by (simp add: counter_nonce_def to_le_inj)

text \<open>
  C38: A payload sealed for a direction, counter and tag is opened by the same keys, and
  the envelope is longer than the payload by exactly the announced overhead and the
  authentication tag.
\<close>

theorem session_payload_roundtrip:
  assumes "suite_ok P" "\<forall>nonce. random = Some nonce \<longrightarrow> length nonce = 24"
    "encrypt_session_payload P keys direction counter tag plaintext random = Inr envelope"
  shows "decrypt_session_payload P keys direction counter tag envelope = Inr plaintext \<and>
    length envelope = length plaintext + session_payload_overhead keys + POLY1305_TAG_SIZE"
proof (cases "packet_cipher keys")
  case Established
  then show ?thesis using assms(1,3)
    by (auto simp: encrypt_session_payload_def decrypt_session_payload_def encrypt_payload_def decrypt_payload_def
        suite_ok_def session_payload_overhead_def is_initial_def Let_def split: option.splits)
next
  case (InitialV2 eph)
  then obtain nonce c mac where r: "random = Some nonce" "envelope = nonce @ c @ mac" and
    s: "xseal P (direction_key keys direction) nonce (initial_packet_aad direction counter tag eph nonce) plaintext = Some (c, mac)"
    using assms(3) by (auto simp: encrypt_session_payload_def Let_def split: option.splits)
  have l: "length nonce = 24" "length c = length plaintext" "length mac = POLY1305_TAG_SIZE"
    "xunseal P (direction_key keys direction) nonce (initial_packet_aad direction counter tag eph nonce) (c @ mac) = Some plaintext"
    using assms(1,2) r s by (auto simp: suite_ok_def)
  then show ?thesis using InitialV2 r
    by (simp add: decrypt_session_payload_def session_payload_overhead_def is_initial_def Let_def POLY1305_TAG_SIZE_def)
qed

text \<open>A suite without secrecy that meets the contract, for the witnesses.\<close>

definition plain_suite :: primitives where
  "plain_suite =
     \<lparr>blake3_derive = (\<lambda>c m. replicate 32 (of_nat (length c))), blake3_keyed = (\<lambda>k m. replicate 32 9),
      seal = (\<lambda>k n a p. Some (p @ replicate 16 0)), unseal = (\<lambda>k n a c. Some (take (length c - 16) c)),
      xseal = (\<lambda>k n a p. Some (p, replicate 16 0)), xunseal = (\<lambda>k n a c. Some (take (length c - 16) c)),
      ed_verify = (\<lambda>k m s. False)\<rparr>"

lemma plain_suite_ok: "suite_ok plain_suite"
  by (auto simp: suite_ok_def plain_suite_def POLY1305_TAG_SIZE_def)

theorem session_payload_roundtrip_witness:
  "\<exists>envelope. encrypt_session_payload plain_suite (derive_session_keys plain_suite [1] None [2]) ServerToClient 7 [] [5, 6] None =
     Inr envelope \<and>
   decrypt_session_payload plain_suite (derive_session_keys plain_suite [1] None [2]) ServerToClient 7 [] envelope = Inr [5, 6]"
proof -
  have "\<exists>envelope. encrypt_session_payload plain_suite (derive_session_keys plain_suite [1] None [2]) ServerToClient 7 [] [5, 6] None =
     Inr envelope"
    by (simp add: encrypt_session_payload_def derive_session_keys_def encrypt_payload_def plain_suite_def Let_def)
  then obtain envelope where e: "encrypt_session_payload plain_suite (derive_session_keys plain_suite [1] None [2])
     ServerToClient 7 [] [5, 6] None = Inr envelope" by blast
  from session_payload_roundtrip [OF plain_suite_ok _ e] e show ?thesis by simp
qed

text \<open>
  Two nodes with distinct names derive mirrored keys: what one sends with, the other
  receives with.  The two directions share a key only if BLAKE3 gives two different contexts
  the same output.  A node that names itself as its peer gets an error and no keys.
\<close>

lemma peer_keys_mirrored:
  "(a = b \<longrightarrow> (\<exists>msg. derive_directional_peer_keys P k a b = Inl (Crypto msg))) \<and>
   (a \<noteq> b \<longrightarrow> (\<exists>s r. derive_directional_peer_keys P k a b = Inr (s, r) \<and>
      derive_directional_peer_keys P k b a = Inr (r, s) \<and>
      (s = r \<longrightarrow> (\<exists>m. blake3_derive P PEER_DIR_C2S_CONTEXT m = blake3_derive P PEER_DIR_S2C_CONTEXT m))))"
proof -
  have "a \<noteq> b \<Longrightarrow> (a < b) \<noteq> (b < a)" by (metis less_asym less_linear)
  then show ?thesis
    by (auto simp: derive_directional_peer_keys_def Let_def derive_peer_pair_key_def intro: sym)
qed

text \<open>
  C39: The message a node signs determines everything it is meant to bind: the name, the
  key, the time window and both ephemeral keys of the session.
\<close>

theorem node_enrollment_unambiguous:
  assumes "length a < 2 ^ 32" "length b < 2 ^ 32" "length ka = 32" "length kb = 32" "length sa = 32" "length sb = 32"
    "node_enrollment_signing_bytes a ka ta sa ca = node_enrollment_signing_bytes b kb tb sb cb"
  shows "a = b \<and> ka = kb \<and> ta = tb \<and> sa = sb \<and> ca = cb"
proof -
  have *: "to_le 4 (of_nat (length a) :: u32) = to_le 4 (of_nat (length b) :: u32)"
    "a @ ka @ to_le 8 ta @ sa @ ca = b @ kb @ to_le 8 tb @ sb @ cb"
    using assms(7) by (simp_all add: node_enrollment_signing_bytes_def)
  then have "(of_nat (length a) :: u32) = of_nat (length b)" by (simp add: to_le_inj)
  then have "unat (of_nat (length a) :: u32) = unat (of_nat (length b) :: u32)" by simp
  then have "length a = length b" using assms(1,2) by (simp add: unat_of_nat)
  then have 1: "a = b" "ka @ to_le 8 ta @ sa @ ca = kb @ to_le 8 tb @ sb @ cb" using *(2) by simp_all
  then have 2: "ka = kb" "to_le 8 ta @ sa @ ca = to_le 8 tb @ sb @ cb" using assms(3,4) by simp_all
  then have "to_le 8 ta = to_le 8 tb" "sa = sb" "ca = cb" using assms(5,6) by simp_all
  moreover from this have "ta = tb" by (simp add: to_le_inj)
  ultimately show ?thesis using 1 2 by simp
qed

theorem node_enrollment_unambiguous_witness:
  "node_enrollment_signing_bytes (ascii ''n1'') (replicate 32 1) 5 (replicate 32 2) (replicate 32 3) \<noteq>
   node_enrollment_signing_bytes (ascii ''n'') (replicate 32 1) 5 (replicate 32 2) (replicate 32 3)"
  using node_enrollment_unambiguous [of "ascii ''n1''" "ascii ''n''" "replicate 32 1" "replicate 32 1" "replicate 32 2"
      "replicate 32 2" 5 "replicate 32 3" 5 "replicate 32 3"] by (auto simp: ascii_def)

lemma obfuscation_involutive:
  assumes "suite_ok P" "length eph = 32"
  shows "obfuscate_eph_pub P (obfuscate_eph_pub P eph server) server = eph"
proof -
  have "length (blake3_derive P (ascii ''aivpn-eph-obfuscation-v1'') server) = 32" using assms(1) by (simp add: suite_ok_def)
  then show ?thesis using assms(2)
    by (auto simp: obfuscate_eph_pub_def Let_def intro!: nth_equalityI simp: xor.assoc)
qed

text \<open>A tag never starts with a byte that names a WireGuard message type.\<close>

lemma tag_not_wireguard:
  assumes "suite_ok P"
  shows "length (generate_resonance_tag P secret counter tw) = TAG_SIZE \<and>
    hd (generate_resonance_tag P secret counter tw) \<notin> {1, 2, 3, 4}"
proof -
  define t where "t = take TAG_SIZE (blake3_keyed P secret (to_le 8 counter @ to_le 8 tw))"
  have "length t = 8" using assms by (simp add: t_def suite_ok_def TAG_SIZE_def)
  then obtain x xs where t: "t = x # xs" "length xs = 7" by (cases t) auto
  have "x \<ge> 1 \<and> x \<le> 4 \<Longrightarrow> x + 5 \<notin> {1, 2, 3, 4}"
    by (auto simp: word_le_nat_alt word_unat_eq_iff unat_word_ariths)
  moreover have "\<not> (x \<ge> 1 \<and> x \<le> 4) \<Longrightarrow> x \<notin> {1, 2, 3, 4}" by auto
  moreover have "generate_resonance_tag P secret counter tw = (if x \<ge> 1 \<and> x \<le> 4 then (x + 5) # xs else x # xs)"
    unfolding generate_resonance_tag_def t_def [symmetric] Let_def t(1) by simp
  ultimately show ?thesis using t(2) by (auto simp: TAG_SIZE_def)
qed

end
