(* ===== verification/Mtls.thy ===== *)
theory Mtls
  imports Key_Schedule
begin

text \<open>
  The certificate layer of \<open>aivpn-server/src/mtls.rs\<close>: the 104-byte certificate, its check
  against the configured authority, and the policy.  Ed25519 and the hexadecimal decoder are
  library code and parameters; the clock is an argument.
\<close>

section \<open>Certificates\<close>

definition CERT_SIZE :: nat where "CERT_SIZE = 104"

record SimpleCert =
  client_pub_key :: bytes
  expiry_ts :: u64
  ca_signature :: bytes

record MtlsConfig =
  ca_public_key_hex :: "rstring option"
  cert_required :: bool

definition cert_from_bytes :: "bytes \<Rightarrow> SimpleCert option" where
  "cert_from_bytes bs =
     (if length bs \<noteq> CERT_SIZE then None
      else Some \<lparr>client_pub_key = take 32 bs, expiry_ts = from_le (take 8 (drop 32 bs)),
                 ca_signature = take 64 (drop 40 bs)\<rparr>)"

definition cert_to_bytes :: "SimpleCert \<Rightarrow> bytes" where
  "cert_to_bytes c = client_pub_key c @ to_le 8 (expiry_ts c) @ ca_signature c"

definition signed_message :: "bytes \<Rightarrow> u64 \<Rightarrow> bytes" where
  "signed_message key expiry = key @ to_le 8 expiry"

definition verify_cert :: "primitives \<Rightarrow> (rstring \<Rightarrow> bytes option) \<Rightarrow> SimpleCert \<Rightarrow> MtlsConfig \<Rightarrow> u64 \<Rightarrow> bool" where
  "verify_cert P hex_decode cert config now_ms =
     (case ca_public_key_hex config of
        None \<Rightarrow> False
      | Some h \<Rightarrow>
          (case hex_decode h of
             None \<Rightarrow> False
           | Some ca \<Rightarrow>
               if length ca \<noteq> 32 then False
               else if expiry_ts cert < now_ms div 1000 then False
               else ed_verify P ca (signed_message (client_pub_key cert) (expiry_ts cert)) (ca_signature cert)))"

definition check_client ::
    "primitives \<Rightarrow> (rstring \<Rightarrow> bytes option) \<Rightarrow> bytes option \<Rightarrow> MtlsConfig \<Rightarrow> u64 \<Rightarrow> bool" where
  "check_client P hex_decode cert_bytes config now_ms =
     (case cert_bytes of
        None \<Rightarrow> \<not> cert_required config
      | Some bs \<Rightarrow>
          (case cert_from_bytes bs of
             Some cert \<Rightarrow> verify_cert P hex_decode cert config now_ms
           | None \<Rightarrow> False))"

definition issue_cert :: "(bytes \<Rightarrow> bytes \<Rightarrow> bytes) \<Rightarrow> bytes \<Rightarrow> u64 \<Rightarrow> bytes \<Rightarrow> SimpleCert" where
  "issue_cert sign key expiry ca_private =
     \<lparr>client_pub_key = key, expiry_ts = expiry, ca_signature = sign ca_private (signed_message key expiry)\<rparr>"

section \<open>Theorems\<close>

lemma cert_roundtrip:
  assumes "length (client_pub_key c) = 32" "length (ca_signature c) = 64"
  shows "cert_from_bytes (cert_to_bytes c) = Some c"
  using assms by (simp add: cert_from_bytes_def cert_to_bytes_def CERT_SIZE_def from_le_to_le)

text \<open>
  A certificate the authority issued is accepted up to the second it expires and
  rejected afterwards, if signatures made with the authority's private key verify under the
  configured public key.
\<close>

lemma issued_cert_accepted:
  assumes "\<And>m. ed_verify P ca m (sign priv m)" "\<And>m. length (sign priv m) = 64" "length ca = 32"
    "hex_decode h = Some ca" "ca_public_key_hex config = Some h" "length key = 32"
  shows "check_client P hex_decode (Some (cert_to_bytes (issue_cert sign key expiry priv))) config now_ms \<longleftrightarrow>
    now_ms div 1000 \<le> expiry"
proof -
  have "cert_from_bytes (cert_to_bytes (issue_cert sign key expiry priv)) = Some (issue_cert sign key expiry priv)"
    using assms(2,6) by (intro cert_roundtrip) (simp_all add: issue_cert_def)
  then show ?thesis using assms by (auto simp: check_client_def verify_cert_def issue_cert_def not_less)
qed

end
