(* ===== verification/Session.thy ===== *)
theory Session
  imports Mtls Replay_Window Quality Limits Control_Payload
begin

text \<open>
  A session of \<open>aivpn-server/src/session.rs\<close>: its key epochs, the window of expected tags,
  the replay state of the current and of the previous epoch, the ratchet and the inline
  rekey, and the packet claim of the gateway (\<open>gateway/packet_ingress.rs\<close>,
  \<open>gateway/kernel_offload.rs\<close>).  \<open>Instant::now\<close> and the wall clock in milliseconds are
  arguments \<open>now\<close> and \<open>ms\<close>; the primitives of the key schedule are the argument \<open>P\<close>.
  The send counter wraps around, as it does in a release build (a debug build panics there).
  The fields that hold the mask, its state machine, the FEC and fragment buffers and the
  accounting of the kernel module are not part of this model.
\<close>

section \<open>State\<close>

definition HANDSHAKE_SKEW_WINDOWS :: "int list" where "HANDSHAKE_SKEW_WINDOWS = [0, - 1, 1, - 2, 2]"
definition HANDSHAKE_REPLAY_TTL :: duration where
  "HANDSHAKE_REPLAY_TTL = from_millis (5 * unat DEFAULT_WINDOW_MS + 10000)"
definition HANDSHAKE_REPLAY_CAPACITY :: nat where "HANDSHAKE_REPLAY_CAPACITY = 8192"
definition REKEY_INTERVAL_SECS :: nat where "REKEY_INTERVAL_SECS = 120"
definition REKEY_BYTES_THRESHOLD :: u64 where "REKEY_BYTES_THRESHOLD = 64 * 1024 * 1024"
definition MAX_REKEY_SEND_ATTEMPTS :: u32 where "MAX_REKEY_SEND_ATTEMPTS = 5"
definition REKEY_RETRANSMIT_SECS :: nat where "REKEY_RETRANSMIT_SECS = 3"
definition REKEY_TAG_LOOKAHEAD :: u64 where "REKEY_TAG_LOOKAHEAD = 4096"
definition INLINE_REKEY_GRACE_MIN :: duration where "INLINE_REKEY_GRACE_MIN = from_secs 20"
definition QUALITY_REPORT_MIN_INTERVAL :: duration where "QUALITY_REPORT_MIN_INTERVAL = from_secs 1"

type_synonym tags = "(u64, bytes) hmap"

record Session = window +
  removed :: bool
  s_keys :: SessionKeys
  eph_pub :: bytes
  last_seen :: instant
  created_at :: instant
  send_seq :: u32
  send_counter :: u64
  expected_tags :: tags
  tag_window_base :: u64
  tag_search_hint :: "u64 option"
  server_eph_pub :: "bytes option"
  ratcheted_keys :: "SessionKeys option"
  ratcheted_expected_tags :: tags
  is_ratcheted :: bool
  initial_hello_sends :: u8
  initial_hello_last_sent :: "instant option"
  client_id :: "rstring option"
  pre_ratchet_tags :: tags
  pre_ratchet_expire :: "instant option"
  pre_ratchet_monotonic :: bool
  pre_ratchet_counter :: u64
  pre_ratchet_window_base :: u64
  pre_ratchet_received :: "u64 list"
  pre_ratchet_keys :: "SessionKeys option"
  mtls_ok :: bool
  mtls_required :: bool
  verified_device_pub :: "bytes option"
  mtls_cert :: "SimpleCert option"
  is_site_peer :: bool
  is_masked_pool_peer :: bool
  client_admitted :: bool
  pending_rekey_keypair :: "bytes option"
  pending_rekey_attempts :: u32
  last_keyrotate_sent_at :: instant
  last_rekey_at :: instant
  bytes_since_rekey :: u64
  receiver_loss :: ReceiverLossWindow
  receiver_report_sent_at :: "instant option"
  quality_report_received_at :: "instant option"
  client_srtt_ms :: u32
  rtc_retired_offers :: "bytes list"
  kernel_epoch :: u32
  kernel_faulted :: bool
  kernel_prev_epoch :: u32
  tag_window_tw :: u64

definition Session_new :: "SessionKeys \<Rightarrow> bytes \<Rightarrow> instant \<Rightarrow> Session" where
  "Session_new keys eph now =
     \<lparr>w_counter = 0, w_bitmap = ReplayWindow_default, removed = False, s_keys = keys, eph_pub = eph,
      last_seen = now, created_at = now, send_seq = 0, send_counter = 0, expected_tags = [],
      tag_window_base = 0, tag_search_hint = None, server_eph_pub = None, ratcheted_keys = None,
      ratcheted_expected_tags = [], is_ratcheted = False, initial_hello_sends = 0,
      initial_hello_last_sent = None, client_id = None, pre_ratchet_tags = [], pre_ratchet_expire = None,
      pre_ratchet_monotonic = False, pre_ratchet_counter = 0, pre_ratchet_window_base = 0,
      pre_ratchet_received = [], pre_ratchet_keys = None, mtls_ok = True, mtls_required = False,
      verified_device_pub = None, mtls_cert = None, is_site_peer = False, is_masked_pool_peer = False,
      client_admitted = False, pending_rekey_keypair = None, pending_rekey_attempts = 0,
      last_keyrotate_sent_at = now, last_rekey_at = now, bytes_since_rekey = 0,
      receiver_loss = ReceiverLossWindow_default, receiver_report_sent_at = None,
      quality_report_received_at = None, client_srtt_ms = 0, rtc_retired_offers = [], kernel_epoch = 0,
      kernel_faulted = False, kernel_prev_epoch = 0, tag_window_tw = 0\<rparr>"

section \<open>Identity and limits\<close>

definition retire_rtc_offer :: "Session \<Rightarrow> bytes \<Rightarrow> Session" where
  "retire_rtc_offer s i =
     (if i \<in> set (rtc_retired_offers s) then s
      else let offers = rtc_retired_offers s @ [i]
           in s \<lparr>rtc_retired_offers := drop (length offers - 64) offers\<rparr>)"

definition admit_initial_hello :: "Session \<Rightarrow> instant \<Rightarrow> bool \<times> Session" where
  "admit_initial_hello s now =
     (if is_ratcheted s then (True, s)
      else if initial_hello_sends s \<ge> 16 \<or> now - created_at s \<ge> HANDSHAKE_TIMEOUT \<or>
         (initial_hello_sends s \<ge> 2 \<and>
          (case initial_hello_last_sent s of Some t \<Rightarrow> now - t < from_millis 200 | None \<Rightarrow> False))
      then (False, s)
      else (True, s \<lparr>initial_hello_sends := initial_hello_sends s + 1, initial_hello_last_sent := Some now\<rparr>))"

definition record_verified_device :: "Session \<Rightarrow> bytes \<Rightarrow> bool \<times> Session" where
  "record_verified_device s static_pub =
     (if (case verified_device_pub s of Some key \<Rightarrow> key \<noteq> static_pub | None \<Rightarrow> False) then (False, s)
      else (True, s \<lparr>verified_device_pub := Some static_pub\<rparr>))"

definition record_mtls_cert :: "Session \<Rightarrow> SimpleCert \<Rightarrow> Session" where
  "record_mtls_cert s cert = s \<lparr>mtls_cert := Some cert\<rparr>"

definition refresh_mtls_gate :: "Session \<Rightarrow> bool \<Rightarrow> u64 \<Rightarrow> bool \<times> Session" where
  "refresh_mtls_gate s req ms =
     (let ok = (\<not> req \<or> (case mtls_cert s of
                  Some cert \<Rightarrow> verified_device_pub s = Some (client_pub_key cert) \<and> expiry_ts cert \<ge> ms div 1000
                | None \<Rightarrow> False))
      in (ok, s \<lparr>mtls_required := req, mtls_ok := ok\<rparr>))"

definition next_seq :: "Session \<Rightarrow> u32 \<times> Session" where
  "next_seq s = (send_seq s, s \<lparr>send_seq := send_seq s + 1\<rparr>)"

definition next_send_nonce :: "Session \<Rightarrow> (bytes \<times> u64) \<times> Session" where
  "next_send_nonce s = ((counter_nonce (send_counter s), send_counter s), s \<lparr>send_counter := send_counter s + 1\<rparr>)"

definition accept_quality_report :: "Session \<Rightarrow> instant \<Rightarrow> bool \<times> Session" where
  "accept_quality_report s now =
     (if (case quality_report_received_at s of Some t \<Rightarrow> now - t < QUALITY_REPORT_MIN_INTERVAL | None \<Rightarrow> False)
      then (False, s) else (True, s \<lparr>quality_report_received_at := Some now\<rparr>))"

definition receiver_quality_report :: "Session \<Rightarrow> bool \<Rightarrow> instant \<Rightarrow> ControlPayload option result \<times> Session" where
  "receiver_quality_report s observation_complete now =
     (if \<not> observation_complete \<or> \<not> is_ratcheted s \<or> \<not> client_admitted s \<or> kernel_faulted s \<or>
         client_id s = None \<or> is_site_peer s \<or> is_masked_pool_peer s
      then (Inr None, s)
      else case loss_ppm (receiver_loss s) of
        Inl e \<Rightarrow> (Inl e, s)
      | Inr None \<Rightarrow> (Inr None, s)
      | Inr (Some loss) \<Rightarrow>
          (if (case receiver_report_sent_at s of Some t \<Rightarrow> now - t < QUALITY_REPORT_MIN_INTERVAL | None \<Rightarrow> False)
           then (Inr None, s)
           else (Inr (Some (QualityReport 0 0 loss 0)), s \<lparr>receiver_report_sent_at := Some now\<rparr>)))"

definition observe_client_rtt :: "Session \<Rightarrow> u32 \<Rightarrow> Session" where
  "observe_client_rtt s rtt =
     (let sample = min (max rtt 1) 60000
      in s \<lparr>client_srtt_ms := (if client_srtt_ms s = 0 then sample
             else of_nat ((unat (client_srtt_ms s) * 7 + unat sample) div 8))\<rparr>)"

definition rekey_grace :: "Session \<Rightarrow> duration" where
  "rekey_grace s =
     (if client_srtt_ms s = 0 then from_secs 2
      else min (max (from_millis (unat (client_srtt_ms s) * 4)) (from_secs 2)) (from_secs 30))"

definition inline_rekey_grace :: "Session \<Rightarrow> duration" where
  "inline_rekey_grace s = max (rekey_grace s) INLINE_REKEY_GRACE_MIN"

section \<open>Tag windows\<close>

definition tag_search_center :: "Session \<Rightarrow> u64" where
  "tag_search_center s =
     max (w_counter s) (case tag_search_hint s of Some hint \<Rightarrow> hint | None \<Rightarrow> w_counter s)"

definition clear_consumed_tag_hint :: "Session \<Rightarrow> Session" where
  "clear_consumed_tag_hint s =
     (case tag_search_hint s of
        Some hint \<Rightarrow> (if w_counter s \<ge> hint then s \<lparr>tag_search_hint := None\<rparr> else s)
      | None \<Rightarrow> s)"

definition pre_ratchet_keys_in_grace :: "Session \<Rightarrow> instant \<Rightarrow> SessionKeys option" where
  "pre_ratchet_keys_in_grace s now =
     (case pre_ratchet_expire s of
        Some expire \<Rightarrow> (if now < expire then pre_ratchet_keys s else None)
      | None \<Rightarrow> None)"

definition sat_sub :: "u64 \<Rightarrow> u64 \<Rightarrow> u64" where
  "sat_sub a b = (if a < b then 0 else a - b)"

definition tag_band :: "primitives \<Rightarrow> bytes \<Rightarrow> u64 \<Rightarrow> u64 \<Rightarrow> u64 \<Rightarrow> tags" where
  "tag_band P secret tw first final =
     map (\<lambda>i. (of_nat i, generate_resonance_tag P secret (of_nat i) tw)) [unat first..<Suc (unat final)]"

definition window_fwd :: "Session \<Rightarrow> u64" where
  "window_fwd s = of_nat TAG_WINDOW_SIZE - 1 + (if pending_rekey_keypair s \<noteq> None then REKEY_TAG_LOOKAHEAD else 0)"

definition previous_advanced :: "Session \<Rightarrow> instant \<Rightarrow> bool" where
  "previous_advanced s now \<longleftrightarrow>
     pre_ratchet_monotonic s \<and> pre_ratchet_keys_in_grace s now \<noteq> None \<and>
     sat_sub (pre_ratchet_counter s) (pre_ratchet_window_base s) \<ge> 128"

definition slide_previous :: "primitives \<Rightarrow> Session \<Rightarrow> SessionKeys \<Rightarrow> u64 \<Rightarrow> Session" where
  "slide_previous P s keys tw =
     (let center = pre_ratchet_counter s;
          start = sat_sub center (of_nat TAG_WINDOW_SIZE - 1);
          final = sat_add center (of_nat TAG_WINDOW_SIZE - 1 + REKEY_TAG_LOOKAHEAD)
      in s \<lparr>pre_ratchet_tags := tag_band P (tag_secret keys) tw start final,
            pre_ratchet_received := filter (\<lambda>c. c \<ge> start) (pre_ratchet_received s),
            pre_ratchet_window_base := center\<rparr>)"

definition update_tag_window :: "primitives \<Rightarrow> Session \<Rightarrow> instant \<Rightarrow> u64 \<Rightarrow> Session" where
  "update_tag_window P s now ms =
     (let tw = compute_time_window ms DEFAULT_WINDOW_MS;
          center = tag_search_center s;
          s = s \<lparr>tag_window_base := center,
                 expected_tags := tag_band P (tag_secret (s_keys s)) tw
                   (sat_sub center (of_nat TAG_WINDOW_SIZE - 1)) (sat_add center (window_fwd s)),
                 tag_window_tw := tw\<rparr>
      in case pre_ratchet_keys_in_grace s now of
           Some keys \<Rightarrow> (if previous_advanced s now then slide_previous P s keys tw else s)
         | None \<Rightarrow> s)"

definition refresh_tag_window_if_needed :: "primitives \<Rightarrow> Session \<Rightarrow> instant \<Rightarrow> u64 \<Rightarrow> bool \<times> Session" where
  "refresh_tag_window_if_needed P s now ms =
     (if \<not> sat_sub (tag_search_center s) (tag_window_base s) \<ge> 128 \<and> \<not> previous_advanced s now then (False, s)
      else (True, update_tag_window P s now ms))"

definition update_ratcheted_tag_window :: "primitives \<Rightarrow> Session \<Rightarrow> u64 \<Rightarrow> Session" where
  "update_ratcheted_tag_window P s ms =
     (case ratcheted_keys s of
        None \<Rightarrow> s
      | Some keys \<Rightarrow>
          s \<lparr>ratcheted_expected_tags :=
               tag_band P (tag_secret keys) (compute_time_window ms DEFAULT_WINDOW_MS) 0 (of_nat TAG_WINDOW_SIZE - 1)\<rparr>)"

section \<open>Validating tags\<close>

definition is_replay :: "Session \<Rightarrow> u64 \<Rightarrow> bool" where
  "is_replay s c =
     (if c > w_counter s then False
      else let bit_index = unat (w_counter s - c)
           in if bit_index \<ge> TAG_WINDOW_SIZE then True else get_bit (w_bitmap s) bit_index)"

definition find_tag :: "tags \<Rightarrow> bytes \<Rightarrow> u64 option" where
  "find_tag ts tag = map_option fst (find (\<lambda>(_, expected). expected = tag) ts)"

fun find_in_windows :: "primitives \<Rightarrow> bytes \<Rightarrow> u64 list \<Rightarrow> u64 \<Rightarrow> u64 \<Rightarrow> bytes \<Rightarrow> u64 option" where
  "find_in_windows P secret [] first final tag = None"
| "find_in_windows P secret (tw # tws) first final tag =
     (case find_tag (tag_band P secret tw first final) tag of
        Some c \<Rightarrow> Some c
      | None \<Rightarrow> find_in_windows P secret tws first final tag)"

definition validate_previous :: "Session \<Rightarrow> instant \<Rightarrow> bytes \<Rightarrow> u64 option" where
  "validate_previous s now tag =
     (case pre_ratchet_expire s of
        Some expire \<Rightarrow> (if now < expire then find_tag (pre_ratchet_tags s) tag else None)
      | None \<Rightarrow> None)"

definition validate_ratcheted :: "primitives \<Rightarrow> Session \<Rightarrow> u64 \<Rightarrow> bytes \<Rightarrow> u64 option" where
  "validate_ratcheted P s tw tag =
     (if is_ratcheted s then None
      else case find_tag (ratcheted_expected_tags s) tag of
        Some c \<Rightarrow> Some c
      | None \<Rightarrow>
          (case ratcheted_keys s of
             None \<Rightarrow> None
           | Some keys \<Rightarrow> find_in_windows P (tag_secret keys) [tw - 1, tw + 1] 0 (of_nat TAG_WINDOW_SIZE - 1) tag))"

definition validate_tag :: "primitives \<Rightarrow> Session \<Rightarrow> instant \<Rightarrow> u64 \<Rightarrow> bytes \<Rightarrow> (u64 \<times> bool) option" where
  "validate_tag P s now ms tag =
     (let center = tag_search_center s;
          window_start = sat_sub center (of_nat TAG_WINDOW_SIZE - 1);
          window_end = sat_add center (window_fwd s);
          current = (\<lambda>c. if is_replay s c then None else Some (c, False));
          tw = compute_time_window ms DEFAULT_WINDOW_MS;
          tws = filter (\<lambda>w. w \<noteq> tag_window_tw s) [tw, tw - 1, tw + 1]
      in case find_tag (expected_tags s) tag of
           Some c \<Rightarrow> current c
         | None \<Rightarrow>
             (case find_in_windows P (tag_secret (s_keys s)) tws window_start window_end tag of
                Some c \<Rightarrow> current c
              | None \<Rightarrow>
                  (case validate_previous s now tag of
                     Some c \<Rightarrow> if c \<in> set (pre_ratchet_received s) then None else Some (c, False)
                   | None \<Rightarrow> map_option (\<lambda>c. (c, True)) (validate_ratcheted P s tw tag))))"

definition validate_handshake_tag :: "primitives \<Rightarrow> Session \<Rightarrow> u64 \<Rightarrow> bytes \<Rightarrow> (u64 \<times> bool) option" where
  "validate_handshake_tag P s ms tag =
     (let base_tw = compute_time_window ms DEFAULT_WINDOW_MS
      in map_option (\<lambda>c. (c, False))
           (find_in_windows P (tag_secret (s_keys s)) (map (\<lambda>d. base_tw + of_int d) HANDSHAKE_SKEW_WINDOWS) 0 16 tag))"

section \<open>Marking packets\<close>

definition mark_tag_received :: "Session \<Rightarrow> u64 \<Rightarrow> Session" where
  "mark_tag_received s c = clear_consumed_tag_hint (window_mark s c)"

definition mark_pre_ratchet_received :: "Session \<Rightarrow> u64 \<Rightarrow> Session" where
  "mark_pre_ratchet_received s c =
     (let inserted = (c \<notin> set (pre_ratchet_received s));
          s = s \<lparr>pre_ratchet_received := List.insert c (pre_ratchet_received s)\<rparr>
      in if inserted \<and> pre_ratchet_monotonic s
         then let s = s \<lparr>pre_ratchet_counter := max (pre_ratchet_counter s) c\<rparr>
              in if c > w_counter s then s \<lparr>tag_search_hint := Some (max (tag_search_center s) c)\<rparr> else s
         else s)"

definition authenticated_counter_epoch :: "Session \<Rightarrow> instant \<Rightarrow> u64 \<Rightarrow> bytes \<Rightarrow> bool option" where
  "authenticated_counter_epoch s now c secret =
     (if removed s then None
      else if tag_secret (s_keys s) = secret then (if counter_is_fresh s c then Some False else None)
      else case pre_ratchet_keys_in_grace s now of
        None \<Rightarrow> None
      | Some previous \<Rightarrow>
          (if tag_secret previous = secret \<and> contains_key c (pre_ratchet_tags s) \<and> c \<notin> set (pre_ratchet_received s)
           then Some True else None))"

definition observe_receiver_counter :: "Session \<Rightarrow> u64 \<Rightarrow> bool \<Rightarrow> Session result" where
  "observe_receiver_counter s c previous_epoch =
     (if is_ratcheted s \<and> (\<not> previous_epoch \<or> pre_ratchet_monotonic s)
      then bind (observe (receiver_loss s) c) (\<lambda>w. Inr (s \<lparr>receiver_loss := w\<rparr>))
      else Inr s)"

definition absorb_shared_replay :: "Session \<Rightarrow> u64 \<Rightarrow> u64 list \<Rightarrow> Session" where
  "absorb_shared_replay s hi ws =
     (case merge_replay_window (w_counter s) (w_bitmap s) hi ws of
        (newest, merged) \<Rightarrow> clear_consumed_tag_hint (s \<lparr>w_counter := newest, w_bitmap := merged\<rparr>))"

definition adopt_shared_replay :: "Session \<Rightarrow> u64 \<Rightarrow> u64 list \<Rightarrow> Session" where
  "adopt_shared_replay s hi ws = clear_consumed_tag_hint (s \<lparr>w_counter := hi, w_bitmap := ws\<rparr>)"

section \<open>Changing keys\<close>

definition preserve_replay_for_grace :: "Session \<Rightarrow> duration \<Rightarrow> instant \<Rightarrow> Session" where
  "preserve_replay_for_grace s grace now =
     s \<lparr>pre_ratchet_received := filter (\<lambda>c. \<not> counter_is_fresh s c) (map fst (expected_tags s)),
        pre_ratchet_counter := w_counter s,
        pre_ratchet_window_base := tag_window_base s,
        pre_ratchet_tags := expected_tags s,
        expected_tags := [],
        pre_ratchet_expire := Some (now + grace)\<rparr>"

definition complete_ratchet :: "Session \<Rightarrow> instant \<Rightarrow> Session" where
  "complete_ratchet s now =
     (case ratcheted_keys s of
        None \<Rightarrow> s
      | Some keys \<Rightarrow>
          (let s = s \<lparr>ratcheted_keys := None, pre_ratchet_monotonic := False, tag_search_hint := None,
                      receiver_loss := lw_reset (receiver_loss s), receiver_report_sent_at := None,
                      quality_report_received_at := None\<rparr>;
               s = preserve_replay_for_grace s (rekey_grace s) now
           in s \<lparr>pre_ratchet_keys := Some (s_keys s), s_keys := keys, w_counter := 0, send_counter := 0,
                 tag_window_base := 0, expected_tags := ratcheted_expected_tags s, ratcheted_expected_tags := [],
                 w_bitmap := ReplayWindow_default, is_ratcheted := True\<rparr>))"

text \<open>
  The per-session bodies of the session manager's sweeps and of the commit.  The key pair of
  a pending rekey is identified by its public key; \<open>compute_shared\<close> is X25519.
\<close>

definition start_rekey :: "primitives \<Rightarrow> Session \<Rightarrow> instant \<Rightarrow> u64 \<Rightarrow> bytes \<Rightarrow> bytes option \<times> Session" where
  "start_rekey P s now ms new_pub =
     (if \<not> is_ratcheted s then (None, s)
      else if pending_rekey_keypair s \<noteq> None then (None, s)
      else if \<not> (now - last_rekey_at s) div from_secs 1 \<ge> REKEY_INTERVAL_SECS \<and> \<not> bytes_since_rekey s \<ge> REKEY_BYTES_THRESHOLD
      then (None, s)
      else (Some new_pub,
            update_tag_window P (s \<lparr>pending_rekey_keypair := Some new_pub, pending_rekey_attempts := 1,
              last_keyrotate_sent_at := now\<rparr>) now ms))"

definition rekey_retransmit :: "Session \<Rightarrow> instant \<Rightarrow> bytes option \<times> Session" where
  "rekey_retransmit s now =
     (case pending_rekey_keypair s of
        None \<Rightarrow> (None, s)
      | Some pub \<Rightarrow>
          (if (now - last_keyrotate_sent_at s) div from_secs 1 < REKEY_RETRANSMIT_SECS then (None, s)
           else if pending_rekey_attempts s < MAX_REKEY_SEND_ATTEMPTS
           then (Some pub, s \<lparr>pending_rekey_attempts := pending_rekey_attempts s + 1, last_keyrotate_sent_at := now\<rparr>)
           else (None, s \<lparr>pending_rekey_keypair := None, pending_rekey_attempts := 0, last_rekey_at := now\<rparr>)))"

definition commit_session_rekey ::
    "primitives \<Rightarrow> (bytes \<Rightarrow> bytes \<Rightarrow> bytes result) \<Rightarrow> Session \<Rightarrow> instant \<Rightarrow> u64 \<Rightarrow> bytes \<Rightarrow> Session" where
  "commit_session_rekey P compute_shared s now ms client_pub =
     (case pending_rekey_keypair s of
        None \<Rightarrow> s
      | Some server_pub \<Rightarrow>
          (let s = s \<lparr>pending_rekey_keypair := None, pending_rekey_attempts := 0\<rparr> in
           case compute_shared server_pub client_pub of
             Inl _ \<Rightarrow> s
           | Inr dh \<Rightarrow>
               (let new_keys = derive_session_keys P dh (Some (session_key (s_keys s))) client_pub;
                    s = preserve_replay_for_grace s (inline_rekey_grace s) now
                in update_tag_window P (s \<lparr>pre_ratchet_monotonic := True, pre_ratchet_keys := Some (s_keys s),
                     s_keys := new_keys, bytes_since_rekey := 0, last_rekey_at := now,
                     ratcheted_expected_tags := []\<rparr>) now ms)))"

definition purge_grace :: "Session \<Rightarrow> instant \<Rightarrow> Session" where
  "purge_grace s now =
     (if (case pre_ratchet_expire s of Some expire \<Rightarrow> now \<ge> expire | None \<Rightarrow> False)
      then s \<lparr>pre_ratchet_tags := [], pre_ratchet_received := [], pre_ratchet_expire := None,
              pre_ratchet_keys := None, pre_ratchet_counter := 0, pre_ratchet_window_base := 0,
              pre_ratchet_monotonic := False\<rparr>
      else s)"

definition session_created :: "primitives \<Rightarrow> SessionKeys \<Rightarrow> SessionKeys \<Rightarrow> bytes \<Rightarrow> bytes \<Rightarrow> bool \<Rightarrow> instant \<Rightarrow> u64 \<Rightarrow> Session" where
  "session_created P initial ratcheted server_eph client_eph masked_peer now ms =
     update_ratcheted_tag_window P
       (update_tag_window P (Session_new initial client_eph now
          \<lparr>server_eph_pub := Some server_eph, ratcheted_keys := Some ratcheted, is_masked_pool_peer := masked_peer\<rparr>) now ms) ms"

section \<open>Claiming a packet\<close>

datatype ReplayGate = Deliver | Drop

text \<open>The kernel module's claim returns a code or an operating system error.\<close>

definition CLAIM_OK :: int where "CLAIM_OK = 0"

definition classify_claim :: "int \<Rightarrow> ReplayGate" where
  "classify_claim code = (if code = CLAIM_OK then Deliver else Drop)"

definition ENOENT :: int where "ENOENT = 2"

definition kernel_claim_deliver ::
    "(u32 \<Rightarrow> u64 \<Rightarrow> int + int) option \<Rightarrow> Session \<Rightarrow> u64 \<Rightarrow> bool \<Rightarrow> ReplayGate" where
  "kernel_claim_deliver ka s c previous_epoch =
     (if kernel_faulted s then Drop
      else if (if previous_epoch then c \<in> set (pre_ratchet_received s) else \<not> counter_is_fresh s c) then Drop
      else case ka of
        None \<Rightarrow> Deliver
      | Some replay_claim \<Rightarrow>
          (let epoch = (if previous_epoch then kernel_prev_epoch s else kernel_epoch s) in
           if epoch = 0 then Deliver
           else case replay_claim epoch c of
             Inr code \<Rightarrow> classify_claim code
           | Inl err \<Rightarrow> (if err = ENOENT \<and> kernel_epoch s = 0 then Deliver else Drop)))"

definition kernel_note_rejected :: "Session \<Rightarrow> u64 \<Rightarrow> bool \<Rightarrow> Session" where
  "kernel_note_rejected s c previous_epoch =
     (if previous_epoch then s \<lparr>pre_ratchet_received := List.insert c (pre_ratchet_received s)\<rparr>
      else if c > w_counter s then s
      else mark_tag_received s c)"

text \<open>
  What the gateway does with an authenticated packet when no kernel module is loaded: decide
  its epoch, claim it, mark it, count it, and move the tag windows when the counters have
  moved far enough.
\<close>

definition claim_packet :: "Session \<Rightarrow> instant \<Rightarrow> u64 \<Rightarrow> bytes \<Rightarrow> (bool \<times> Session) result" where
  "claim_packet s now c secret =
     (case authenticated_counter_epoch s now c secret of
        None \<Rightarrow> Inr (False, s)
      | Some previous_epoch \<Rightarrow>
          (case kernel_claim_deliver None s c previous_epoch of
             Drop \<Rightarrow> Inr (False, kernel_note_rejected s c previous_epoch)
           | Deliver \<Rightarrow>
               bind (observe_receiver_counter
                  (if previous_epoch then mark_pre_ratchet_received s c else mark_tag_received s c) c previous_epoch)
                 (\<lambda>s. Inr (True, s))))"

definition receive_packet ::
    "primitives \<Rightarrow> Session \<Rightarrow> instant \<Rightarrow> u64 \<Rightarrow> u64 \<Rightarrow> bytes \<Rightarrow> (bool \<times> Session) result" where
  "receive_packet P s now ms c secret =
     bind (claim_packet s now c secret) (\<lambda>(ok, s).
       if ok then Inr (True, snd (refresh_tag_window_if_needed P s now ms)) else Inr (False, s))"

section \<open>Initial key spaces\<close>

definition claim_initial_keyspace ::
    "primitives \<Rightarrow> (bytes, instant) hmap \<Rightarrow> SessionKeys \<Rightarrow> instant \<Rightarrow> unit result \<times> (bytes, instant) hmap" where
  "claim_initial_keyspace P replays keys now =
     (let fingerprint = blake3_derive P (ascii ''aivpn handshake replay tombstone v1'') (tag_secret keys);
          replays = retain (\<lambda>_ deadline. now < deadline) replays
      in if contains_key fingerprint replays then (Inl (InvalidPacket ''Replayed initial handshake''), replays)
         else if length replays \<ge> HANDSHAKE_REPLAY_CAPACITY
         then (Inl (SessionError ''Handshake replay cache full''), replays)
         else (Inr (), AList.update fingerprint (now + HANDSHAKE_REPLAY_TTL) replays))"

end
