(* ===== verification/Session_Replay.thy ===== *)
theory Session_Replay
  imports Session
begin

text \<open>
  What a session guarantees over any sequence of packets, ratchets, rekeys, sweeps and
  purges: every packet is accepted at most once, across all key epochs; no nonce is used
  twice with a key; a rekey that gets no answer ends.
\<close>

section \<open>Bands of tags\<close>






text \<open>
  A map of tags covers a window around its base when it holds every counter up to 511 on
  either side and nothing more than 511 behind.
\<close>

definition covers :: "tags \<Rightarrow> u64 \<Rightarrow> bool" where
  "covers ts base \<longleftrightarrow> (\<forall>c. unat base \<le> unat c + 511 \<and> unat c \<le> unat base + 511 \<longrightarrow> c \<in> hkeys ts) \<and>
     (\<forall>c\<in>hkeys ts. unat base \<le> unat c + 511)"


section \<open>The invariant\<close>




definition previous_ok :: "Session \<Rightarrow> (bytes \<times> u64) set \<Rightarrow> bytes set \<Rightarrow> bool" where
  "previous_ok s A U \<longleftrightarrow> (\<forall>k. pre_ratchet_keys s = Some k \<longrightarrow>
     tag_secret k \<noteq> tag_secret (s_keys s) \<and> tag_secret k \<in> U \<and>
     (\<forall>c. (tag_secret k, c) \<in> A \<longrightarrow>
        c \<in> set (pre_ratchet_received s) \<or> unat c + 511 < unat (pre_ratchet_window_base s)) \<and>
     (\<forall>c\<in>hkeys (pre_ratchet_tags s). unat (pre_ratchet_window_base s) \<le> unat c + 511))"

definition ratchet_ok :: "Session \<Rightarrow> (bytes \<times> u64) set \<Rightarrow> bytes set \<Rightarrow> bool" where
  "ratchet_ok s A U \<longleftrightarrow>
     (\<forall>k. ratcheted_keys s = Some k \<longrightarrow> tag_secret k \<in> U \<and> tag_secret k \<notin> fst ` A \<and>
        tag_secret k \<noteq> tag_secret (s_keys s) \<and> covers (ratcheted_expected_tags s) 0 \<and> pre_ratchet_keys s = None) \<and>
     (is_ratcheted s \<longrightarrow> ratcheted_keys s = None) \<and>
     (pending_rekey_keypair s \<noteq> None \<longrightarrow> is_ratcheted s)"




lemma fresh_cong:
  "w_counter s = w_counter t \<Longrightarrow> w_bitmap s = w_bitmap t \<Longrightarrow> counter_is_fresh s c = counter_is_fresh t c"
  by (simp add: counter_is_fresh_def)





section \<open>Packets\<close>


lemma window_mark_session [simp]:
  "s_keys (window_mark s c) = s_keys s" "expected_tags (window_mark s c) = expected_tags s"
  "tag_window_base (window_mark s c) = tag_window_base s" "receiver_loss (window_mark s c) = receiver_loss s"
  "previous_ok (window_mark s c) A U = previous_ok s A U" "ratchet_ok (window_mark s c) A U = ratchet_ok s A U"
  by (auto simp: window_mark_def Let_def previous_ok_def ratchet_ok_def)








section \<open>Key changes\<close>







section \<open>Runs of a session\<close>


datatype session_out = Accepted bytes u64 | Installed bytes | Quiet



definition accepted :: "session_out list \<Rightarrow> (bytes \<times> u64) list" where
  "accepted ys = concat (map (\<lambda>y. case y of Accepted secret c \<Rightarrow> [(secret, c)] | _ \<Rightarrow> []) ys)"

definition installed :: "session_out list \<Rightarrow> bytes list" where
  "installed ys = concat (map (\<lambda>y. case y of Installed secret \<Rightarrow> [secret] | _ \<Rightarrow> []) ys)"

lemma trace_simps [simp]:
  "accepted [] = []" "accepted (Accepted secret c # ys) = (secret, c) # accepted ys"
  "accepted (Installed secret # ys) = accepted ys" "accepted (Quiet # ys) = accepted ys"
  "installed [] = []" "installed (Accepted secret c # ys) = installed ys"
  "installed (Installed secret # ys) = secret # installed ys" "installed (Quiet # ys) = installed ys"
  by (simp_all add: accepted_def installed_def)

lemma update_tag_window_keys [simp]: "s_keys (update_tag_window P s now ms) = s_keys s"
  "receiver_loss (update_tag_window P s now ms) = receiver_loss s"
  by (simp_all add: update_tag_window_def Let_def slide_previous_def split: option.splits)









section \<open>Nonces\<close>















section \<open>An unanswered rekey ends\<close>

fun sweep_rekey :: "Session \<Rightarrow> instant list \<Rightarrow> bytes list \<times> Session" where
  "sweep_rekey s [] = ([], s)"
| "sweep_rekey s (t # ts) =
     (case rekey_retransmit s t of (r, s) \<Rightarrow>
      case sweep_rekey s ts of (rs, s) \<Rightarrow> (case r of Some p \<Rightarrow> p # rs | None \<Rightarrow> rs, s))"

lemma sweep_idle: "pending_rekey_keypair s = None \<Longrightarrow> sweep_rekey s ts = ([], s)"
  by (induction ts) (simp_all add: rekey_retransmit_def)

lemma sweep_bounded:
  assumes "pending_rekey_keypair s = Some pub" "unat (pending_rekey_attempts s) \<le> 5"
  shows "length (fst (sweep_rekey s ts)) + unat (pending_rekey_attempts s) \<le> 5 \<and> set (fst (sweep_rekey s ts)) \<subseteq> {pub}"
  using assms
proof (induction ts arbitrary: s)
  case (Cons t ts)
  consider (wait) "(t - last_keyrotate_sent_at s) div from_secs 1 < REKEY_RETRANSMIT_SECS"
    | (send) "\<not> (t - last_keyrotate_sent_at s) div from_secs 1 < REKEY_RETRANSMIT_SECS" "pending_rekey_attempts s < 5"
    | (clear) "\<not> (t - last_keyrotate_sent_at s) div from_secs 1 < REKEY_RETRANSMIT_SECS" "\<not> pending_rekey_attempts s < 5"
    by blast
  then show ?case
  proof cases
    case send
    define u where "u = s \<lparr>pending_rekey_attempts := pending_rekey_attempts s + 1, last_keyrotate_sent_at := t\<rparr>"
    have r: "rekey_retransmit s t = (Some pub, u)"
      using send Cons.prems(1) by (simp add: rekey_retransmit_def MAX_REKEY_SEND_ATTEMPTS_def u_def)
    have "unat (pending_rekey_attempts u) = Suc (unat (pending_rekey_attempts s))"
      using send(2) unat_add_one [of "pending_rekey_attempts s" 5] by (simp add: u_def word_less_nat_alt)
    then show ?thesis using Cons.IH [of u] send(2) Cons.prems(1) r
      by (auto simp: word_less_nat_alt u_def split: prod.splits)
  next
    case wait
    then show ?thesis using Cons.IH [OF Cons.prems] Cons.prems(1) by (simp add: rekey_retransmit_def split: prod.splits)
  next
    case clear
    then show ?thesis using Cons.prems sweep_idle
      by (simp add: rekey_retransmit_def MAX_REKEY_SEND_ATTEMPTS_def word_less_nat_alt split: prod.splits)
  qed
qed simp

fun apart :: "instant \<Rightarrow> instant list \<Rightarrow> bool" where
  "apart t [] = True"
| "apart t (u # us) \<longleftrightarrow> t + from_secs 3 \<le> u \<and> apart u us"

lemma sweep_ends:
  assumes "unat (pending_rekey_attempts s) \<le> 5" "apart (last_keyrotate_sent_at s) ts"
    "6 \<le> length ts + unat (pending_rekey_attempts s)"
  shows "pending_rekey_keypair (snd (sweep_rekey s ts)) = None"
  using assms
proof (induction ts arbitrary: s)
  case (Cons t ts)
  show ?case
  proof (cases "pending_rekey_keypair s")
    case None
    then show ?thesis using sweep_idle [OF None, of "t # ts"] by simp
  next
    case (Some pub)
    have "last_keyrotate_sent_at s + from_secs 3 \<le> t" using Cons.prems(2) by simp
    then have "from_secs 3 div from_secs 1 \<le> (t - last_keyrotate_sent_at s) div from_secs 1" by (intro div_le_mono) linarith
    then have d: "\<not> (t - last_keyrotate_sent_at s) div from_secs 1 < REKEY_RETRANSMIT_SECS"
      by (simp add: REKEY_RETRANSMIT_SECS_def)
    show ?thesis
    proof (cases "pending_rekey_attempts s < 5")
      case True
      define u where "u = s \<lparr>pending_rekey_attempts := pending_rekey_attempts s + 1, last_keyrotate_sent_at := t\<rparr>"
      have r: "rekey_retransmit s t = (Some pub, u)"
        using True d Some by (simp add: rekey_retransmit_def MAX_REKEY_SEND_ATTEMPTS_def u_def)
      have "unat (pending_rekey_attempts u) = Suc (unat (pending_rekey_attempts s))"
        using True unat_add_one [of "pending_rekey_attempts s" 5] by (simp add: u_def word_less_nat_alt)
      then show ?thesis using Cons.IH [of u] True Cons.prems r
        by (auto simp: word_less_nat_alt u_def split: prod.splits)
    next
      case False
      then show ?thesis using d Some sweep_idle
        by (simp add: rekey_retransmit_def MAX_REKEY_SEND_ATTEMPTS_def split: prod.splits)
    qed
  qed
qed simp

text \<open>
  C30: A rekey that gets no answer ends: its key is announced at most five times in all, the
  four repetitions with the same key, and after five sweeps three seconds apart nothing is
  pending, so a new rekey can start.
\<close>

theorem unanswered_rekey_ends:
  assumes "start_rekey P s now ms pub = (Some pub', s')"
  shows "length (fst (sweep_rekey s' ts)) \<le> 4 \<and> set (fst (sweep_rekey s' ts)) \<subseteq> {pub} \<and>
    (apart now ts \<and> 5 \<le> length ts \<longrightarrow> pending_rekey_keypair (snd (sweep_rekey s' ts)) = None)"
proof -
  have f: "pending_rekey_keypair s' = Some pub" "pending_rekey_attempts s' = 1" "last_keyrotate_sent_at s' = now"
    using assms by (auto simp: start_rekey_def update_tag_window_def slide_previous_def Let_def split: if_splits option.splits)
  then show ?thesis using sweep_bounded [of s' pub ts] sweep_ends [of s' ts] by simp
qed

theorem unanswered_rekey_ends_witness:
  "\<exists>s'. start_rekey plain_suite (Session_new (derive_session_keys plain_suite [] None []) [] 0 \<lparr>is_ratcheted := True\<rparr>)
       (from_secs 200) 0 [9] = (Some [9], s') \<and>
     pending_rekey_keypair (snd (sweep_rekey s'
       [from_secs 203, from_secs 206, from_secs 209, from_secs 212, from_secs 215])) = None"
proof -
  have "\<exists>s'. start_rekey plain_suite (Session_new (derive_session_keys plain_suite [] None []) [] 0 \<lparr>is_ratcheted := True\<rparr>)
       (from_secs 200) 0 [9] = (Some [9], s')"
    by (simp add: start_rekey_def Session_new_def REKEY_INTERVAL_SECS_def)
  then obtain s' where s: "start_rekey plain_suite
      (Session_new (derive_session_keys plain_suite [] None []) [] 0 \<lparr>is_ratcheted := True\<rparr>) (from_secs 200) 0 [9] = (Some [9], s')"
    by blast
  from unanswered_rekey_ends [OF s, of "[from_secs 203, from_secs 206, from_secs 209, from_secs 212, from_secs 215]"] s
  show ?thesis by simp
qed

section \<open>A handshake is accepted once\<close>

fun keyspaces ::
    "primitives \<Rightarrow> (bytes, instant) hmap \<Rightarrow> (SessionKeys \<times> instant) list \<Rightarrow> (SessionKeys \<times> instant) list \<times> (bytes, instant) hmap" where
  "keyspaces P m [] = ([], m)"
| "keyspaces P m ((k, now) # reqs) =
     (case claim_initial_keyspace P m k now of (r, m) \<Rightarrow>
      case keyspaces P m reqs of (gs, m) \<Rightarrow> (if r = Inr () then (k, now) # gs else gs, m))"

lemma claim_table:
  assumes "wf_hmap m" "length m \<le> HANDSHAKE_REPLAY_CAPACITY" "claim_initial_keyspace P m k now = (r, m')"
  shows "wf_hmap m' \<and> length m' \<le> HANDSHAKE_REPLAY_CAPACITY"
  using assms length_retain [of "\<lambda>_ d. now < d" m]
  by (auto simp: claim_initial_keyspace_def Let_def length_update contains_key_iff [symmetric] split: if_splits)

lemma keyspaces_subset: "set (fst (keyspaces P m reqs)) \<subseteq> set reqs"
proof (induction reqs arbitrary: m)
  case (Cons q reqs)
  obtain k now where q: "q = (k, now)" by (cases q)
  obtain r m' where c: "claim_initial_keyspace P m k now = (r, m')" by (cases "claim_initial_keyspace P m k now")
  show ?case using Cons.IH [of m'] by (cases "keyspaces P m' reqs") (auto simp: q c)
qed simp

lemma keyspaces_after:
  assumes "wf_hmap m" "length m \<le> HANDSHAKE_REPLAY_CAPACITY" "sorted (map snd reqs)"
    "map_of m (blake3_derive P (ascii ''aivpn handshake replay tombstone v1'') secret) = Some d"
    "(k, u) \<in> set (fst (keyspaces P m reqs))" "tag_secret k = secret"
  shows "d \<le> u"
  using assms
proof (induction reqs arbitrary: m)
  case (Cons q reqs)
  obtain k' now where q: "q = (k', now)" by (cases q)
  obtain r m' where c: "claim_initial_keyspace P m k' now = (r, m')" by (cases "claim_initial_keyspace P m k' now")
  note t = claim_table [OF Cons.prems(1,2) c]
  note sub = keyspaces_subset [of P m' reqs]
  show ?case
  proof (cases "d \<le> now")
    case True
    have "(k, u) \<in> set ((k', now) # reqs)"
      using Cons.prems(5) sub by (auto simp: q c split: prod.splits if_splits)
    then have "now \<le> u" using Cons.prems(3) by (auto simp: q)
    then show ?thesis using True by simp
  next
    case False
    then have r: "map_of (retain (\<lambda>_ d. now < d) m) (blake3_derive P (ascii ''aivpn handshake replay tombstone v1'') secret) = Some d"
      using Cons.prems(1,4) by (simp add: map_of_retain)
    have m': "map_of m' (blake3_derive P (ascii ''aivpn handshake replay tombstone v1'') secret) = Some d"
      using c r map_of_Some_keys [OF r] by (auto simp: claim_initial_keyspace_def Let_def update_conv' split: if_splits)
    have "tag_secret k' = secret \<Longrightarrow> r \<noteq> Inr ()"
      using c map_of_Some_keys [OF r] by (auto simp: claim_initial_keyspace_def Let_def split: if_splits)
    then have "(k, u) \<in> set (fst (keyspaces P m' reqs))"
      using Cons.prems(5,6) by (auto simp: q c split: prod.splits if_splits)
    from Cons.IH [OF _ _ _ m' this Cons.prems(6)] t Cons.prems(3) show ?thesis by simp
  qed
qed simp

text \<open>
  C31: With time stamps in order, the server opens the same initial key space at most once
  per sixty seconds, whatever handshakes are replayed, and remembers at most 8192 of them.
\<close>

theorem handshake_accepted_once:
  assumes "sorted (map snd reqs)"
  shows "sorted_wrt (\<lambda>(k, t) (k', u). tag_secret k = tag_secret k' \<longrightarrow> t + from_secs 60 \<le> u) (fst (keyspaces P [] reqs)) \<and>
    length (snd (keyspaces P [] reqs)) \<le> 8192"
proof -
  have ttl: "HANDSHAKE_REPLAY_TTL = from_secs 60" by (simp add: HANDSHAKE_REPLAY_TTL_def DEFAULT_WINDOW_MS_def)
  have "wf_hmap m \<Longrightarrow> length m \<le> HANDSHAKE_REPLAY_CAPACITY \<Longrightarrow> sorted (map snd reqs) \<Longrightarrow>
      sorted_wrt (\<lambda>(k, t) (k', u). tag_secret k = tag_secret k' \<longrightarrow> t + from_secs 60 \<le> u) (fst (keyspaces P m reqs)) \<and>
      length (snd (keyspaces P m reqs)) \<le> HANDSHAKE_REPLAY_CAPACITY" for m
  proof (induction reqs arbitrary: m)
    case (Cons q reqs)
    obtain k now where q: "q = (k, now)" by (cases q)
    obtain r m' where c: "claim_initial_keyspace P m k now = (r, m')" by (cases "claim_initial_keyspace P m k now")
    note t = claim_table [OF Cons.prems(1,2) c]
    have s: "sorted (map snd reqs)" using Cons.prems(3) by simp
    have "r = Inr () \<Longrightarrow> map_of m' (blake3_derive P (ascii ''aivpn handshake replay tombstone v1'') (tag_secret k)) = Some (now + from_secs 60)"
      using c by (auto simp: claim_initial_keyspace_def Let_def update_conv' ttl split: if_splits)
    then have "r = Inr () \<Longrightarrow> (k', u) \<in> set (fst (keyspaces P m' reqs)) \<Longrightarrow> tag_secret k = tag_secret k' \<Longrightarrow> now + from_secs 60 \<le> u" for k' u
      using keyspaces_after [OF conjunct1 [OF t] conjunct2 [OF t] s] by metis
    then show ?case using Cons.IH [OF conjunct1 [OF t] conjunct2 [OF t] s]
      by (cases "keyspaces P m' reqs") (auto simp: q c)
  qed simp
  from this [of "[]"] assms show ?thesis by (simp add: HANDSHAKE_REPLAY_CAPACITY_def)
qed

theorem handshake_accepted_once_witness:
  "sorted_wrt (\<lambda>(k, t) (k', u). tag_secret k = tag_secret k' \<longrightarrow> t + from_secs 60 \<le> u)
     (fst (keyspaces plain_suite [] [(derive_session_keys plain_suite [] None [], 5), (derive_session_keys plain_suite [] None [], 7)]))"
  using handshake_accepted_once [of "[(derive_session_keys plain_suite [] None [], 5), (derive_session_keys plain_suite [] None [], 7)]"
      plain_suite] by simp

end
