(* ===== verification/Client_Model.thy ===== *)
theory Client_Model
  imports Network_Config "HOL-Library.List_Lexorder"
begin

text \<open>
  The records of the client database: \<open>aivpn-server/src/client_db/model.rs\<close> and the database
  file of \<open>client_db/mod.rs\<close>.  A \<open>DateTime<Utc>\<close> is an integer number of nanoseconds since the
  Unix epoch, an \<open>Ipv4Addr\<close> its 32-bit value.
\<close>

section \<open>Records\<close>

type_synonym datetime = int

datatype ClientRole = User | Viewer | Admin

fun rank :: "ClientRole \<Rightarrow> u8" where
  "rank User = 0"
| "rank Viewer = 1"
| "rank Admin = 2"

definition at_least :: "ClientRole \<Rightarrow> ClientRole \<Rightarrow> bool" where
  "at_least self req \<longleftrightarrow> rank self \<ge> rank req"

definition role_as_u8 :: "ClientRole \<Rightarrow> u8" where
  "role_as_u8 r = rank r"

record ClientQos =
  bandwidth_limit_up :: "u64 option"
  bandwidth_limit_down :: "u64 option"
  dscp_class :: "u8 option"
  qos_priority :: "u8 option"

record ClientStats =
  bytes_in :: u64
  bytes_out :: u64
  last_connected :: "datetime option"
  total_connections :: u64
  last_handshake :: "datetime option"

definition ClientStats_default :: ClientStats where
  "ClientStats_default = \<lparr>bytes_in = 0, bytes_out = 0, last_connected = None, total_connections = 0, last_handshake = None\<rparr>"

record ClientConfig =
  cc_id :: rstring
  cc_name :: rstring
  cc_psk :: bytes
  cc_vpn_ip :: u32
  cc_enabled :: bool
  cc_created_at :: datetime
  cc_stats :: ClientStats
  cc_qos :: "ClientQos option"
  cc_device_pubkey :: "bytes option"
  cc_one_time :: bool
  cc_expires_at :: "datetime option"
  cc_updated_at :: "datetime option"
  cc_deleted :: bool
  cc_role :: ClientRole
  cc_exit_node :: "rstring option"

record ClientDbFile =
  db_clients :: "ClientConfig list"
  db_next_host_offset :: u32

definition default_next_host_offset :: u32 where "default_next_host_offset = 2"

definition ClientDbFile_default :: ClientDbFile where
  "ClientDbFile_default = \<lparr>db_clients = [], db_next_host_offset = default_next_host_offset\<rparr>"

text \<open>Numbers and names inside error messages.\<close>

fun show_nat :: "nat \<Rightarrow> string" where
  "show_nat n = (if n < 10 then [char_of (48 + n)] else show_nat (n div 10) @ [char_of (48 + n mod 10)])"

definition display :: "rstring \<Rightarrow> string" where
  "display s = map (\<lambda>b. char_of (unat b)) s"

section \<open>Exit node addresses\<close>

text \<open>\<open>str::rsplit_once\<close> splits at the last occurrence; \<open>u16::from_str\<close> takes an optional plus sign.\<close>

definition rsplit_once :: "u8 \<Rightarrow> rstring \<Rightarrow> (rstring \<times> rstring) option" where
  "rsplit_once c s = map_option (\<lambda>(a, b). (rev b, rev a)) (split_once c (rev s))"

fun parse_dec_u16 :: "nat \<Rightarrow> bytes \<Rightarrow> nat option" where
  "parse_dec_u16 acc [] = Some acc"
| "parse_dec_u16 acc (c # cs) =
     (case to_digit 10 c of
        None \<Rightarrow> None
      | Some d \<Rightarrow> if acc * 10 + d \<ge> 65536 then None else parse_dec_u16 (acc * 10 + d) cs)"

definition parse_u16 :: "rstring \<Rightarrow> u16 option" where
  "parse_u16 s =
     (let t = (case s of [] \<Rightarrow> [] | c # cs \<Rightarrow> if c = 43 then cs else s)
      in if t = [] then None else map_option of_nat (parse_dec_u16 0 t))"

definition validate_exit_node_addr :: "rstring \<Rightarrow> unit result" where
  "validate_exit_node_addr addr =
     (case rsplit_once 58 addr of
        None \<Rightarrow> Inl (SessionError ''exit_node must be in host:port format'')
      | Some (host, port) \<Rightarrow>
          (if host = [] then Inl (SessionError ''exit_node host must not be empty'')
           else case parse_u16 port of
             None \<Rightarrow> Inl (SessionError ''exit_node port must be a valid number (0-65535)'')
           | Some _ \<Rightarrow> Inr ()))"

section \<open>Lookups\<close>

text \<open>
  \<open>iter_mut().find(P)\<close> followed by an assignment changes the first record that satisfies \<open>P\<close>.
\<close>

fun update_first :: "('a \<Rightarrow> bool) \<Rightarrow> ('a \<Rightarrow> 'a) \<Rightarrow> 'a list \<Rightarrow> 'a list" where
  "update_first P f [] = []"
| "update_first P f (x # xs) = (if P x then f x # xs else x # update_first P f xs)"

definition find_by_name :: "ClientDbFile \<Rightarrow> rstring \<Rightarrow> ClientConfig option" where
  "find_by_name data name = find (\<lambda>c. cc_name c = name \<and> \<not> cc_deleted c) (db_clients data)"

definition find_by_id :: "ClientDbFile \<Rightarrow> rstring \<Rightarrow> ClientConfig option" where
  "find_by_id data i = find (\<lambda>c. cc_id c = i \<and> \<not> cc_deleted c) (db_clients data)"

definition find_by_vpn_ip :: "ClientDbFile \<Rightarrow> u32 \<Rightarrow> ClientConfig option" where
  "find_by_vpn_ip data ip = find (\<lambda>c. cc_vpn_ip c = ip \<and> \<not> cc_deleted c) (db_clients data)"

definition find_by_psk :: "ClientDbFile \<Rightarrow> bytes \<Rightarrow> datetime \<Rightarrow> ClientConfig option" where
  "find_by_psk data psk now =
     find (\<lambda>c. \<not> cc_deleted c \<and> cc_enabled c \<and>
              \<not> (case cc_expires_at c of Some t \<Rightarrow> t \<le> now | None \<Rightarrow> False) \<and> cc_psk c = psk) (db_clients data)"

definition list_clients :: "ClientDbFile \<Rightarrow> ClientConfig list" where
  "list_clients data = filter (\<lambda>c. \<not> cc_deleted c) (db_clients data)"

definition list_clients_including_deleted :: "ClientDbFile \<Rightarrow> ClientConfig list" where
  "list_clients_including_deleted data = db_clients data"

lemma map_update_first:
  "(\<And>x. P x \<Longrightarrow> g (f x) = g x) \<Longrightarrow> map g (update_first P f xs) = map g xs"
  by (induction xs) auto

lemma length_update_first [simp]: "length (update_first P f xs) = length xs"
  by (induction xs) auto

lemma set_update_first: "set (update_first P f xs) \<subseteq> set xs \<union> f ` {x \<in> set xs. P x}"
  by (induction xs) auto

lemma find_split:
  "find P xs = Some x \<Longrightarrow> \<exists>us vs. xs = us @ x # vs \<and> P x \<and> (\<forall>u\<in>set us. \<not> P u)"
proof (induction xs)
  case (Cons y ys)
  show ?case
  proof (cases "P y")
    case True
    then have "y # ys = [] @ x # ys \<and> P x" using Cons.prems by simp
    then show ?thesis by fastforce
  next
    case False
    then obtain us vs where "ys = us @ x # vs" "P x" "\<forall>u\<in>set us. \<not> P u" using Cons by auto
    then have "y # ys = (y # us) @ x # vs \<and> P x \<and> (\<forall>u\<in>set (y # us). \<not> P u)" using False by simp
    then show ?thesis by blast
  qed
qed simp

lemma update_first_split:
  "\<forall>u\<in>set us. \<not> P u \<Longrightarrow> P x \<Longrightarrow> update_first P f (us @ x # vs) = us @ f x # vs"
  by (induction us) auto

lemma find_None_update: "find P xs = None \<Longrightarrow> update_first P f xs = xs"
  by (induction xs) (auto split: if_splits)

text \<open>An accepted exit node has a host and a port, separated by the last colon.\<close>

lemma rsplit_once_append:
  "c \<notin> set port \<Longrightarrow> rsplit_once c (host @ c # port) = Some (host, port)"
  by (simp add: rsplit_once_def split_once_def takeWhile_append dropWhile_append)


declare show_nat.simps [simp del]

end
