(* ===== verification/Client_Alloc.thy ===== *)
theory Client_Alloc
  imports Client_Model
begin

text \<open>
  Allocation of client addresses: \<open>aivpn-server/src/client_db/ip_allocation.rs\<close> and the
  partition check of \<open>pool_partition.rs\<close>.  A node of a pool hands out only the host offsets of
  its own part of the subnet.  Offsets are 32-bit words with the source's arithmetic.
\<close>

unbundle bit_operations_syntax

section \<open>Partitions\<close>

record PartitionBounds =
  start_offset :: u32
  end_offset :: u32
  part_index :: u32
  part_count :: u32
  part_explicit :: bool


definition TARGET_NUM_PARTITIONS :: u32 where "TARGET_NUM_PARTITIONS = 8"
definition MIN_PARTITION_SIZE :: u32 where "MIN_PARTITION_SIZE = 8"
definition MAX_PARTITION_SIZE :: u32 where "MAX_PARTITION_SIZE = 254"

fun fnv1a_loop :: "u64 \<Rightarrow> bytes \<Rightarrow> u64" where
  "fnv1a_loop hash [] = hash"
| "fnv1a_loop hash (b # bs) = fnv1a_loop ((hash XOR ucast b) * 0x100000001b3) bs"

definition fnv1a_hash :: "bytes \<Rightarrow> u64" where
  "fnv1a_hash bs = fnv1a_loop 0xcbf29ce484222325 bs"

definition default_num_partitions :: "VpnNetworkConfig \<Rightarrow> u32" where
  "default_num_partitions net =
     (let max_offset = max_host_offset net in
      if max_offset < 2 then 1
      else let partition_size = min (max (max_offset div TARGET_NUM_PARTITIONS) MIN_PARTITION_SIZE) MAX_PARTITION_SIZE
           in max (max_offset div partition_size) 1)"

definition saturating_mul :: "u32 \<Rightarrow> u32 \<Rightarrow> u32" where
  "saturating_mul a b = (if unat a * unat b < 2 ^ 32 then a * b else - 1)"

definition compute_partition_bounds :: "u32 \<Rightarrow> u32 \<Rightarrow> u32 \<Rightarrow> bool \<Rightarrow> PartitionBounds" where
  "compute_partition_bounds max_offset num_partitions index explicit =
     (let partition_size = max (max_offset div num_partitions) 1;
          start = min (1 + saturating_mul index partition_size) max_offset;
          final = (if index + 1 \<ge> num_partitions then max_offset + 1
                   else min (start + partition_size) (max_offset + 1))
      in \<lparr>start_offset = start, end_offset = final, part_index = index, part_count = num_partitions,
          part_explicit = explicit\<rparr>)"

definition apply_partition ::
    "VpnNetworkConfig \<Rightarrow> PartitionBounds option \<Rightarrow> u32 \<Rightarrow> u32 \<Rightarrow> bool \<Rightarrow> PartitionBounds option" where
  "apply_partition net part index num_partitions explicit =
     (let max_offset = max_host_offset net in
      if max_offset < 2 \<or> num_partitions \<le> 1 then part
      else let num_partitions = (if num_partitions > max_offset then max_offset else num_partitions);
               index = index mod num_partitions
           in Some (compute_partition_bounds max_offset num_partitions index explicit))"


definition set_node_partition_explicit ::
    "VpnNetworkConfig \<Rightarrow> PartitionBounds option \<Rightarrow> u32 \<Rightarrow> u32 option \<Rightarrow> PartitionBounds option" where
  "set_node_partition_explicit net part index num =
     (let num_partitions = (case num of Some n \<Rightarrow> n | None \<Rightarrow> default_num_partitions net) in
      if num_partitions \<le> 1 then part
      else apply_partition net part (index mod num_partitions) num_partitions True)"







section \<open>Allocation\<close>

definition offset_range :: "VpnNetworkConfig \<Rightarrow> PartitionBounds option \<Rightarrow> u32 \<times> u32" where
  "offset_range net part =
     (case part of Some p \<Rightarrow> (start_offset p, end_offset p) | None \<Rightarrow> (1, max_host_offset net + 1))"

definition already_used :: "ClientConfig list \<Rightarrow> u32 \<Rightarrow> bool" where
  "already_used clients ip = list_ex (\<lambda>c. cc_vpn_ip c = ip \<and> \<not> cc_deleted c) clients"

definition next_offset :: "u32 \<Rightarrow> u32 \<Rightarrow> u32 \<Rightarrow> u32" where
  "next_offset range_start range_end off = (if off + 1 \<ge> range_end then range_start else off + 1)"

text \<open>The loop over candidate offsets; it returns the offset it stopped at and its address.\<close>

fun probe :: "VpnNetworkConfig \<Rightarrow> ClientConfig list \<Rightarrow> u32 \<Rightarrow> u32 \<Rightarrow> nat \<Rightarrow> u32 \<Rightarrow> (u32 \<times> u32) option" where
  "probe net clients range_start range_end 0 off = None"
| "probe net clients range_start range_end (Suc n) off =
     (case ip_for_host_offset net off of
        Some ip \<Rightarrow>
          (if ip \<noteq> vnc_server_vpn_ip net \<and> \<not> already_used clients ip then Some (off, ip)
           else probe net clients range_start range_end n (next_offset range_start range_end off))
      | None \<Rightarrow> probe net clients range_start range_end n (next_offset range_start range_end off))"

definition allocate_vpn_ip ::
    "VpnNetworkConfig \<Rightarrow> PartitionBounds option \<Rightarrow> ClientDbFile \<Rightarrow> u32 result \<times> ClientDbFile" where
  "allocate_vpn_ip net part data =
     (if max_host_offset net < 1
      then (Inl (SessionError ''Configured VPN subnet has no usable host addresses''), data)
      else let (range_start, range_end) = offset_range net part in
        if range_start \<ge> range_end
        then (Inl (SessionError ''node IP partition exhausted; increase subnet size or partition capacity''), data)
        else let range_len = range_end - range_start;
                 candidate = (if db_next_host_offset data = 0 \<or>
                     \<not> (range_start \<le> db_next_host_offset data \<and> db_next_host_offset data < range_end)
                   then range_start else db_next_host_offset data)
             in case probe net (db_clients data) range_start range_end (unat range_len) candidate of
                  Some (off, ip) \<Rightarrow> (Inr ip, data \<lparr>db_next_host_offset := next_offset range_start range_end off\<rparr>)
                | None \<Rightarrow>
                    (Inl (SessionError (if part \<noteq> None
                       then ''node IP partition exhausted (offsets '' @ show_nat (unat range_start) @ ''..'' @ show_nat (unat (range_end - 1)) @
                            '' of subnet); increase subnet size or partition capacity''
                       else ''No more VPN IPs available in configured subnet'')), data))"

definition deterministic_reassign_offset ::
    "VpnNetworkConfig \<Rightarrow> PartitionBounds option \<Rightarrow> rstring \<Rightarrow> ClientConfig list \<Rightarrow> u32 option" where
  "deterministic_reassign_offset net part client_id clients =
     (if max_host_offset net < 1 then None
      else let (range_start, range_end) = offset_range net part in
        if range_start \<ge> range_end then None
        else let range_len = range_end - range_start;
                 off = range_start + ucast (fnv1a_hash client_id mod ucast range_len)
             in map_option snd (probe net clients range_start range_end (unat range_len) off))"
section \<open>Partitions divide the subnet\<close>

lemma max_host_offset_less: "unat (max_host_offset net) < 2 ^ 32 - 1"
proof (cases "NOT (mask_u32 net) = 0")
  case False
  have "unat (NOT (mask_u32 net)) < 2 ^ 32" using unsigned_less [of "NOT (mask_u32 net)"] by simp
  moreover have "unat (NOT (mask_u32 net)) \<noteq> 0" using False by (simp add: unat_eq_0)
  ultimately show ?thesis using False by (simp add: max_host_offset_def unat_minus_one)
qed (simp add: max_host_offset_def)

lemma unat_Suc_offset: "unat m < 2 ^ 32 - 1 \<Longrightarrow> unat (m + 1 :: u32) = Suc (unat m)"
  using unat_add_one [of m "- 1"] by (simp add: unsigned_minus_1_eq_mask mask_eq_exp_minus_1)

definition slice_start :: "nat \<Rightarrow> nat \<Rightarrow> nat \<Rightarrow> nat" where
  "slice_start m n i = 1 + i * (m div n)"

definition slice_end :: "nat \<Rightarrow> nat \<Rightarrow> nat \<Rightarrow> nat" where
  "slice_end m n i = (if Suc i \<ge> n then Suc m else 1 + Suc i * (m div n))"

lemma slice_bounds:
  assumes "1 \<le> n" "n \<le> m" "i < n"
  shows "1 \<le> slice_start m n i" "slice_start m n i < slice_end m n i" "slice_end m n i \<le> Suc m" "i * (m div n) < m"
proof -
  have q: "1 \<le> m div n" using assms by (simp add: Suc_le_eq div_greater_zero_iff)
  have "Suc i * (m div n) \<le> n * (m div n)" using assms(3) by (intro mult_le_mono1) simp
  also have "\<dots> \<le> m" by simp
  finally have s: "Suc i * (m div n) \<le> m" .
  show "1 \<le> slice_start m n i" by (simp add: slice_start_def)
  show "i * (m div n) < m" using s q by simp
  then show "slice_start m n i < slice_end m n i" using q by (simp add: slice_start_def slice_end_def)
  show "slice_end m n i \<le> Suc m" using s by (simp add: slice_end_def)
qed

lemma compute_partition_bounds_nat:
  assumes "1 \<le> unat n" "unat n \<le> unat m" "unat i < unat n" "unat m < 2 ^ 32 - 1"
  shows "unat (start_offset (compute_partition_bounds m n i e)) = slice_start (unat m) (unat n) (unat i)"
    "unat (end_offset (compute_partition_bounds m n i e)) = slice_end (unat m) (unat n) (unat i)"
proof -
  define q where "q = m div n"
  have q: "unat q = unat m div unat n" by (simp add: q_def unat_div)
  have "1 \<le> unat m div unat n" using assms by (simp add: Suc_le_eq div_greater_zero_iff)
  then have "1 \<le> q" using q by (simp add: word_le_nat_alt)
  then have size: "max q 1 = q" by (rule max_absorb1)
  note b = slice_bounds [OF assms(1-3)]
  have iq: "unat i * unat q < unat m" using b(4) by (simp add: q)
  then have mul: "saturating_mul i q = i * q" and umul: "unat (i * q) = unat i * unat q"
    using assms(4) by (simp_all add: saturating_mul_def unat_mult_lem [THEN iffD1])
  have start: "unat (1 + i * q) = slice_start (unat m) (unat n) (unat i)"
    using iq assms(4) umul by (simp add: slice_start_def q unat_word_ariths)
  have "1 + i * q \<le> m" using b(4) start by (simp add: word_le_nat_alt slice_start_def)
  then have s: "min (1 + i * q) m = 1 + i * q" by simp
  show "unat (start_offset (compute_partition_bounds m n i e)) = slice_start (unat m) (unat n) (unat i)"
    using start s by (simp add: compute_partition_bounds_def Let_def size [unfolded q_def] mul [unfolded q_def] q_def)
  have i1: "unat (i + 1) = Suc (unat i)" using assms by (intro unat_Suc_offset) linarith
  have m1: "unat (m + 1) = Suc (unat m)" using assms(4) by (rule unat_Suc_offset)
  have "unat (end_offset (compute_partition_bounds m n i e)) =
      (if Suc (unat i) \<ge> unat n then Suc (unat m) else unat (min (1 + i * q + q) (m + 1)))"
    using i1 m1 s
    by (simp add: compute_partition_bounds_def Let_def size [unfolded q_def] mul [unfolded q_def] q_def word_le_nat_alt)
  moreover have "unat (min (1 + i * q + q) (m + 1)) = slice_end (unat m) (unat n) (unat i)" if "Suc (unat i) < unat n"
  proof -
    have "slice_end (unat m) (unat n) (unat i) = slice_start (unat m) (unat n) (unat i) + unat q"
      using that by (simp add: slice_end_def slice_start_def q)
    moreover have "unat (1 + i * q + q) = slice_start (unat m) (unat n) (unat i) + unat q"
      using calculation b(3) assms(4) start by (simp add: unat_add_lem [THEN iffD1])
    ultimately show ?thesis using b(3) m1 by (simp add: min_def word_le_nat_alt)
  qed
  ultimately show "unat (end_offset (compute_partition_bounds m n i e)) = slice_end (unat m) (unat n) (unat i)"
    by (simp add: slice_end_def)
qed

lemma slices_cover:
  assumes "1 \<le> n" "n \<le> m" "1 \<le> x" "x \<le> m"
  shows "\<exists>!i. i < n \<and> slice_start m n i \<le> x \<and> x < slice_end m n i"
proof -
  let ?q = "m div n"
  define i where "i = min ((x - 1) div ?q) (n - 1)"
  have q: "0 < ?q" using assms by (simp add: div_greater_zero_iff)
  have "i * ?q \<le> (x - 1) div ?q * ?q" by (intro mult_le_mono1) (simp add: i_def)
  then have lo: "i * ?q \<le> x - 1" using le_trans [OF _ div_times_less_eq_dividend [of "x - 1" ?q]] by blast
  have hi: "x - 1 < Suc i * ?q" if "Suc i < n"
  proof -
    have "i = (x - 1) div ?q" using that by (simp add: i_def min_def split: if_splits)
    then show ?thesis using q by (metis dividend_less_div_times mult.commute mult_Suc_right add.commute)
  qed
  have "i < n" using assms(1) by (simp add: i_def min_less_iff_disj)
  moreover have "slice_start m n i \<le> x" using lo assms(3) unfolding slice_start_def by linarith
  moreover have "x < slice_end m n i"
  proof (cases "Suc i < n")
    case True
    from hi [OF this] have "x < 1 + Suc i * ?q" by linarith
    then show ?thesis using True by (simp add: slice_end_def)
  qed (use assms(4) in \<open>simp add: slice_end_def\<close>)
  ultimately have ex: "i < n \<and> slice_start m n i \<le> x \<and> x < slice_end m n i" by blast
  moreover have "j = i" if "j < n \<and> slice_start m n j \<le> x \<and> x < slice_end m n j" for j
  proof (rule ccontr)
    assume "j \<noteq> i"
    have sep: "a < b \<Longrightarrow> b < n \<Longrightarrow> slice_end m n a \<le> slice_start m n b" for a b
      using mult_le_mono1 [of "Suc a" b ?q] by (simp add: slice_end_def slice_start_def)
    consider "j < i" | "i < j" using \<open>j \<noteq> i\<close> by linarith
    then show False
      using sep [of j i] sep [of i j] that ex by cases linarith+
  qed
  ultimately show ?thesis by blast
qed

definition partition_ok :: "VpnNetworkConfig \<Rightarrow> PartitionBounds option \<Rightarrow> bool" where
  "partition_ok net part \<longleftrightarrow>
     (case part of
        None \<Rightarrow> True
      | Some p \<Rightarrow> 1 \<le> start_offset p \<and> start_offset p < end_offset p \<and> end_offset p \<le> max_host_offset net + 1)"

lemma unat_Suc_max: "unat (max_host_offset net + 1) = Suc (unat (max_host_offset net))"
  by (rule unat_Suc_offset [OF max_host_offset_less])




section \<open>Probing\<close>

definition free_offset :: "VpnNetworkConfig \<Rightarrow> ClientConfig list \<Rightarrow> u32 \<Rightarrow> bool" where
  "free_offset net clients off \<longleftrightarrow>
     (\<exists>ip. ip_for_host_offset net off = Some ip \<and> ip \<noteq> vnc_server_vpn_ip net \<and> \<not> already_used clients ip)"

lemma probe_step:
  "probe net clients s e (Suc n) off =
     (if free_offset net clients off then Some (off, the (ip_for_host_offset net off))
      else probe net clients s e n (next_offset s e off))"
  by (auto simp: free_offset_def split: option.splits)

lemma unat_next_offset:
  assumes "s \<le> off" "off < e"
  shows "unat (next_offset s e off) = unat s + (unat off - unat s + 1) mod (unat e - unat s)"
proof -
  have b: "unat s \<le> unat off" "unat off < unat e" using assms by (simp_all add: word_le_nat_alt word_less_nat_alt)
  have u: "unat (off + 1) = Suc (unat off)" using unat_add_one [of off e] b(2) by simp
  show ?thesis
  proof (cases "off + 1 \<ge> e")
    case True
    then have "unat e = Suc (unat off)" using u b by (simp add: word_le_nat_alt)
    then show ?thesis using True b by (simp add: next_offset_def Suc_diff_le)
  next
    case False
    then have "Suc (unat off) < unat e" using u by (simp add: word_le_nat_alt)
    then show ?thesis using False u b by (simp add: next_offset_def)
  qed
qed

lemma next_offset_range:
  assumes "s \<le> off" "off < e"
  shows "s \<le> next_offset s e off" "next_offset s e off < e"
proof -
  have "unat s < unat e" using assms by (simp add: word_le_nat_alt word_less_nat_alt)
  then have "(unat off - unat s + 1) mod (unat e - unat s) < unat e - unat s" by simp
  then show "s \<le> next_offset s e off" "next_offset s e off < e"
    using unat_next_offset [OF assms] by (simp_all add: word_le_nat_alt word_less_nat_alt)
qed

lemma probe_Some:
  "probe net clients s e n off = Some (x, ip) \<Longrightarrow> s \<le> off \<Longrightarrow> off < e \<Longrightarrow>
   s \<le> x \<and> x < e \<and> ip_for_host_offset net x = Some ip \<and> ip \<noteq> vnc_server_vpn_ip net \<and> \<not> already_used clients ip"
proof (induction n arbitrary: off)
  case (Suc n)
  then show ?case
    using next_offset_range [of s off e] by (auto simp: probe_step free_offset_def simp del: probe.simps split: if_splits)
qed simp

lemma probe_visits:
  "probe net clients s e n off = None \<Longrightarrow> s \<le> off \<Longrightarrow> off < e \<Longrightarrow> k < n \<Longrightarrow>
   s \<le> x \<Longrightarrow> x < e \<Longrightarrow> unat x = unat s + (unat off - unat s + k) mod (unat e - unat s) \<Longrightarrow> \<not> free_offset net clients x"
proof (induction n arbitrary: off k)
  case (Suc n)
  have no: "\<not> free_offset net clients off" "probe net clients s e n (next_offset s e off) = None"
    using Suc.prems(1) by (auto simp: probe_step simp del: probe.simps split: if_splits)
  show ?case
  proof (cases k)
    case 0
    have "unat s \<le> unat off" "unat off < unat e" using Suc.prems(2,3) by (simp_all add: word_le_nat_alt word_less_nat_alt)
    then have "unat x = unat off" using Suc.prems(7) 0 by simp
    then have "x = off" by (simp add: word_unat_eq_iff)
    then show ?thesis using no(1) by simp
  next
    case (Suc j)
    have "unat x = unat s + (unat (next_offset s e off) - unat s + j) mod (unat e - unat s)"
      using Suc.prems(7) Suc unat_next_offset [OF Suc.prems(2,3)] by (simp add: mod_simps)
    then show ?thesis using Suc.IH [OF no(2) next_offset_range [OF Suc.prems(2,3)] _ Suc.prems(5,6)] Suc Suc.prems(4) by simp
  qed
qed simp

text \<open>A full round visits every offset of the range.\<close>

lemma probe_complete:
  assumes "s \<le> off" "off < e" "probe net clients s e (unat (e - s)) off = None" "s \<le> x" "x < e"
  shows "\<not> free_offset net clients x"
proof -
  have b: "unat s \<le> unat off" "unat off < unat e" "unat s \<le> unat x" "unat x < unat e"
    using assms by (simp_all add: word_le_nat_alt word_less_nat_alt)
  let ?l = "unat e - unat s"
  have l: "unat (e - s) = ?l" using b by (intro unat_sub) (simp add: word_le_nat_alt)
  let ?k = "(unat x - unat s + (?l - (unat off - unat s))) mod ?l"
  have "(unat off - unat s + ?k) mod ?l = (unat off - unat s + (unat x - unat s + (?l - (unat off - unat s)))) mod ?l"
    by (simp add: mod_simps)
  also have "\<dots> = (unat x - unat s + ?l) mod ?l" using b by (intro arg_cong [where f = "\<lambda>v. v mod ?l"]) linarith
  also have "\<dots> = unat x - unat s" unfolding mod_add_self2 using b by simp
  finally have "unat x = unat s + (unat off - unat s + ?k) mod ?l" using b by simp
  moreover have "?k < unat (e - s)" using l b by simp
  ultimately show ?thesis using probe_visits [OF assms(3,1,2) _ assms(4,5)] by blast
qed
section \<open>What allocation guarantees\<close>

lemma offset_range_ok:
  assumes "partition_ok net part" "offset_range net part = (s, e)" "max_host_offset net \<ge> 1"
  shows "1 \<le> s" "s < e" "e \<le> max_host_offset net + 1"
proof -
  have "1 < max_host_offset net + 1" using assms(3) unat_Suc_max [of net] by (simp add: word_less_nat_alt word_le_nat_alt)
  then show "1 \<le> s" "s < e" "e \<le> max_host_offset net + 1"
    using assms by (auto simp: partition_ok_def offset_range_def split: option.splits)
qed

lemma reassign_start:
  assumes "s < e"
  shows "s \<le> s + ucast (h mod ucast (e - s) :: u64)" "s + ucast (h mod ucast (e - s) :: u64) < (e :: u32)"
proof -
  have l: "unat (e - s) = unat e - unat s" "unat s < unat e"
    using assms by (auto simp: word_less_nat_alt word_le_nat_alt intro!: unat_sub)
  have "unat (e - s) < 2 ^ 64" using unat_bounds(3) [of "e - s"] by simp
  then have "unat (ucast (e - s) :: u64) = unat (e - s)" by (simp add: unsigned_ucast_eq take_bit_nat_eq_self)
  then have "unat (h mod ucast (e - s)) < unat e - unat s" using l by (simp add: unat_mod)
  moreover from this have "unat (ucast (h mod ucast (e - s)) :: u32) = unat (h mod ucast (e - s))"
    using unat_bounds(3) [of e] by (simp add: unsigned_ucast_eq take_bit_nat_eq_self)
  ultimately have u: "unat (ucast (h mod ucast (e - s)) :: u32) < unat e - unat s" by simp
  then have "unat (s + ucast (h mod ucast (e - s))) = unat s + unat (ucast (h mod ucast (e - s)) :: u32)"
    using unat_bounds(3) [of e] by (intro unat_add_lem [THEN iffD1]) simp
  then show "s \<le> s + ucast (h mod ucast (e - s))" "s + ucast (h mod ucast (e - s)) < e"
    using u by (simp_all add: word_le_nat_alt word_less_nat_alt)
qed

definition in_range :: "VpnNetworkConfig \<Rightarrow> PartitionBounds option \<Rightarrow> u32 \<Rightarrow> bool" where
  "in_range net part off \<longleftrightarrow> (case offset_range net part of (s, e) \<Rightarrow> s \<le> off \<and> off < e)"

lemma no_hosts_no_range: "partition_ok net part \<Longrightarrow> max_host_offset net < 1 \<Longrightarrow> \<not> in_range net part off"
  by (auto simp: in_range_def offset_range_def partition_ok_def word_less_nat_alt word_le_nat_alt unat_Suc_max
      split: option.splits)

lemma reassign_Some:
  assumes "partition_ok net part" "deterministic_reassign_offset net part i clients = Some ip"
  shows "\<exists>off. in_range net part off \<and> ip_for_host_offset net off = Some ip" "ip \<noteq> vnc_server_vpn_ip net"
    "\<not> already_used clients ip"
proof -
  obtain s e where r: "offset_range net part = (s, e)" by (cases "offset_range net part")
  have m: "\<not> max_host_offset net < 1" "s < e" using assms(2) r by (auto simp: deterministic_reassign_offset_def split: if_splits)
  then obtain x where "probe net clients s e (unat (e - s)) (s + ucast (fnv1a_hash i mod ucast (e - s))) = Some (x, ip)"
    using assms(2) r by (auto simp: deterministic_reassign_offset_def Let_def not_le [symmetric])
  from probe_Some [OF this reassign_start [OF m(2)]]
  show "\<exists>off. in_range net part off \<and> ip_for_host_offset net off = Some ip" "ip \<noteq> vnc_server_vpn_ip net"
    "\<not> already_used clients ip" using r by (auto simp: in_range_def)
qed

lemma reassign_None:
  assumes "partition_ok net part" "deterministic_reassign_offset net part i clients = None" "in_range net part off"
  shows "\<not> free_offset net clients off"
proof -
  obtain s e where r: "offset_range net part = (s, e)" by (cases "offset_range net part")
  have m: "\<not> max_host_offset net < 1" using no_hosts_no_range [OF assms(1)] assms(3) by blast
  have se: "s < e" "s \<le> off" "off < e" using assms(3) r by (auto simp: in_range_def)
  then have "probe net clients s e (unat (e - s)) (s + ucast (fnv1a_hash i mod ucast (e - s))) = None"
    using assms(2) m r by (simp add: deterministic_reassign_offset_def Let_def not_le [symmetric])
  from probe_complete [OF reassign_start [OF se(1)] this se(2,3)] show ?thesis .
qed

lemma allocate_cases:
  assumes "partition_ok net part" "allocate_vpn_ip net part data = (r, data')"
  shows "(\<exists>ip off. r = Inr ip \<and> in_range net part off \<and> ip_for_host_offset net off = Some ip \<and>
       ip \<noteq> vnc_server_vpn_ip net \<and> \<not> already_used (db_clients data) ip \<and> db_clients data' = db_clients data) \<or>
     (\<exists>m. r = Inl (SessionError m) \<and> data' = data \<and> (\<forall>off. in_range net part off \<longrightarrow> \<not> free_offset net (db_clients data) off))"
proof (cases "max_host_offset net < 1")
  case True
  then show ?thesis using assms no_hosts_no_range by (auto simp: allocate_vpn_ip_def)
next
  case False
  obtain s e where r: "offset_range net part = (s, e)" by (cases "offset_range net part")
  have se: "s < e" using False by (intro offset_range_ok(2) [OF assms(1) r]) (rule leI)
  define c where "c = (if db_next_host_offset data = 0 \<or> \<not> (s \<le> db_next_host_offset data \<and> db_next_host_offset data < e)
    then s else db_next_host_offset data)"
  have c: "s \<le> c" "c < e" using se by (auto simp: c_def)
  have a: "allocate_vpn_ip net part data = (case probe net (db_clients data) s e (unat (e - s)) c of
      Some (off, ip) \<Rightarrow> (Inr ip, data \<lparr>db_next_host_offset := next_offset s e off\<rparr>)
    | None \<Rightarrow> (Inl (SessionError (if part \<noteq> None
         then ''node IP partition exhausted (offsets '' @ show_nat (unat s) @ ''..'' @ show_nat (unat (e - 1)) @
           '' of subnet); increase subnet size or partition capacity''
         else ''No more VPN IPs available in configured subnet'')), data))"
    by (simp only: allocate_vpn_ip_def r Let_def prod.case c_def if_not_P [OF False] if_not_P [OF not_le [THEN iffD2, OF se]])
  show ?thesis
  proof (cases "probe net (db_clients data) s e (unat (e - s)) c")
    case None
    then show ?thesis using a assms(2) probe_complete [OF c None] r by (auto simp: in_range_def)
  next
    case (Some p)
    then obtain off ip where p: "p = (off, ip)" by (cases p)
    from probe_Some [OF Some [unfolded p] c] show ?thesis using a assms(2) r Some p by (auto simp: in_range_def)
  qed
qed
text \<open>
  C17: \<open>allocate_vpn_ip\<close> returns an address of the node's own partition that no live client and
  not the server holds, and it fails only when every address of the partition is taken; the
  client list is never changed.
\<close>

theorem allocate_vpn_ip_correct:
  assumes "partition_ok net part" "allocate_vpn_ip net part data = (r, data')"
  shows "db_clients data' = db_clients data \<and>
    (case r of
       Inr ip \<Rightarrow> (\<exists>off. in_range net part off \<and> ip_for_host_offset net off = Some ip) \<and>
         ip \<noteq> vnc_server_vpn_ip net \<and> \<not> already_used (db_clients data) ip
     | Inl e \<Rightarrow> e \<noteq> Panic \<and> (\<forall>off. in_range net part off \<longrightarrow> \<not> free_offset net (db_clients data) off))"
  using allocate_cases [OF assms] by auto

definition small_network :: VpnNetworkConfig where
  "small_network = default_VpnNetworkConfig \<lparr>vnc_server_vpn_ip := 0x0A000001, vnc_prefix_len := 24\<rparr>"

lemma small_network_hosts: "max_host_offset small_network = 254"
  by (simp add: small_network_def max_host_offset_def mask_u32_def Let_def default_VpnNetworkConfig_def mask_eq_exp_minus_1)

lemma small_network_base: "network_u32 small_network = 0x0A000000" "vnc_server_vpn_ip small_network = 0x0A000001"
  by (simp_all add: small_network_def network_u32_def mask_u32_def default_VpnNetworkConfig_def mask_eq_exp_minus_1)

theorem allocate_vpn_ip_correct_witness:
  "\<exists>ip data'. allocate_vpn_ip small_network None ClientDbFile_default = (Inr ip, data') \<and> db_clients data' = [] \<and>
     ip \<noteq> vnc_server_vpn_ip small_network"
proof -
  have ok: "partition_ok small_network None" by (simp add: partition_ok_def)
  obtain r d where a: "allocate_vpn_ip small_network None ClientDbFile_default = (r, d)" by fastforce
  note w = allocate_vpn_ip_correct [OF ok a]
  have f: "free_offset small_network [] 2" "in_range small_network None 2"
    by (simp_all add: free_offset_def in_range_def offset_range_def small_network_hosts small_network_base
        ip_for_host_offset_def already_used_def)
  then show ?thesis using w a by (cases r) (auto simp: ClientDbFile_default_def)
qed

text \<open>
  C23: The partitions of a subnet are disjoint and leave no host offset out: every offset
  belongs to exactly one of the partitions the nodes of a pool are given.
\<close>

theorem partitions_exact:
  assumes "1 < n" "n \<le> max_host_offset net" "1 \<le> off" "off \<le> max_host_offset net"
  shows "\<exists>!i. i < n \<and> in_range net (set_node_partition_explicit net None i (Some n)) off"
proof -
  let ?m = "unat (max_host_offset net)"
  have m: "1 \<le> unat n" "unat n \<le> ?m" "1 \<le> unat off" "unat off \<le> ?m" "max_host_offset net \<ge> 2"
    using assms by (simp_all add: word_le_nat_alt word_less_nat_alt)
  have r: "in_range net (set_node_partition_explicit net None i (Some n)) off \<longleftrightarrow>
      slice_start ?m (unat n) (unat i) \<le> unat off \<and> unat off < slice_end ?m (unat n) (unat i)" if "i < n" for i
  proof -
    have i: "unat i < unat n" "i mod n = i" using that by (simp_all add: word_less_nat_alt word_unat_eq_iff unat_mod)
    have "set_node_partition_explicit net None i (Some n) =
        Some (compute_partition_bounds (max_host_offset net) n i True)"
      using assms m i(2)
      by (auto simp: set_node_partition_explicit_def apply_partition_def Let_def not_le not_less)
    then show ?thesis
      by (simp add: in_range_def offset_range_def word_le_nat_alt word_less_nat_alt
          compute_partition_bounds_nat [OF m(1,2) i(1) max_host_offset_less])
  qed
  from slices_cover [OF m(1-4)] obtain k
    where k: "k < unat n \<and> slice_start ?m (unat n) k \<le> unat off \<and> unat off < slice_end ?m (unat n) k"
    and u: "\<forall>j. j < unat n \<and> slice_start ?m (unat n) j \<le> unat off \<and> unat off < slice_end ?m (unat n) j \<longrightarrow> j = k"
    by (rule ex1E)
  have k': "unat (of_nat k :: u32) = k" using k unat_bounds(3) [of n] by (simp add: unat_of_nat)
  show ?thesis
  proof (rule ex1I [of _ "of_nat k"])
    show "of_nat k < n \<and> in_range net (set_node_partition_explicit net None (of_nat k) (Some n)) off"
      using r [of "of_nat k"] k k' by (simp add: word_less_nat_alt)
    show "i = of_nat k" if "i < n \<and> in_range net (set_node_partition_explicit net None i (Some n)) off" for i
    proof -
      have "i < n" using that by blast
      then have "unat i < unat n" by (simp add: word_less_nat_alt)
      moreover note r [OF \<open>i < n\<close>]
      ultimately have "unat i = k" using that u by blast
      then show ?thesis by (simp add: word_unat_eq_iff k')
    qed
  qed
qed

theorem partitions_exact_witness:
  "\<exists>!i. i < 8 \<and> in_range small_network (set_node_partition_explicit small_network None i (Some 8)) 100"
  by (rule partitions_exact) (simp_all add: small_network_hosts)



end
