(* ===== verification/Client_Merge.thy ===== *)
theory Client_Merge
  imports Client_Alloc "HOL-Library.Multiset"
begin

text \<open>
  Synchronisation of the client databases of a pool: \<open>aivpn-server/src/client_db/merge.rs\<close>.
  The parameter \<open>H\<close> is the BLAKE3 hash and \<open>J\<close> the JSON encoding of the optional QoS settings;
  both are library code.  A merge takes the parsed records of the peer.
\<close>

unbundle bit_operations_syntax

section \<open>Digests\<close>

definition timestamp_millis :: "datetime \<Rightarrow> u64" where
  "timestamp_millis t = of_int (t div 1000000)"

definition encode_opt_millis :: "datetime option \<Rightarrow> bytes" where
  "encode_opt_millis dt =
     (case dt of Some t \<Rightarrow> to_le 8 (timestamp_millis t) | None \<Rightarrow> to_le 8 (push_bit 63 1 :: u64))"

definition POOL_SYNC_BUCKETS :: nat where "POOL_SYNC_BUCKETS = 64"

definition length_prefixed :: "bytes \<Rightarrow> bytes" where
  "length_prefixed bs = to_le 4 (of_nat (length bs) :: u32) @ bs"

definition write_record_canonical_fields :: "(ClientQos option \<Rightarrow> bytes) \<Rightarrow> ClientConfig \<Rightarrow> bytes" where
  "write_record_canonical_fields J c =
     length_prefixed (cc_id c) @ cc_psk c @ length_prefixed (cc_name c) @
     [of_bool (cc_enabled c), of_bool (cc_deleted c), of_bool (cc_one_time c)] @
     encode_opt_millis (cc_updated_at c) @ encode_opt_millis (cc_expires_at c) @
     (case cc_device_pubkey c of Some key \<Rightarrow> 1 # key | None \<Rightarrow> 0 # replicate 32 0) @
     length_prefixed (J (cc_qos c)) @ [rank (cc_role c)] @
     (case cc_exit_node c of Some addr \<Rightarrow> 1 # length_prefixed addr | None \<Rightarrow> [0])"

definition record_canonical_hash :: "(bytes \<Rightarrow> bytes) \<Rightarrow> (ClientQos option \<Rightarrow> bytes) \<Rightarrow> ClientConfig \<Rightarrow> bytes" where
  "record_canonical_hash H J c = H (write_record_canonical_fields J c)"

definition client_record_digest :: "(bytes \<Rightarrow> bytes) \<Rightarrow> (ClientQos option \<Rightarrow> bytes) \<Rightarrow> ClientConfig \<Rightarrow> bytes" where
  "client_record_digest H J c = H (write_record_canonical_fields J c)"

definition bucket_index_for_id :: "(bytes \<Rightarrow> bytes) \<Rightarrow> rstring \<Rightarrow> nat" where
  "bucket_index_for_id H i = unat (from_le (take 8 (H i)) :: u64) mod POOL_SYNC_BUCKETS"

definition state_digest :: "(bytes \<Rightarrow> bytes) \<Rightarrow> (ClientQos option \<Rightarrow> bytes) \<Rightarrow> ClientConfig list \<Rightarrow> bytes" where
  "state_digest H J clients =
     (let records = sort_key cc_id clients
      in H (to_le 8 (of_nat (length records) :: u64) @ concat (map (write_record_canonical_fields J) records)))"

definition bucket_digest :: "(bytes \<Rightarrow> bytes) \<Rightarrow> (rstring \<times> bytes) list \<Rightarrow> bytes" where
  "bucket_digest H bucket =
     (if bucket = [] then replicate 8 0
      else take 8 (H (to_le 4 (of_nat (length bucket) :: u32) @ concat (map snd (sort_key fst bucket)))))"

definition bucket_digests :: "(bytes \<Rightarrow> bytes) \<Rightarrow> (ClientQos option \<Rightarrow> bytes) \<Rightarrow> ClientConfig list \<Rightarrow> bytes" where
  "bucket_digests H J clients =
     concat (map (\<lambda>i. bucket_digest H
       (map (\<lambda>c. (cc_id c, record_canonical_hash H J c)) (filter (\<lambda>c. bucket_index_for_id H (cc_id c) = i) clients)))
       [0..<POOL_SYNC_BUCKETS])"

fun chunks8 :: "bytes \<Rightarrow> bytes list" where
  "chunks8 bs = (if length bs < 8 then [] else take 8 bs # chunks8 (drop 8 bs))"

declare chunks8.simps [simp del]

definition differing_pool_buckets :: "bytes \<Rightarrow> bytes \<Rightarrow> u16 list" where
  "differing_pool_buckets this peer =
     (if length this \<noteq> length peer \<or> length this mod 8 \<noteq> 0 then []
      else List.map_filter (\<lambda>(i, l, p). if l \<noteq> p then Some (of_nat i) else None)
             (enumerate 0 (zip (chunks8 this) (chunks8 peer))))"

definition clients_for_buckets :: "(bytes \<Rightarrow> bytes) \<Rightarrow> ClientConfig list \<Rightarrow> u16 list \<Rightarrow> ClientConfig list" where
  "clients_for_buckets H clients buckets =
     filter (\<lambda>c. of_nat (bucket_index_for_id H (cc_id c)) \<in> set buckets) clients"

section \<open>Merging\<close>

definition TOMBSTONE_TTL :: int where "TOMBSTONE_TTL = 30 * 24 * 60 * 60 * 1000000000"

definition reap_expired_tombstones :: "datetime \<Rightarrow> ClientConfig list \<Rightarrow> ClientConfig list" where
  "reap_expired_tombstones now clients =
     filter (\<lambda>c. \<not> (cc_deleted c \<and> (case cc_updated_at c of Some t \<Rightarrow> t < now - TOMBSTONE_TTL | None \<Rightarrow> False))) clients"

definition strictly_newer :: "datetime option \<Rightarrow> datetime option \<Rightarrow> bool" where
  "strictly_newer inc existing =
     (case (inc, existing) of
        (Some i, Some e) \<Rightarrow> i > e
      | (Some _, None) \<Rightarrow> True
      | (None, _) \<Rightarrow> False)"

definition incoming_wins ::
    "(bytes \<Rightarrow> bytes) \<Rightarrow> (ClientQos option \<Rightarrow> bytes) \<Rightarrow> ClientConfig \<Rightarrow> ClientConfig \<Rightarrow> bool" where
  "incoming_wins H J existing inc =
     (let newer = strictly_newer (cc_updated_at inc) (cc_updated_at existing);
          tie_break_wins = (cc_updated_at inc = cc_updated_at existing \<and>
            record_canonical_hash H J inc < record_canonical_hash H J existing)
      in case (cc_deleted existing, cc_deleted inc) of
           (True, False) \<Rightarrow> False
         | (False, True) \<Rightarrow> True
         | _ \<Rightarrow> newer \<or> tie_break_wins)"

definition adopt_record :: "ClientConfig \<Rightarrow> ClientConfig \<Rightarrow> ClientConfig" where
  "adopt_record existing inc =
     existing \<lparr>cc_name := cc_name inc, cc_enabled := cc_enabled inc \<and> \<not> cc_deleted inc, cc_qos := cc_qos inc,
       cc_deleted := cc_deleted inc, cc_updated_at := cc_updated_at inc, cc_expires_at := cc_expires_at inc,
       cc_device_pubkey := cc_device_pubkey inc, cc_one_time := cc_one_time inc, cc_role := cc_role inc,
       cc_exit_node := cc_exit_node inc\<rparr>"

text \<open>A live record of an unknown client: an address that is taken is given to the older record.\<close>

definition keeps_address :: "ClientConfig \<Rightarrow> ClientConfig \<Rightarrow> bool" where
  "keeps_address inc holder \<longleftrightarrow>
     cc_created_at inc < cc_created_at holder \<or> (cc_created_at inc = cc_created_at holder \<and> cc_id inc < cc_id holder)"

definition holds_address_of :: "ClientConfig \<Rightarrow> ClientConfig \<Rightarrow> bool" where
  "holds_address_of inc c \<longleftrightarrow> cc_vpn_ip c = cc_vpn_ip inc \<and> cc_id c \<noteq> cc_id inc \<and> \<not> cc_deleted c"

definition place_live ::
    "VpnNetworkConfig \<Rightarrow> PartitionBounds option \<Rightarrow> ClientConfig list \<Rightarrow> ClientConfig \<Rightarrow> ClientConfig list option" where
  "place_live net part clients inc =
     (case find (holds_address_of inc) clients of
        None \<Rightarrow> Some (clients @ [inc])
      | Some holder \<Rightarrow>
          (if keeps_address inc holder
           then map_option (\<lambda>ip. update_first (holds_address_of inc) (\<lambda>c. c \<lparr>cc_vpn_ip := ip\<rparr>) clients @ [inc])
                  (deterministic_reassign_offset net part (cc_id holder) clients)
           else map_option (\<lambda>ip. clients @ [inc \<lparr>cc_vpn_ip := ip\<rparr>])
                  (deterministic_reassign_offset net part (cc_id inc) clients)))"

definition insert_live ::
    "VpnNetworkConfig \<Rightarrow> PartitionBounds option \<Rightarrow> ClientConfig list \<Rightarrow> ClientConfig \<Rightarrow> ClientConfig list option" where
  "insert_live net part clients inc =
     (if cc_vpn_ip inc = vnc_server_vpn_ip net
      then (case deterministic_reassign_offset net part (cc_id inc) clients of
              Some ip \<Rightarrow> place_live net part clients (inc \<lparr>cc_vpn_ip := ip\<rparr>)
            | None \<Rightarrow> None)
      else place_live net part clients inc)"

definition merge_record ::
    "(bytes \<Rightarrow> bytes) \<Rightarrow> (ClientQos option \<Rightarrow> bytes) \<Rightarrow> VpnNetworkConfig \<Rightarrow> PartitionBounds option \<Rightarrow>
     ClientConfig list \<Rightarrow> ClientConfig \<Rightarrow> ClientConfig list option" where
  "merge_record H J net part clients inc =
     (case find (\<lambda>c. cc_id c = cc_id inc) clients of
        Some existing \<Rightarrow>
          (if cc_psk existing = cc_psk inc \<and> incoming_wins H J existing inc
           then Some (update_first (\<lambda>c. cc_id c = cc_id inc) (\<lambda>e. adopt_record e inc) clients)
           else None)
      | None \<Rightarrow> (if cc_deleted inc then Some (clients @ [inc]) else insert_live net part clients inc))"

text \<open>The loop over the peer's records; \<open>None\<close> of \<open>merge_record\<close> leaves the list as it is.\<close>

fun merge_records ::
    "(bytes \<Rightarrow> bytes) \<Rightarrow> (ClientQos option \<Rightarrow> bytes) \<Rightarrow> VpnNetworkConfig \<Rightarrow> PartitionBounds option \<Rightarrow>
     ClientConfig list \<Rightarrow> ClientConfig list \<Rightarrow> nat \<Rightarrow> nat \<times> ClientConfig list" where
  "merge_records H J net part clients [] merged = (merged, clients)"
| "merge_records H J net part clients (inc # incoming) merged =
     (case merge_record H J net part clients inc of
        None \<Rightarrow> merge_records H J net part clients incoming merged
      | Some clients' \<Rightarrow> merge_records H J net part clients' incoming (merged + 1))"

definition merge_clients ::
    "(bytes \<Rightarrow> bytes) \<Rightarrow> (ClientQos option \<Rightarrow> bytes) \<Rightarrow> VpnNetworkConfig \<Rightarrow> PartitionBounds option \<Rightarrow> datetime \<Rightarrow>
     ClientConfig list \<Rightarrow> ClientDbFile \<Rightarrow> nat \<times> ClientDbFile" where
  "merge_clients H J net part now incoming data =
     (case merge_records H J net part (db_clients data) incoming 0 of
        (merged, clients) \<Rightarrow> (merged, data \<lparr>db_clients := reap_expired_tombstones now clients\<rparr>))"
section \<open>Versions of a record\<close>

text \<open>
  What a merge compares: a deleted record beats a live one, then the later timestamp wins,
  and between equal timestamps the smaller hash.  This is a linear order, so that a merge
  computes a maximum.
\<close>

datatype version = Version (v_deleted: bool) (v_updated: "datetime option") (v_hash: bytes)

instantiation version :: linorder
begin

definition less_version :: "version \<Rightarrow> version \<Rightarrow> bool" where
  "less_version v w \<longleftrightarrow>
     (\<not> v_deleted v \<and> v_deleted w) \<or>
     (v_deleted v = v_deleted w \<and>
      (strictly_newer (v_updated w) (v_updated v) \<or> (v_updated v = v_updated w \<and> v_hash w < v_hash v)))"

definition less_eq_version :: "version \<Rightarrow> version \<Rightarrow> bool" where
  "less_eq_version v w \<longleftrightarrow> v = w \<or> v < w"

instance
proof
  fix u v w :: version
  have newer_trans: "strictly_newer b a \<Longrightarrow> strictly_newer c b \<Longrightarrow> strictly_newer c a" for a b c
    by (auto simp: strictly_newer_def split: option.splits)
  have newer_asym: "strictly_newer b a \<Longrightarrow> \<not> strictly_newer a b" for a b
    by (auto simp: strictly_newer_def split: option.splits)
  have newer_total: "strictly_newer a b \<or> strictly_newer b a \<or> a = b" for a b
    by (auto simp: strictly_newer_def split: option.splits)
  have asym: "u < v \<Longrightarrow> \<not> v < u" for u v :: version
    unfolding less_version_def using newer_asym by (metis order_less_asym)
  have irr: "\<not> u < u" for u :: version using asym [of u u] by (cases "u < u") simp_all
  have trans: "u < v \<Longrightarrow> v < w \<Longrightarrow> u < w" for u v w :: version
    using newer_trans [of "v_updated v" "v_updated u" "v_updated w"] order_less_trans [of "v_hash w" "v_hash v" "v_hash u"]
    unfolding less_version_def by (elim disjE conjE) simp_all
  show "(u < v) = (u \<le> v \<and> \<not> v \<le> u)" using asym irr by (auto simp: less_eq_version_def)
  show "u \<le> u" by (simp add: less_eq_version_def)
  show "u \<le> v \<Longrightarrow> v \<le> w \<Longrightarrow> u \<le> w" using trans by (auto simp: less_eq_version_def)
  show "u \<le> v \<Longrightarrow> v \<le> u \<Longrightarrow> u = v" using asym by (auto simp: less_eq_version_def)
  show "u \<le> v \<or> v \<le> u"
    using newer_total [of "v_updated u" "v_updated v"] linorder_less_linear [of "v_hash u" "v_hash v"]
    by (cases u; cases v) (auto simp: less_eq_version_def less_version_def)
qed

end

definition version_of :: "(bytes \<Rightarrow> bytes) \<Rightarrow> (ClientQos option \<Rightarrow> bytes) \<Rightarrow> ClientConfig \<Rightarrow> version" where
  "version_of H J c = Version (cc_deleted c) (cc_updated_at c) (record_canonical_hash H J c)"

lemma incoming_wins_less: "incoming_wins H J existing inc \<longleftrightarrow> version_of H J existing < version_of H J inc"
  by (auto simp: incoming_wins_def version_of_def less_version_def Let_def split: bool.splits)

section \<open>The replicated state\<close>

text \<open>The state two nodes agree on: which version of each client they hold.\<close>

definition replica :: "(bytes \<Rightarrow> bytes) \<Rightarrow> (ClientQos option \<Rightarrow> bytes) \<Rightarrow> ClientConfig list \<Rightarrow> rstring \<rightharpoonup> version" where
  "replica H J clients = map_of (map (\<lambda>c. (cc_id c, version_of H J c)) clients)"

definition join :: "(rstring \<rightharpoonup> version) \<Rightarrow> (rstring \<rightharpoonup> version) \<Rightarrow> rstring \<rightharpoonup> version" where
  "join m n = (\<lambda>i. combine_options max (m i) (n i))"

lemma join_commute: "join m n = join n m"
  by (auto simp: join_def combine_options_def max.commute split: option.splits)

lemma join_assoc: "join (join m n) k = join m (join n k)"
  by (auto simp: join_def combine_options_def max.assoc split: option.splits)

lemma join_empty [simp]: "join m Map.empty = m" "join Map.empty m = m"
  by (auto simp: join_def combine_options_def split: option.splits)

lemma join_idem [simp]: "join m m = m"
  by (auto simp: join_def combine_options_def split: option.splits)

definition record_ok :: "ClientConfig \<Rightarrow> bool" where
  "record_ok c \<longleftrightarrow> (cc_deleted c \<longrightarrow> \<not> cc_enabled c)"

lemma adopt_canonical:
  assumes "cc_id e = cc_id i" "cc_psk e = cc_psk i" "record_ok i"
  shows "write_record_canonical_fields J (adopt_record e i) = write_record_canonical_fields J i"
  using assms by (auto simp: write_record_canonical_fields_def adopt_record_def record_ok_def)

lemma adopt_version:
  assumes "cc_id e = cc_id i" "cc_psk e = cc_psk i" "record_ok i"
  shows "version_of H J (adopt_record e i) = version_of H J i"
  using adopt_canonical [OF assms]
  by (simp add: version_of_def record_canonical_hash_def adopt_record_def)

lemma version_vpn_ip [simp]: "version_of H J (c \<lparr>cc_vpn_ip := ip\<rparr>) = version_of H J c"
  by (simp add: version_of_def record_canonical_hash_def write_record_canonical_fields_def)

lemma canonical_vpn_ip [simp]: "write_record_canonical_fields J (c \<lparr>cc_vpn_ip := ip\<rparr>) = write_record_canonical_fields J c"
  by (simp add: write_record_canonical_fields_def)

lemma replica_Cons: "replica H J (c # cs) = (replica H J cs)(cc_id c \<mapsto> version_of H J c)"
  by (simp add: replica_def)

lemma replica_append: "replica H J (xs @ ys) = replica H J ys ++ replica H J xs"
  by (simp add: replica_def map_of_append)

lemma dom_replica: "dom (replica H J cs) = cc_id ` set cs"
  by (simp add: replica_def dom_map_of_conv_image_fst image_image)

lemma replica_None: "replica H J cs i = None \<longleftrightarrow> i \<notin> cc_id ` set cs"
  using dom_replica [of H J cs] by blast

lemma replica_update_first:
  assumes "\<And>c. P c \<Longrightarrow> cc_id (f c) = cc_id c \<and> version_of H J (f c) = version_of H J c"
  shows "replica H J (update_first P f cs) = replica H J cs"
  using assms by (induction cs) (auto simp: replica_Cons)
section \<open>A merge computes the join\<close>

definition live_ips :: "ClientConfig list \<Rightarrow> u32 list" where
  "live_ips clients = map cc_vpn_ip (filter (\<lambda>c. \<not> cc_deleted c) clients)"

lemma live_ips_simps [simp]:
  "live_ips [] = []"
  "live_ips (c # cs) = (if cc_deleted c then live_ips cs else cc_vpn_ip c # live_ips cs)"
  "live_ips (xs @ ys) = live_ips xs @ live_ips ys"
  by (simp_all add: live_ips_def)

lemma already_used_iff: "already_used clients ip \<longleftrightarrow> ip \<in> set (live_ips clients)"
  by (auto simp: already_used_def list_ex_iff live_ips_def)

definition capacity :: "VpnNetworkConfig \<Rightarrow> PartitionBounds option \<Rightarrow> nat" where
  "capacity net part =
     card {ip. (\<exists>off. in_range net part off \<and> ip_for_host_offset net off = Some ip) \<and> ip \<noteq> vnc_server_vpn_ip net}"

lemma reassign_succeeds:
  assumes "partition_ok net part" "length clients < capacity net part"
  shows "deterministic_reassign_offset net part i clients \<noteq> None"
proof
  assume none: "deterministic_reassign_offset net part i clients = None"
  let ?S = "{ip. (\<exists>off. in_range net part off \<and> ip_for_host_offset net off = Some ip) \<and> ip \<noteq> vnc_server_vpn_ip net}"
  have "?S \<subseteq> set (live_ips clients)"
    using reassign_None [OF assms(1) none] by (auto simp: free_offset_def already_used_iff)
  then have "card ?S \<le> card (set (live_ips clients))" by (intro card_mono) simp_all
  also have "\<dots> \<le> length (live_ips clients)" by (rule card_length)
  also have "\<dots> \<le> length clients" by (simp add: live_ips_def)
  finally show False using assms(2) by (simp add: capacity_def)
qed

lemma insert_live_some:
  assumes "partition_ok net part" "length clients < capacity net part"
  shows "insert_live net part clients inc \<noteq> None"
proof -
  have "\<exists>ip. deterministic_reassign_offset net part i clients = Some ip" for i
    using reassign_succeeds [OF assms, of i] by blast
  then obtain g where "\<And>i. deterministic_reassign_offset net part i clients = Some (g i)" by metis
  then show ?thesis by (auto simp: insert_live_def place_live_def split: option.splits)
qed

lemma replica_snoc:
  "cc_id c \<notin> cc_id ` set cs \<Longrightarrow> replica H J (cs @ [c]) = join (replica H J cs) [cc_id c \<mapsto> version_of H J c]"
  using replica_None [of H J cs "cc_id c"]
  by (auto simp: replica_append replica_Cons join_def map_add_def replica_def combine_options_def split: option.splits)

lemma ids_update_vpn_ip [simp]: "map cc_id (update_first P (\<lambda>c. c \<lparr>cc_vpn_ip := ip\<rparr>) cs) = map cc_id cs"
  by (rule map_update_first) simp

lemma place_live_cases:
  assumes "place_live net part clients inc = Some clients'"
  obtains (free) "find (holds_address_of inc) clients = None" "clients' = clients @ [inc]"
  | (displace) holder ip where "find (holds_address_of inc) clients = Some holder"
      "deterministic_reassign_offset net part (cc_id holder) clients = Some ip"
      "clients' = update_first (holds_address_of inc) (\<lambda>c. c \<lparr>cc_vpn_ip := ip\<rparr>) clients @ [inc]"
  | (rehome) ip where "deterministic_reassign_offset net part (cc_id inc) clients = Some ip"
      "clients' = clients @ [inc \<lparr>cc_vpn_ip := ip\<rparr>]"
  using assms by (auto simp: place_live_def split: option.splits if_splits)

lemma insert_live_cases:
  assumes "insert_live net part clients inc = Some clients'"
  obtains inc' where "place_live net part clients inc' = Some clients'" "inc' = inc" "cc_vpn_ip inc \<noteq> vnc_server_vpn_ip net"
  | ip where "place_live net part clients (inc \<lparr>cc_vpn_ip := ip\<rparr>) = Some clients'"
      "deterministic_reassign_offset net part (cc_id inc) clients = Some ip"
  using assms by (auto simp: insert_live_def split: option.splits if_splits)

text \<open>Inserting a live record changes addresses only.\<close>

lemma place_live_replica:
  assumes "place_live net part clients inc = Some clients'" "cc_id inc \<notin> cc_id ` set clients"
  shows "replica H J clients' = join (replica H J clients) [cc_id inc \<mapsto> version_of H J inc]"
  using assms(1)
proof (cases rule: place_live_cases)
  case (displace holder ip)
  let ?us = "update_first (holds_address_of inc) (\<lambda>c. c \<lparr>cc_vpn_ip := ip\<rparr>) clients"
  have "cc_id ` set ?us = cc_id ` set clients" by (metis ids_update_vpn_ip list.set_map)
  moreover have "replica H J ?us = replica H J clients" by (rule replica_update_first) simp
  ultimately show ?thesis using displace(3) replica_snoc [of inc ?us H J] assms(2) by simp
next
  case (rehome ip)
  then show ?thesis using replica_snoc [of "inc \<lparr>cc_vpn_ip := ip\<rparr>" clients H J] assms(2) by simp
qed (use replica_snoc [of inc clients H J] assms(2) in simp)

lemma insert_live_replica:
  assumes "insert_live net part clients inc = Some clients'" "cc_id inc \<notin> cc_id ` set clients"
  shows "replica H J clients' = join (replica H J clients) [cc_id inc \<mapsto> version_of H J inc]"
  using assms(1) place_live_replica [of net part clients "inc \<lparr>cc_vpn_ip := _\<rparr>" clients' H J] place_live_replica [of net part clients inc clients' H J]
  by (cases rule: insert_live_cases) (use assms(2) in auto)
lemma replica_middle:
  assumes "distinct (map cc_id (us @ x # vs))"
  shows "replica H J (us @ x # vs) = (replica H J (us @ vs))(cc_id x \<mapsto> version_of H J x)"
proof -
  have "cc_id x \<notin> cc_id ` set us" using assms by auto
  then have "replica H J us (cc_id x) = None" by (simp add: replica_None)
  then show ?thesis by (auto simp: replica_append replica_Cons map_add_def split: option.splits)
qed

definition after_record ::
    "(bytes \<Rightarrow> bytes) \<Rightarrow> (ClientQos option \<Rightarrow> bytes) \<Rightarrow> VpnNetworkConfig \<Rightarrow> PartitionBounds option \<Rightarrow>
     ClientConfig list \<Rightarrow> ClientConfig \<Rightarrow> ClientConfig list" where
  "after_record H J net part clients inc =
     (case merge_record H J net part clients inc of None \<Rightarrow> clients | Some clients' \<Rightarrow> clients')"

lemma merge_records_after:
  "snd (merge_records H J net part clients incoming n) = foldl (after_record H J net part) clients incoming"
  by (induction incoming arbitrary: clients n) (auto simp: after_record_def split: option.splits)

text \<open>The four things that can happen to an incoming record.\<close>

lemma after_record_cases:
  obtains (keep) e where "find (\<lambda>c. cc_id c = cc_id inc) clients = Some e" "\<not> (cc_psk e = cc_psk inc \<and> incoming_wins H J e inc)"
      "after_record H J net part clients inc = clients"
  | (adopt) us e vs where "clients = us @ e # vs" "cc_id e = cc_id inc" "cc_psk e = cc_psk inc" "incoming_wins H J e inc"
      "after_record H J net part clients inc = us @ adopt_record e inc # vs"
  | (tombstone) "cc_id inc \<notin> cc_id ` set clients" "cc_deleted inc" "after_record H J net part clients inc = clients @ [inc]"
  | (live) clients' where "cc_id inc \<notin> cc_id ` set clients" "\<not> cc_deleted inc"
      "insert_live net part clients inc = Some clients'" "after_record H J net part clients inc = clients'"
  | (dropped) "cc_id inc \<notin> cc_id ` set clients" "\<not> cc_deleted inc" "insert_live net part clients inc = None"
      "after_record H J net part clients inc = clients"
proof (cases "find (\<lambda>c. cc_id c = cc_id inc) clients")
  case None
  then have n: "cc_id inc \<notin> cc_id ` set clients" by (auto simp: find_None_iff)
  show thesis
  proof (cases "cc_deleted inc")
    case True
    then show thesis using n None by (intro tombstone) (simp_all add: after_record_def merge_record_def)
  next
    case False
    show thesis
    proof (cases "insert_live net part clients inc")
      case None
      then show thesis using n False \<open>find _ clients = None\<close> by (intro dropped) (simp_all add: after_record_def merge_record_def)
    next
      case (Some cs)
      then show thesis using n False \<open>find _ clients = None\<close> by (intro live) (simp_all add: after_record_def merge_record_def)
    qed
  qed
next
  case (Some e)
  show thesis
  proof (cases "cc_psk e = cc_psk inc \<and> incoming_wins H J e inc")
    case True
    from find_split [OF Some] obtain us vs where s: "clients = us @ e # vs" "cc_id e = cc_id inc"
      "\<forall>u\<in>set us. \<not> cc_id u = cc_id inc" by blast
    have "update_first (\<lambda>c. cc_id c = cc_id inc) (\<lambda>e. adopt_record e inc) clients = us @ adopt_record e inc # vs"
      unfolding s(1) by (rule update_first_split) (use s in auto)
    then show thesis using True Some s by (intro adopt) (simp_all add: after_record_def merge_record_def)
  next
    case False
    then show thesis using Some by (intro keep) (auto simp: after_record_def merge_record_def)
  qed
qed

lemma adopt_fields [simp]:
  "cc_id (adopt_record e i) = cc_id e" "cc_psk (adopt_record e i) = cc_psk e" "cc_vpn_ip (adopt_record e i) = cc_vpn_ip e"
  "cc_deleted (adopt_record e i) = cc_deleted i" "cc_updated_at (adopt_record e i) = cc_updated_at i"
  by (simp_all add: adopt_record_def)

lemma insert_live_ids:
  assumes "insert_live net part clients inc = Some clients'"
  shows "map cc_id clients' = map cc_id clients @ [cc_id inc]"
proof -
  have "place_live net part clients x = Some clients' \<Longrightarrow> map cc_id clients' = map cc_id clients @ [cc_id x]" for x
    by (erule place_live_cases) simp_all
  from insert_live_cases [OF assms] this show ?thesis by (metis ClientConfig.select_convs(1) ClientConfig.surjective
      ClientConfig.update_convs(4))
qed

lemma after_record_ids:
  "map cc_id (after_record H J net part clients inc) = map cc_id clients \<or>
   (cc_id inc \<notin> cc_id ` set clients \<and> map cc_id (after_record H J net part clients inc) = map cc_id clients @ [cc_id inc])"
  by (cases rule: after_record_cases [of inc clients H J net part]) (auto dest: insert_live_ids)

lemma after_record_distinct:
  "distinct (map cc_id clients) \<Longrightarrow> distinct (map cc_id (after_record H J net part clients inc))"
  using after_record_ids [of H J net part clients inc] by auto

lemma after_record_length: "length (after_record H J net part clients inc) \<le> Suc (length clients)"
  using after_record_ids [of H J net part clients inc] arg_cong [of _ _ length]
  by (metis le_Suc_eq length_append_singleton length_map order_refl)

lemma after_record_replica:
  assumes "distinct (map cc_id clients)" "\<forall>c\<in>set clients. cc_id c = cc_id inc \<longrightarrow> cc_psk c = cc_psk inc" "record_ok inc"
    "partition_ok net part" "length clients < capacity net part"
  shows "replica H J (after_record H J net part clients inc) = join (replica H J clients) [cc_id inc \<mapsto> version_of H J inc]"
proof (cases rule: after_record_cases [of inc clients H J net part])
  case (keep e)
  from find_split [OF keep(1)] obtain us vs where s: "clients = us @ e # vs" "cc_id e = cc_id inc" by blast
  then have "cc_psk e = cc_psk inc" using assms(2) by simp
  then have "\<not> version_of H J e < version_of H J inc" using keep(2) by (simp add: incoming_wins_less)
  moreover have "replica H J clients (cc_id inc) = Some (version_of H J e)"
    using replica_middle [OF assms(1) [unfolded s(1)], of H J] s by simp
  ultimately show ?thesis using keep(3)
    by (auto simp: join_def combine_options_def max_def fun_eq_iff not_less split: option.splits)
next
  case (adopt us e vs)
  have d: "distinct (map cc_id (us @ adopt_record e inc # vs))" using assms(1) adopt(1) by simp
  have v: "version_of H J (adopt_record e inc) = version_of H J inc" by (rule adopt_version [OF adopt(2,3) assms(3)])
  have "version_of H J e < version_of H J inc" using adopt(4) by (simp add: incoming_wins_less)
  moreover have "replica H J clients = (replica H J (us @ vs))(cc_id inc \<mapsto> version_of H J e)"
    using replica_middle [OF assms(1) [unfolded adopt(1)], of H J] adopt(1,2) by simp
  moreover have "replica H J (after_record H J net part clients inc) = (replica H J (us @ vs))(cc_id inc \<mapsto> version_of H J inc)"
    using replica_middle [OF d, of H J] adopt(2,5) v by simp
  ultimately show ?thesis
    by (auto simp: join_def combine_options_def max_def fun_eq_iff split: option.splits)
next
  case tombstone
  then show ?thesis using replica_snoc [of inc clients H J] by simp
next
  case (live clients')
  then show ?thesis using insert_live_replica [of net part clients inc clients' H J] by simp
next
  case dropped
  then show ?thesis using insert_live_some [OF assms(4,5), of inc] by simp
qed
text \<open>A property of records that survives a change of address and an adoption survives a merge.\<close>

lemma after_record_all:
  assumes "\<forall>c\<in>set clients. Q c" "Q inc" "\<And>c ip. Q c \<Longrightarrow> Q (c \<lparr>cc_vpn_ip := ip\<rparr>)"
    "\<And>e. e \<in> set clients \<Longrightarrow> cc_id e = cc_id inc \<Longrightarrow> cc_psk e = cc_psk inc \<Longrightarrow> incoming_wins H J e inc \<Longrightarrow>
      Q e \<Longrightarrow> Q (adopt_record e inc)"
  shows "\<forall>c\<in>set (after_record H J net part clients inc). Q c"
proof -
  have place: "\<forall>c\<in>set cs. Q c" if "place_live net part clients x = Some cs" "Q x" for x cs
    using that(1)
  proof (cases rule: place_live_cases)
    case (displace holder ip)
    have "set (update_first (holds_address_of x) (\<lambda>c. c \<lparr>cc_vpn_ip := ip\<rparr>) clients)
      \<subseteq> set clients \<union> (\<lambda>c. c \<lparr>cc_vpn_ip := ip\<rparr>) ` set clients"
      using set_update_first [of "holds_address_of x" "\<lambda>c. c \<lparr>cc_vpn_ip := ip\<rparr>" clients] by blast
    then show ?thesis using displace(3) assms(1,3) that(2) by fastforce
  qed (use assms(1,3) that(2) in auto)
  show ?thesis
  proof (cases rule: after_record_cases [of inc clients H J net part])
    case (adopt us e vs)
    have "e \<in> set clients" using adopt(1) by simp
    then show ?thesis using adopt assms(1) assms(4) [OF _ adopt(2-4)] by auto
  next
    case (live clients')
    from live(3) have "\<forall>c\<in>set clients'. Q c"
    proof (cases rule: insert_live_cases)
      case (1 inc')
      from place [OF 1(1)] 1(2) assms(2) show ?thesis by simp
    next
      case (2 ip)
      from place [OF 2(1) assms(3) [OF assms(2)]] show ?thesis .
    qed
    then show ?thesis using live(4) by simp
  qed (use assms(1,2) in auto)
qed

definition credentials :: "(rstring \<Rightarrow> bytes) \<Rightarrow> ClientConfig list \<Rightarrow> bool" where
  "credentials ps clients \<longleftrightarrow>
     distinct (map cc_id clients) \<and> (\<forall>c\<in>set clients. cc_psk c = ps (cc_id c) \<and> record_ok c)"

lemma after_record_credentials:
  assumes "credentials ps clients" "cc_psk inc = ps (cc_id inc)" "record_ok inc"
  shows "credentials ps (after_record H J net part clients inc)"
proof -
  have "\<forall>c\<in>set (after_record H J net part clients inc). cc_psk c = ps (cc_id c) \<and> record_ok c"
    by (rule after_record_all) (use assms in \<open>auto simp: credentials_def record_ok_def adopt_record_def\<close>)
  then show ?thesis using after_record_distinct assms(1) by (auto simp: credentials_def)
qed

lemma fold_record_credentials:
  "credentials ps clients \<Longrightarrow> (\<forall>c\<in>set incoming. cc_psk c = ps (cc_id c) \<and> record_ok c) \<Longrightarrow>
   credentials ps (foldl (after_record H J net part) clients incoming)"
  by (induction incoming arbitrary: clients) (simp_all add: after_record_credentials)

lemma fold_record_length:
  "length (foldl (after_record H J net part) clients incoming) \<le> length clients + length incoming"
  by (induction incoming arbitrary: clients)
    (simp_all, metis (no_types, opaque_lifting) add_Suc add_le_mono1 after_record_length le_trans)

lemma replica_Cons_join:
  "cc_id b \<notin> cc_id ` set bs \<Longrightarrow> join [cc_id b \<mapsto> version_of H J b] (replica H J bs) = replica H J (b # bs)"
  using replica_None [of H J bs "cc_id b"] by (auto simp: join_def replica_Cons combine_options_def split: option.splits)

lemma fold_record_replica:
  assumes "credentials ps clients" "credentials ps incoming" "partition_ok net part"
    "length clients + length incoming \<le> capacity net part"
  shows "replica H J (foldl (after_record H J net part) clients incoming) = join (replica H J clients) (replica H J incoming)"
  using assms
proof (induction incoming arbitrary: clients)
  case (Cons b bs)
  let ?cs = "after_record H J net part clients b"
  have b: "cc_psk b = ps (cc_id b)" "record_ok b" "credentials ps bs" "cc_id b \<notin> cc_id ` set bs"
    using Cons.prems(2) by (auto simp: credentials_def)
  have "replica H J ?cs = join (replica H J clients) [cc_id b \<mapsto> version_of H J b]"
    by (rule after_record_replica) (use Cons.prems b in \<open>auto simp: credentials_def\<close>)
  moreover have "replica H J (foldl (after_record H J net part) ?cs bs) = join (replica H J ?cs) (replica H J bs)"
    by (rule Cons.IH [OF after_record_credentials [OF Cons.prems(1) b(1,2)] b(3) Cons.prems(3)])
      (use after_record_length [of H J net part clients b] Cons.prems(4) in simp)
  ultimately show ?case using replica_Cons_join [OF b(4), of H J] by (simp add: join_assoc)
qed (simp add: replica_def)

section \<open>Digests agree on equal replicas\<close>

definition hashes :: "(bytes \<Rightarrow> bytes) \<Rightarrow> (ClientQos option \<Rightarrow> bytes) \<Rightarrow> ClientConfig list \<Rightarrow> rstring \<rightharpoonup> bytes" where
  "hashes H J clients = map_of (map (\<lambda>c. (cc_id c, record_canonical_hash H J c)) clients)"

lemma hashes_replica: "hashes H J cs i = map_option v_hash (replica H J cs i)"
  by (induction cs) (simp_all add: hashes_def replica_def version_of_def)

lemma hashes_lookup:
  "distinct (map cc_id cs) \<Longrightarrow> c \<in> set cs \<Longrightarrow> hashes H J cs (cc_id c) = Some (record_canonical_hash H J c)"
  by (simp add: hashes_def map_of_eq_Some_iff comp_def)

lemma dom_hashes: "dom (hashes H J cs) = cc_id ` set cs"
  by (simp add: hashes_def dom_map_of_conv_image_fst image_image)

lemma distinct_sort_ids: "distinct (map cc_id (sort_key cc_id cs)) \<longleftrightarrow> distinct (map cc_id cs)"
  by (simp add: distinct_map)

lemma sorted_records_eq:
  assumes "distinct (map cc_id xs)" "distinct (map cc_id ys)" "hashes H J xs = hashes H J ys"
  shows "map cc_id (sort_key cc_id xs) = map cc_id (sort_key cc_id ys)"
    "map (record_canonical_hash H J) (sort_key cc_id xs) = map (record_canonical_hash H J) (sort_key cc_id ys)"
proof -
  have "cc_id ` set xs = cc_id ` set ys" using assms(3) by (metis dom_hashes)
  then show ids: "map cc_id (sort_key cc_id xs) = map cc_id (sort_key cc_id ys)"
    using assms(1,2) by (intro sorted_distinct_set_unique) (simp_all add: distinct_sort_ids)
  have v: "map (record_canonical_hash H J) (sort_key cc_id zs) = map (the \<circ> hashes H J zs) (map cc_id (sort_key cc_id zs))"
    if "distinct (map cc_id zs)" for zs using hashes_lookup [OF that] by simp
  show "map (record_canonical_hash H J) (sort_key cc_id xs) = map (record_canonical_hash H J) (sort_key cc_id ys)"
    unfolding v [OF assms(1)] v [OF assms(2)] using ids assms(3) by simp
qed

lemma digest_of_hashes:
  assumes "distinct (map cc_id xs)" "distinct (map cc_id ys)" "hashes H J xs = hashes H J ys"
    "inj_on H (write_record_canonical_fields J ` (set xs \<union> set ys))"
  shows "state_digest H J xs = state_digest H J ys"
proof -
  let ?w = "write_record_canonical_fields J"
  let ?xs = "sort_key cc_id xs" and ?ys = "sort_key cc_id ys"
  note s = sorted_records_eq [OF assms(1-3)]
  have "map H (map ?w zs) = map (record_canonical_hash H J) zs" for zs by (simp add: record_canonical_hash_def)
  then have "map H (map ?w ?xs) = map H (map ?w ?ys)" using s(2) by metis
  then have "map ?w ?xs = map ?w ?ys"
    by (rule map_inj_on) (use assms(4) in \<open>simp add: image_Un\<close>)
  moreover have "length ?xs = length ?ys" using s(1) by (metis length_map)
  ultimately show ?thesis by (simp add: state_digest_def Let_def)
qed

lemma digest_of_replica:
  assumes "distinct (map cc_id xs)" "distinct (map cc_id ys)" "replica H J xs = replica H J ys"
    "inj_on H (write_record_canonical_fields J ` (set xs \<union> set ys))"
  shows "state_digest H J xs = state_digest H J ys"
  by (rule digest_of_hashes [OF assms(1,2) _ assms(4)]) (simp add: fun_eq_iff hashes_replica assms(3))
section \<open>Rounds of synchronisation\<close>

definition sync_from ::
    "(bytes \<Rightarrow> bytes) \<Rightarrow> (ClientQos option \<Rightarrow> bytes) \<Rightarrow> VpnNetworkConfig \<Rightarrow> PartitionBounds option \<Rightarrow>
     ClientDbFile \<Rightarrow> datetime \<times> ClientConfig list \<Rightarrow> ClientDbFile" where
  "sync_from H J net part data m = (case m of (now, incoming) \<Rightarrow> snd (merge_clients H J net part now incoming data))"

text \<open>A tombstone that is not reaped before the time \<open>T\<close>.\<close>

definition kept_until :: "datetime \<Rightarrow> ClientConfig \<Rightarrow> bool" where
  "kept_until T c \<longleftrightarrow> (cc_deleted c \<longrightarrow> (\<forall>t. cc_updated_at c = Some t \<longrightarrow> T - TOMBSTONE_TTL \<le> t))"

lemma reap_kept: "now \<le> T \<Longrightarrow> \<forall>c\<in>set cs. kept_until T c \<Longrightarrow> reap_expired_tombstones now cs = cs"
  by (fastforce simp: reap_expired_tombstones_def kept_until_def intro: filter_True split: option.splits)

definition replicated ::
    "(ClientQos option \<Rightarrow> bytes) \<Rightarrow> (rstring \<Rightarrow> bytes) \<Rightarrow> datetime \<Rightarrow> bytes set \<Rightarrow> ClientConfig list \<Rightarrow> bool" where
  "replicated J ps T K clients \<longleftrightarrow>
     credentials ps clients \<and> (\<forall>c\<in>set clients. kept_until T c \<and> write_record_canonical_fields J c \<in> K)"

lemma fold_record_replicated:
  assumes "replicated J ps T K clients" "replicated J ps T K incoming"
  shows "replicated J ps T K (foldl (after_record H J net part) clients incoming)"
proof -
  have step: "replicated J ps T K (after_record H J net part cs inc)"
    if "replicated J ps T K cs" "cc_psk inc = ps (cc_id inc)" "record_ok inc" "kept_until T inc"
      "write_record_canonical_fields J inc \<in> K" for cs inc
  proof -
    have "\<forall>c\<in>set (after_record H J net part cs inc). kept_until T c \<and> write_record_canonical_fields J c \<in> K"
      by (rule after_record_all)
        (use that in \<open>auto simp: replicated_def kept_until_def adopt_canonical\<close>)
    then show ?thesis using that after_record_credentials by (auto simp: replicated_def)
  qed
  have run: "replicated J ps T K cs \<Longrightarrow> \<forall>c\<in>set bs. cc_psk c = ps (cc_id c) \<and> record_ok c \<and> kept_until T c \<and>
      write_record_canonical_fields J c \<in> K \<Longrightarrow> replicated J ps T K (foldl (after_record H J net part) cs bs)" for cs bs
    by (induction bs arbitrary: cs) (simp_all add: step)
  show ?thesis by (rule run [OF assms(1)]) (use assms(2) in \<open>simp add: replicated_def credentials_def\<close>)
qed

lemma sync_from_clients:
  assumes "replicated J ps T K (db_clients data)" "replicated J ps T K incoming" "now \<le> T"
  shows "db_clients (sync_from H J net part data (now, incoming)) =
    foldl (after_record H J net part) (db_clients data) incoming"
proof -
  have "\<forall>c\<in>set (foldl (after_record H J net part) (db_clients data) incoming). kept_until T c"
    using fold_record_replicated [OF assms(1,2)] by (simp add: replicated_def)
  from reap_kept [OF assms(3) this] show ?thesis
    using merge_records_after [of H J net part "db_clients data" incoming 0]
    by (cases "merge_records H J net part (db_clients data) incoming 0") (simp add: sync_from_def merge_clients_def)
qed

lemma sync_rounds:
  assumes "replicated J ps T K (db_clients data)" "\<forall>(now, incoming)\<in>set ms. now \<le> T \<and> replicated J ps T K incoming"
    "partition_ok net part" "length (db_clients data) + sum_list (map (length \<circ> snd) ms) \<le> capacity net part"
  shows "replicated J ps T K (db_clients (foldl (sync_from H J net part) data ms)) \<and>
    replica H J (db_clients (foldl (sync_from H J net part) data ms)) =
      foldl join (replica H J (db_clients data)) (map (replica H J \<circ> snd) ms)"
  using assms
proof (induction ms arbitrary: data)
  case (Cons m ms)
  obtain now bs where m: "m = (now, bs)" by (cases m)
  let ?d = "sync_from H J net part data m"
  have b: "now \<le> T" "replicated J ps T K bs" using Cons.prems(2) m by auto
  have d: "db_clients ?d = foldl (after_record H J net part) (db_clients data) bs"
    unfolding m by (rule sync_from_clients [OF Cons.prems(1) b(2,1)])
  have r: "replicated J ps T K (db_clients ?d)" unfolding d by (rule fold_record_replicated [OF Cons.prems(1) b(2)])
  have "replica H J (db_clients ?d) = join (replica H J (db_clients data)) (replica H J bs)"
    unfolding d by (rule fold_record_replica) (use Cons.prems b m in \<open>auto simp: replicated_def\<close>)
  moreover have "length (db_clients ?d) + sum_list (map (length \<circ> snd) ms) \<le> capacity net part"
    using Cons.prems(4) fold_record_length [of H J net part "db_clients data" bs] d m by (simp add: comp_def)
  ultimately show ?case using Cons.IH [OF r _ Cons.prems(3)] Cons.prems(2) m by (simp add: comp_def)
qed simp

lemma foldl_join: "foldl join m ns = fold join ns m"
proof -
  have "foldl join m ns = fold (\<lambda>n m. join m n) ns m" by (rule foldl_conv_fold)
  moreover have "(\<lambda>n m. join m n) = join"
  proof (intro ext)
    show "join m n i = join n m i" for m n i by (subst join_commute) (rule refl)
  qed
  ultimately show ?thesis by simp
qed

lemma join_all_permuted:
  assumes "mset ms = mset ns"
  shows "fold join ms = fold join ns"
  using assms
proof (rule fold_multiset_equiv [rotated])
  show "join x \<circ> join y = join y \<circ> join x" for x y
    using join_assoc join_commute by (metis (no_types, opaque_lifting) comp_apply ext)
qed

text \<open>
  C10: Merging the records of a peer computes the join of the two replicated states: every client
  ends up with the greater of the two versions, where a deletion beats a live record, then
  the later timestamp wins, and a tie is broken by the hash.  The addresses may differ.
\<close>

theorem merge_refines_join:
  assumes "credentials ps clients" "credentials ps incoming" "partition_ok net part"
    "length clients + length incoming \<le> capacity net part"
  shows "replica H J (snd (merge_records H J net part clients incoming 0)) = join (replica H J clients) (replica H J incoming)"
  unfolding merge_records_after by (rule fold_record_replica [OF assms])

text \<open>
  C6: Nodes that have seen the same databases agree.  Whatever their own partitions are and in
  whatever order the databases of the pool reach them, two nodes end with the same state digest,
  provided that no tombstone has expired, no two records collide in the hash, every node has
  addresses left, and all copies of a client have the same key.
\<close>

theorem pool_converges:
  assumes "mset (db_clients a # map snd ms) = mset (db_clients b # map snd ns)"
    "\<forall>clients\<in>set (db_clients a # map snd ms). replicated J ps T K clients" "\<forall>(now, _)\<in>set (ms @ ns). now \<le> T"
    "inj_on H K" "partition_ok net p" "partition_ok net' q"
    "sum_list (map length (db_clients a # map snd ms)) \<le> min (capacity net p) (capacity net' q)"
  shows "state_digest H J (db_clients (foldl (sync_from H J net p) a ms)) =
    state_digest H J (db_clients (foldl (sync_from H J net' q) b ns))"
proof -
  have sets: "set (db_clients a # map snd ms) = set (db_clients b # map snd ns)" using assms(1) by (metis set_mset_mset)
  have "sum_list (map length (db_clients a # map snd ms)) = sum_list (map length (db_clients b # map snd ns))"
    using assms(1) by (metis mset_map sum_mset_sum_list)
  then have len: "length (db_clients a) + sum_list (map (length \<circ> snd) ms) \<le> capacity net p"
    "length (db_clients b) + sum_list (map (length \<circ> snd) ns) \<le> capacity net' q" using assms(7) by simp_all
  have ra: "replicated J ps T K (db_clients a)" "\<forall>(now, d)\<in>set ms. now \<le> T \<and> replicated J ps T K d"
    using assms(2,3) by auto
  have "\<forall>clients\<in>set (db_clients b # map snd ns). replicated J ps T K clients" using assms(2) unfolding sets .
  then have rb: "replicated J ps T K (db_clients b)" "\<forall>(now, d)\<in>set ns. now \<le> T \<and> replicated J ps T K d"
    using assms(3) by auto
  let ?x = "db_clients (foldl (sync_from H J net p) a ms)" and ?y = "db_clients (foldl (sync_from H J net' q) b ns)"
  note x = sync_rounds [OF ra assms(5) len(1), of H] and y = sync_rounds [OF rb assms(6) len(2), of H]
  have all: "foldl join m ns = fold join (m # ns) Map.empty" for m ns by (simp add: foldl_join)
  have "mset (map (replica H J) (db_clients a # map snd ms)) = mset (map (replica H J) (db_clients b # map snd ns))"
    using assms(1) by (metis mset_map)
  from join_all_permuted [OF this] have "replica H J ?x = replica H J ?y"
    using x y by (simp add: all comp_def)
  moreover have "inj_on H (write_record_canonical_fields J ` (set ?x \<union> set ?y))"
    by (rule inj_on_subset [OF assms(4)]) (use x y in \<open>auto simp: replicated_def\<close>)
  ultimately show ?thesis using x y by (intro digest_of_replica) (simp_all add: replicated_def credentials_def)
qed
definition sample_client :: "rstring \<Rightarrow> rstring \<Rightarrow> u32 \<Rightarrow> datetime \<Rightarrow> bool \<Rightarrow> ClientConfig" where
  "sample_client i name ip updated gone =
     \<lparr>cc_id = i, cc_name = name, cc_psk = [7], cc_vpn_ip = ip, cc_enabled = \<not> gone, cc_created_at = 0,
      cc_stats = ClientStats_default, cc_qos = None, cc_device_pubkey = None, cc_one_time = False, cc_expires_at = None,
      cc_updated_at = Some updated, cc_deleted = gone, cc_role = User, cc_exit_node = None\<rparr>"

lemma small_network_capacity: "4 \<le> capacity small_network None"
proof -
  let ?S = "{ip. (\<exists>off. in_range small_network None off \<and> ip_for_host_offset small_network off = Some ip) \<and>
    ip \<noteq> vnc_server_vpn_ip small_network}"
  have "\<exists>off. in_range small_network None off \<and> ip_for_host_offset small_network off = Some (0x0A000000 OR off')"
    if "off' \<in> {2, 3, 4, 5}" for off' using that
    by (intro exI [of _ off'])
      (auto simp: in_range_def offset_range_def ip_for_host_offset_def small_network_hosts small_network_base)
  from this [of 2] this [of 3] this [of 4] this [of 5] have "{0x0A000002, 0x0A000003, 0x0A000004, 0x0A000005} \<subseteq> ?S"
    by (simp add: small_network_base)
  then have "card {0x0A000002, 0x0A000003, 0x0A000004, 0x0A000005 :: u32} \<le> card ?S" by (intro card_mono) simp_all
  then show ?thesis by (simp add: capacity_def)
qed

lemma sample_credentials: "credentials (\<lambda>_. [7]) [sample_client i name ip updated gone]"
  by (simp add: credentials_def sample_client_def record_ok_def)

theorem merge_refines_join_witness:
  "\<exists>m. replica id (\<lambda>_. []) (snd (merge_records id (\<lambda>_. []) small_network None [sample_client [1] [1] 0x0A000002 5 False]
       [sample_client [1] [2] 0x0A000003 3 True] 0)) = m \<and> v_deleted (the (m [1]))"
proof -
  have "length [sample_client [1] [1] 0x0A000002 5 False] + length [sample_client [1] [2] 0x0A000003 3 True] \<le>
      capacity small_network None" using small_network_capacity by simp
  note merge_refines_join [OF sample_credentials sample_credentials _ this, of id "\<lambda>_. []"]
  moreover have "partition_ok small_network None" by (simp add: partition_ok_def)
  ultimately show ?thesis
    by (auto simp: replica_def join_def version_of_def sample_client_def max_def less_eq_version_def less_version_def)
qed

theorem pool_converges_witness:
  "state_digest id (\<lambda>_. []) (db_clients (foldl (sync_from id (\<lambda>_. []) small_network None)
      \<lparr>db_clients = [sample_client [1] [1] 0x0A000002 5 False], db_next_host_offset = 3\<rparr>
      [(0, [sample_client [1] [2] 0x0A000003 9 True])])) =
   state_digest id (\<lambda>_. []) (db_clients (foldl (sync_from id (\<lambda>_. []) small_network None)
      \<lparr>db_clients = [sample_client [1] [2] 0x0A000003 9 True], db_next_host_offset = 3\<rparr>
      [(0, [sample_client [1] [1] 0x0A000002 5 False])]))"
  by (rule pool_converges [where T = 0 and ps = "\<lambda>_. [7]" and K = UNIV])
    (use small_network_capacity in \<open>auto simp: partition_ok_def replicated_def kept_until_def sample_client_def
      TOMBSTONE_TTL_def credentials_def record_ok_def\<close>)

end
