(* ===== verification/Client_Sync.thy ===== *)
theory Client_Sync
  imports Client_Merge
begin

text \<open>
  The digests of \<open>aivpn-server/src/client_db/merge.rs\<close>: the canonical encoding of a record can be
  read in one way only, equal digests mean equal records, and exchanging the buckets that
  differ is as good as exchanging everything.
\<close>

section \<open>The canonical encoding is unambiguous\<close>

definition record_sized :: "(ClientQos option \<Rightarrow> bytes) \<Rightarrow> ClientConfig \<Rightarrow> bool" where
  "record_sized J c \<longleftrightarrow>
     length (cc_id c) < 2 ^ 32 \<and> length (cc_name c) < 2 ^ 32 \<and> length (J (cc_qos c)) < 2 ^ 32 \<and> length (cc_psk c) = 32 \<and>
     (\<forall>key. cc_device_pubkey c = Some key \<longrightarrow> length key = 32) \<and> (\<forall>addr. cc_exit_node c = Some addr \<longrightarrow> length addr < 2 ^ 32)"

lemma length_prefixed_inj:
  assumes "length a < 2 ^ 32" "length b < 2 ^ 32" "length_prefixed a @ x = length_prefixed b @ y"
  shows "a = b \<and> x = y"
proof -
  have "to_le 4 (of_nat (length a) :: u32) = to_le 4 (of_nat (length b) :: u32)" "a @ x = b @ y"
    using assms(3) by (simp_all add: length_prefixed_def)
  moreover from this(1) have "(of_nat (length a) :: u32) = of_nat (length b)" by (simp add: to_le_inj)
  then have "unat (of_nat (length a) :: u32) = unat (of_nat (length b) :: u32)" by simp
  then have "length a = length b" using assms(1,2) by (simp add: unat_of_nat)
  ultimately show ?thesis by simp
qed

lemma length_encode_opt_millis [simp]: "length (encode_opt_millis t) = 8"
  by (simp add: encode_opt_millis_def split: option.splits)

lemma canonical_prefix_free:
  assumes "record_sized J c" "record_sized J d"
    "write_record_canonical_fields J c @ x = write_record_canonical_fields J d @ y"
  shows "cc_id c = cc_id d \<and> write_record_canonical_fields J c = write_record_canonical_fields J d \<and> x = y"
proof -
  define dev where "dev c = (case cc_device_pubkey c of Some key \<Rightarrow> 1 # key | None \<Rightarrow> 0 # replicate 32 (0 :: u8))" for c :: ClientConfig
  define exit_bytes where "exit_bytes c = (case cc_exit_node c of Some addr \<Rightarrow> 1 # length_prefixed addr | None \<Rightarrow> [0 :: u8])" for c :: ClientConfig
  define tail where "tail c = cc_psk c @ length_prefixed (cc_name c) @
     [of_bool (cc_enabled c), of_bool (cc_deleted c), of_bool (cc_one_time c)] @
     encode_opt_millis (cc_updated_at c) @ encode_opt_millis (cc_expires_at c) @ dev c @
     length_prefixed (J (cc_qos c)) @ [rank (cc_role c)] @ exit_bytes c" for c :: ClientConfig
  have w: "write_record_canonical_fields J c = length_prefixed (cc_id c) @ tail c" for c
    by (simp add: write_record_canonical_fields_def tail_def dev_def exit_bytes_def)
  have dev: "length (dev c) = 33" if "record_sized J c" for c
    using that by (auto simp: dev_def record_sized_def split: option.splits)
  note sz = assms(1,2) [unfolded record_sized_def]
  have 1: "cc_id c = cc_id d" "tail c @ x = tail d @ y"
    using length_prefixed_inj [of "cc_id c" "cc_id d" "tail c @ x" "tail d @ y"] sz assms(3) by (simp_all add: w)
  let ?r = "\<lambda>c x. [of_bool (cc_enabled c), of_bool (cc_deleted c), of_bool (cc_one_time c)] @
     encode_opt_millis (cc_updated_at c) @ encode_opt_millis (cc_expires_at c) @ dev c @
     length_prefixed (J (cc_qos c)) @ [rank (cc_role c)] @ exit_bytes c @ x"
  have "cc_psk c = cc_psk d" and n: "length_prefixed (cc_name c) @ ?r c x = length_prefixed (cc_name d) @ ?r d y"
    using 1(2) sz by (simp_all add: tail_def)
  then have r: "cc_name c = cc_name d" "?r c x = ?r d y"
    using length_prefixed_inj [OF _ _ n] sz by blast+
  let ?q = "\<lambda>c x. length_prefixed (J (cc_qos c)) @ [rank (cc_role c)] @ exit_bytes c @ x"
  have m: "[of_bool (cc_enabled c), of_bool (cc_deleted c), of_bool (cc_one_time c) :: u8] =
      [of_bool (cc_enabled d), of_bool (cc_deleted d), of_bool (cc_one_time d)]"
    "encode_opt_millis (cc_updated_at c) = encode_opt_millis (cc_updated_at d)"
    "encode_opt_millis (cc_expires_at c) = encode_opt_millis (cc_expires_at d)" "dev c = dev d" and q: "?q c x = ?q d y"
    using r(2) dev [OF assms(1)] dev [OF assms(2)] by simp_all
  have j: "J (cc_qos c) = J (cc_qos d)" "[rank (cc_role c)] @ exit_bytes c @ x = [rank (cc_role d)] @ exit_bytes d @ y"
    using length_prefixed_inj [OF _ _ q] sz by blast+
  then have e: "rank (cc_role c) = rank (cc_role d)" "exit_bytes c @ x = exit_bytes d @ y" by simp_all
  have "exit_bytes c = exit_bytes d \<and> x = y"
  proof (cases "cc_exit_node c")
    case None
    then show ?thesis using e(2) by (cases "cc_exit_node d") (simp_all add: exit_bytes_def)
  next
    case (Some a)
    then obtain b where b: "cc_exit_node d = Some b" using e(2) by (cases "cc_exit_node d") (simp_all add: exit_bytes_def)
    then show ?thesis using Some e(2) sz length_prefixed_inj [of a b x y] by (simp add: exit_bytes_def)
  qed
  then have "tail c = tail d \<and> x = y" using \<open>cc_psk c = cc_psk d\<close> r(1) m j(1) e(1) by (simp add: tail_def)
  then show ?thesis using 1(1) by (simp add: w)
qed





section \<open>Exchanging only the buckets that differ\<close>

definition bucket_of :: "(bytes \<Rightarrow> bytes) \<Rightarrow> (ClientQos option \<Rightarrow> bytes) \<Rightarrow> ClientConfig list \<Rightarrow> nat \<Rightarrow> (rstring \<times> bytes) list" where
  "bucket_of H J clients i =
     map (\<lambda>c. (cc_id c, record_canonical_hash H J c)) (filter (\<lambda>c. bucket_index_for_id H (cc_id c) = i) clients)"

lemma bucket_index_less: "bucket_index_for_id H i < POOL_SYNC_BUCKETS"
  by (simp add: bucket_index_for_id_def POOL_SYNC_BUCKETS_def)

lemma chunks8_concat: "\<forall>d\<in>set ds. length d = 8 \<Longrightarrow> chunks8 (concat ds) = ds"
  by (induction ds) (simp_all add: chunks8.simps)

lemma length_concat8: "\<forall>d\<in>set ds. length d = 8 \<Longrightarrow> length (concat ds) = 8 * length ds"
  by (induction ds) simp_all

lemma set_map_filter_differing:
  "set (List.map_filter (\<lambda>(i, l, p). if l \<noteq> p then Some (f i) else None) (map (\<lambda>i. (i, g i, h i)) is)) =
   f ` {i \<in> set is. g i \<noteq> h i}"
  by (induction "is") (auto simp: map_filter_simps)

lemma differing_of_digests:
  assumes "\<And>b. length (H b) = 32"
  shows "set (differing_pool_buckets (bucket_digests H J xs) (bucket_digests H J ys)) =
    of_nat ` {i. i < POOL_SYNC_BUCKETS \<and> bucket_digest H (bucket_of H J xs i) \<noteq> bucket_digest H (bucket_of H J ys i)}"
proof -
  let ?d = "\<lambda>cs. map (\<lambda>i. bucket_digest H (bucket_of H J cs i)) [0..<POOL_SYNC_BUCKETS]"
  have c: "bucket_digests H J cs = concat (?d cs)" for cs by (simp add: bucket_digests_def bucket_of_def)
  have l: "\<forall>d\<in>set (?d cs). length d = 8" for cs using assms by (auto simp: bucket_digest_def)
  have z: "enumerate 0 (zip (?d xs) (?d ys)) =
      map (\<lambda>i. (i, bucket_digest H (bucket_of H J xs i), bucket_digest H (bucket_of H J ys i))) [0..<POOL_SYNC_BUCKETS]"
    by (rule nth_equalityI) (simp_all add: nth_enumerate_eq)
  have "length (concat (?d cs)) = 8 * POOL_SYNC_BUCKETS" for cs using length_concat8 [OF l, of cs] by simp
  then have "differing_pool_buckets (bucket_digests H J xs) (bucket_digests H J ys) =
      List.map_filter (\<lambda>(i, l, p). if l \<noteq> p then Some (of_nat i) else None) (enumerate 0 (zip (?d xs) (?d ys)))"
    by (simp only: c differing_pool_buckets_def chunks8_concat [OF l]) simp
  then show ?thesis unfolding z by (simp add: set_map_filter_differing)
qed

lemma replica_filter:
  "replica H J (filter (\<lambda>c. Q (cc_id c)) cs) i = (if Q i then replica H J cs i else None)"
  by (induction cs) (auto simp: replica_def)

lemma bucket_hashes_subset:
  assumes "distinct (map cc_id ys)" "\<forall>c\<in>set xs \<union> set ys. record_sized J c"
    "inj_on H (write_record_canonical_fields J ` (set xs \<union> set ys))"
    "snd ` set (bucket_of H J xs b) \<subseteq> snd ` set (bucket_of H J ys b)" "c \<in> set xs" "bucket_index_for_id H (cc_id c) = b"
  shows "hashes H J ys (cc_id c) = Some (record_canonical_hash H J c)"
proof -
  have "record_canonical_hash H J c \<in> snd ` set (bucket_of H J ys b)"
    using assms(4-6) by (force simp: bucket_of_def)
  then obtain d where d: "d \<in> set ys" "record_canonical_hash H J d = record_canonical_hash H J c" by (auto simp: bucket_of_def)
  then have "write_record_canonical_fields J d = write_record_canonical_fields J c"
    using assms(3,5) by (auto simp: record_canonical_hash_def inj_on_def)
  then have "cc_id d = cc_id c" using canonical_prefix_free [of J d c "[]" "[]"] assms(2,5) d(1) by simp
  then show ?thesis using hashes_lookup [OF assms(1) d(1), of H J] d(2) by simp
qed

lemma equal_bucket_hashes:
  assumes "distinct (map cc_id xs)" "distinct (map cc_id ys)" "\<forall>c\<in>set xs \<union> set ys. record_sized J c"
    "inj_on H (write_record_canonical_fields J ` (set xs \<union> set ys))"
    "map snd (sort_key fst (bucket_of H J xs b)) = map snd (sort_key fst (bucket_of H J ys b))" "bucket_index_for_id H i = b"
  shows "hashes H J xs i = hashes H J ys i"
proof -
  have "set (map snd (sort_key fst (bucket_of H J xs b))) = set (map snd (sort_key fst (bucket_of H J ys b)))" using assms(5) by simp
  then have s: "snd ` set (bucket_of H J xs b) = snd ` set (bucket_of H J ys b)" by simp
  have swap: "\<forall>c\<in>set ys \<union> set xs. record_sized J c" "inj_on H (write_record_canonical_fields J ` (set ys \<union> set xs))"
    using assms(3,4) by (simp_all add: Un_commute)
  show ?thesis
  proof (cases "hashes H J xs i")
    case (Some h)
    then obtain c where c: "c \<in> set xs" "cc_id c = i" "h = record_canonical_hash H J c"
      unfolding hashes_def by (auto dest!: map_of_SomeD)
    from bucket_hashes_subset [OF assms(2-4) _ c(1), of b] s c assms(6) Some show ?thesis by simp
  next
    case None
    show ?thesis
    proof (cases "hashes H J ys i")
      case (Some h)
      then obtain c where c: "c \<in> set ys" "cc_id c = i" "h = record_canonical_hash H J c"
        unfolding hashes_def by (auto dest!: map_of_SomeD)
      from bucket_hashes_subset [OF assms(1) swap _ c(1), of b] s c assms(6) None show ?thesis by simp
    qed (simp add: None)
  qed
qed

lemma hash_of_join:
  "map_option v_hash (m i) = map_option v_hash (n i) \<Longrightarrow> map_option v_hash (join m n i) = map_option v_hash (m i)"
  by (auto simp: join_def combine_options_def max_def split: option.splits)

text \<open>
  C25: Exchanging only the buckets whose digests differ is as good as exchanging the whole
  database: merging the records of those buckets leaves a node with the same state digest as
  merging all records of the peer.
\<close>

theorem delta_sync_equals_full_sync:
  assumes "replicated J ps T K xs" "replicated J ps T K ys" "\<forall>c\<in>set xs \<union> set ys. record_sized J c"
    "inj_on H K" "\<And>b. length (H b) = 32" "partition_ok net part" "length xs + length ys \<le> capacity net part"
    "\<forall>i < POOL_SYNC_BUCKETS. bucket_digest H (bucket_of H J xs i) = bucket_digest H (bucket_of H J ys i) \<longrightarrow>
      map snd (sort_key fst (bucket_of H J xs i)) = map snd (sort_key fst (bucket_of H J ys i))"
    "delta = clients_for_buckets H ys (differing_pool_buckets (bucket_digests H J xs) (bucket_digests H J ys))"
  shows "state_digest H J (snd (merge_records H J net part xs delta 0)) = state_digest H J (snd (merge_records H J net part xs ys 0))"
proof -
  define D where "D = {i. i < POOL_SYNC_BUCKETS \<and> bucket_digest H (bucket_of H J xs i) \<noteq> bucket_digest H (bucket_of H J ys i)}"
  have "(of_nat (bucket_index_for_id H i) :: u16) \<in> of_nat ` D \<longleftrightarrow> bucket_index_for_id H i \<in> D" for i
  proof -
    have "(of_nat a :: u16) = of_nat b \<longleftrightarrow> a = b" if "a < 64" "b < 64" for a b
      using that by (simp add: word_unat_eq_iff unat_of_nat)
    then show ?thesis using bucket_index_less [of H i] by (auto simp: D_def POOL_SYNC_BUCKETS_def)
  qed
  then have delta: "delta = filter (\<lambda>c. bucket_index_for_id H (cc_id c) \<in> D) ys"
    unfolding assms(9) clients_for_buckets_def differing_of_digests [OF assms(5)] D_def by simp
  have rd: "replicated J ps T K delta"
    using assms(2) by (auto simp: delta replicated_def credentials_def distinct_map_filter)
  have cred: "credentials ps xs" "credentials ps ys" "credentials ps delta"
    using assms(1,2) rd by (simp_all add: replicated_def)
  have "length delta \<le> length ys" by (simp add: delta)
  then have cap: "length xs + length delta \<le> capacity net part" using assms(7) by simp
  let ?full = "foldl (after_record H J net part) xs ys" and ?part = "foldl (after_record H J net part) xs delta"
  have full: "replica H J ?full = join (replica H J xs) (replica H J ys)"
    by (rule fold_record_replica [OF cred(1,2) assms(6,7)])
  have part: "replica H J ?part = join (replica H J xs) (replica H J delta)"
    by (rule fold_record_replica [OF cred(1,3) assms(6) cap])
  have K: "inj_on H (write_record_canonical_fields J ` (set xs \<union> set ys))"
    by (rule inj_on_subset [OF assms(4)]) (use assms(1,2) in \<open>auto simp: replicated_def\<close>)
  have "hashes H J ?part i = hashes H J ?full i" for i
  proof (cases "bucket_index_for_id H i \<in> D")
    case True
    then have "replica H J delta i = replica H J ys i"
      using replica_filter [of H J "\<lambda>i. bucket_index_for_id H i \<in> D" ys i] by (simp add: delta)
    then show ?thesis by (simp add: hashes_replica full part join_def)
  next
    case False
    then have "replica H J delta i = None"
      using replica_filter [of H J "\<lambda>i. bucket_index_for_id H i \<in> D" ys i] by (simp add: delta)
    then have "replica H J ?part i = replica H J xs i" by (simp add: part join_def combine_options_def split: option.splits)
    moreover have "hashes H J xs i = hashes H J ys i"
      by (rule equal_bucket_hashes [OF _ _ assms(3) K _ refl])
        (use assms(8) False bucket_index_less [of H i] cred in \<open>auto simp: D_def credentials_def\<close>)
    ultimately show ?thesis
      using hash_of_join [of "replica H J xs" i "replica H J ys"] by (simp add: hashes_replica full)
  qed
  then have "hashes H J ?part = hashes H J ?full" by (rule ext)
  moreover have r: "replicated J ps T K ?part" "replicated J ps T K ?full"
    using fold_record_replicated assms(1,2) rd by blast+
  then have "inj_on H (write_record_canonical_fields J ` (set ?part \<union> set ?full))"
    by (intro inj_on_subset [OF assms(4)]) (auto simp: replicated_def)
  ultimately show ?thesis unfolding merge_records_after
    by (intro digest_of_hashes) (use r in \<open>simp_all add: replicated_def credentials_def\<close>)
qed
definition sum_hash :: "bytes \<Rightarrow> bytes" where
  "sum_hash bs = replicate 32 (sum_list bs)"

lemma sum_hash_names:
  "sum_list (write_record_canonical_fields (\<lambda>_. []) (sample_client [1] [2] 3 5 False \<lparr>cc_psk := replicate 32 7\<rparr>)) =
   sum_list (write_record_canonical_fields (\<lambda>_. []) (sample_client [1] [1] 2 5 False \<lparr>cc_psk := replicate 32 7\<rparr>)) + 1"
  by (simp add: write_record_canonical_fields_def length_prefixed_def sample_client_def)

theorem delta_sync_equals_full_sync_witness:
  "let x = sample_client [1] [1] 2 5 False \<lparr>cc_psk := replicate 32 7\<rparr>;
       y = sample_client [1] [2] 3 5 False \<lparr>cc_psk := replicate 32 7\<rparr>
   in state_digest sum_hash (\<lambda>_. []) (snd (merge_records sum_hash (\<lambda>_. []) small_network None [x]
        (clients_for_buckets sum_hash [y] (differing_pool_buckets (bucket_digests sum_hash (\<lambda>_. []) [x]) (bucket_digests sum_hash (\<lambda>_. []) [y]))) 0)) =
      state_digest sum_hash (\<lambda>_. []) (snd (merge_records sum_hash (\<lambda>_. []) small_network None [x] [y] 0))"
proof -
  define x where "x = sample_client [1] [1] 2 5 False \<lparr>cc_psk := replicate 32 7\<rparr>"
  define y where "y = sample_client [1] [2] 3 5 False \<lparr>cc_psk := replicate 32 7\<rparr>"
  let ?w = "write_record_canonical_fields (\<lambda>_. [])"
  have s: "sum_list (?w y) = sum_list (?w x) + 1" unfolding x_def y_def by (rule sum_hash_names)
  have r: "replicated (\<lambda>_. []) (\<lambda>_. replicate 32 7) 0 {?w x, ?w y} [x]" "replicated (\<lambda>_. []) (\<lambda>_. replicate 32 7) 0 {?w x, ?w y} [y]"
    by (simp_all add: replicated_def credentials_def record_ok_def kept_until_def x_def y_def sample_client_def)
  have sized: "\<forall>c\<in>set [x] \<union> set [y]. record_sized (\<lambda>_. []) c" by (simp add: record_sized_def x_def y_def sample_client_def)
  have i: "inj_on sum_hash {?w x, ?w y}" using s by (auto simp: inj_on_def sum_hash_def)
  have cap: "length [x] + length [y] \<le> capacity small_network None" using small_network_capacity by simp
  have b: "\<forall>i < POOL_SYNC_BUCKETS. bucket_digest sum_hash (bucket_of sum_hash (\<lambda>_. []) [x] i) =
      bucket_digest sum_hash (bucket_of sum_hash (\<lambda>_. []) [y] i) \<longrightarrow>
    map snd (sort_key fst (bucket_of sum_hash (\<lambda>_. []) [x] i)) = map snd (sort_key fst (bucket_of sum_hash (\<lambda>_. []) [y] i))"
  proof -
    have ids: "cc_id x = [1]" "cc_id y = [1]" by (simp_all add: x_def y_def sample_client_def)
    have "bucket_digest sum_hash [([1], sum_hash (?w x))] \<noteq> bucket_digest sum_hash [([1], sum_hash (?w y))]"
      using s by (simp add: bucket_digest_def sum_hash_def sum_list_replicate distrib_left)
    then show ?thesis by (auto simp: bucket_of_def ids record_canonical_hash_def)
  qed
  have "length (sum_hash bs) = 32" for bs by (simp add: sum_hash_def)
  from delta_sync_equals_full_sync [OF r sized i this _ cap b refl] show ?thesis
    by (simp add: x_def [symmetric] y_def [symmetric] partition_ok_def Let_def)
qed

end
