(* ===== verification/Client_Db.thy ===== *)
theory Client_Db
  imports Client_Sync
begin

text \<open>
  The operations of the client database: \<open>aivpn-server/src/client_db/mod.rs\<close>.  An operation is
  a function of the database file; \<open>with_mutation\<close> wraps it in the transaction that absorbs the
  file on disk first and rolls back on an error.  The outcomes of locking, reading and
  writing the file are arguments, as are random bytes; the reads of the clock inside one
  operation are one argument.
\<close>

section \<open>Absorbing the file on disk\<close>

definition max_opt_time :: "datetime option \<Rightarrow> datetime option \<Rightarrow> datetime option" where
  "max_opt_time a b =
     (case (a, b) of
        (Some a, Some b) \<Rightarrow> Some (max a b)
      | (Some a, None) \<Rightarrow> Some a
      | (None, Some b) \<Rightarrow> Some b
      | (None, None) \<Rightarrow> None)"

definition max_stats :: "ClientStats \<Rightarrow> ClientStats \<Rightarrow> ClientStats" where
  "max_stats a b =
     \<lparr>bytes_in = max (bytes_in a) (bytes_in b), bytes_out = max (bytes_out a) (bytes_out b),
      last_connected = max_opt_time (last_connected a) (last_connected b),
      total_connections = max (total_connections a) (total_connections b),
      last_handshake = max_opt_time (last_handshake a) (last_handshake b)\<rparr>"

definition absorb_one_client ::
    "(bytes \<Rightarrow> bytes) \<Rightarrow> (ClientQos option \<Rightarrow> bytes) \<Rightarrow> ClientConfig \<Rightarrow> ClientConfig \<Rightarrow> ClientConfig" where
  "absorb_one_client H J mem disk =
     (let disk_newer = (case (cc_updated_at disk, cc_updated_at mem) of
            (Some d, Some m) \<Rightarrow> d > m | (Some _, None) \<Rightarrow> True | _ \<Rightarrow> False);
          mem_newer = (case (cc_updated_at disk, cc_updated_at mem) of
            (Some d, Some m) \<Rightarrow> m > d | (None, Some _) \<Rightarrow> True | _ \<Rightarrow> False);
          digest_differs = (client_record_digest H J disk \<noteq> client_record_digest H J mem \<or> cc_vpn_ip disk \<noteq> cc_vpn_ip mem);
          take_disk = (if disk_newer then True
                       else if mem_newer then False
                       else if cc_deleted disk \<noteq> cc_deleted mem then cc_deleted disk
                       else digest_differs);
          stats = max_stats (cc_stats mem) (cc_stats disk)
      in (if take_disk then disk else mem) \<lparr>cc_stats := stats\<rparr>)"

definition absorb_client ::
    "(bytes \<Rightarrow> bytes) \<Rightarrow> (ClientQos option \<Rightarrow> bytes) \<Rightarrow> ClientConfig list \<Rightarrow> ClientConfig \<Rightarrow> ClientConfig list" where
  "absorb_client H J clients d =
     (if find (\<lambda>c. cc_id c = cc_id d) clients \<noteq> None
      then update_first (\<lambda>c. cc_id c = cc_id d) (\<lambda>mem. absorb_one_client H J mem d) clients
      else clients @ [d])"

fun absorb_loop ::
    "(bytes \<Rightarrow> bytes) \<Rightarrow> (ClientQos option \<Rightarrow> bytes) \<Rightarrow> ClientConfig list \<Rightarrow> ClientConfig list \<Rightarrow> ClientConfig list" where
  "absorb_loop H J clients [] = clients"
| "absorb_loop H J clients (d # ds) = absorb_loop H J (absorb_client H J clients d) ds"

definition client_snapshot_sig ::
    "(bytes \<Rightarrow> bytes) \<Rightarrow> (ClientQos option \<Rightarrow> bytes) \<Rightarrow> ClientDbFile \<Rightarrow> (bytes \<times> u32 \<times> u32) list" where
  "client_snapshot_sig H J data =
     sort_key fst (map (\<lambda>c. (client_record_digest H J c, cc_vpn_ip c, db_next_host_offset data)) (db_clients data))"

definition absorb_disk_locked ::
    "(bytes \<Rightarrow> bytes) \<Rightarrow> (ClientQos option \<Rightarrow> bytes) \<Rightarrow> datetime \<Rightarrow> ClientDbFile option result \<Rightarrow> ClientDbFile \<Rightarrow>
     bool result \<times> ClientDbFile" where
  "absorb_disk_locked H J now snapshot data =
     (case snapshot of
        Inl e \<Rightarrow> (Inl e, data)
      | Inr disk \<Rightarrow>
          (let absorbed = (case disk of
                 None \<Rightarrow> data
               | Some disk \<Rightarrow>
                   \<lparr>db_clients = absorb_loop H J (db_clients data) (db_clients disk),
                    db_next_host_offset = max (db_next_host_offset data) (db_next_host_offset disk)\<rparr>);
               reaped = absorbed \<lparr>db_clients := reap_expired_tombstones now (db_clients absorbed)\<rparr>
           in (Inr (client_snapshot_sig H J reaped \<noteq> client_snapshot_sig H J data), reaped)))"

definition restore_preserving_traffic :: "ClientDbFile \<Rightarrow> ClientDbFile \<Rightarrow> ClientDbFile" where
  "restore_preserving_traffic current snapshot =
     snapshot \<lparr>db_clients := map (\<lambda>client.
       case find (\<lambda>c. cc_id c = cc_id client) (db_clients current) of
         Some live \<Rightarrow> client \<lparr>cc_stats := max_stats (cc_stats client) (cc_stats live)\<rparr>
       | None \<Rightarrow> client) (db_clients snapshot)\<rparr>"

definition with_mutation ::
    "(bytes \<Rightarrow> bytes) \<Rightarrow> (ClientQos option \<Rightarrow> bytes) \<Rightarrow> datetime \<Rightarrow> unit result \<Rightarrow> ClientDbFile option result \<Rightarrow> unit result \<Rightarrow>
     (ClientDbFile \<Rightarrow> 'r result \<times> ClientDbFile) \<Rightarrow> ClientDbFile \<Rightarrow> 'r result \<times> ClientDbFile" where
  "with_mutation H J now file_lock snapshot written f data =
     (case file_lock of
        Inl e \<Rightarrow> (Inl e, data)
      | Inr _ \<Rightarrow>
          (case absorb_disk_locked H J now snapshot data of
             (Inl e, data) \<Rightarrow> (Inl e, data)
           | (Inr _, rollback) \<Rightarrow>
               (case f rollback of
                  (Inl e, data) \<Rightarrow> (Inl e, restore_preserving_traffic data rollback)
                | (Inr r, data) \<Rightarrow>
                    (case written of
                       Inl e \<Rightarrow> (Inl e, restore_preserving_traffic data rollback)
                     | Inr _ \<Rightarrow> (Inr r, data)))))"

definition reload_from_disk ::
    "(bytes \<Rightarrow> bytes) \<Rightarrow> (ClientQos option \<Rightarrow> bytes) \<Rightarrow> datetime \<Rightarrow> unit result \<Rightarrow> ClientDbFile option result \<Rightarrow> ClientDbFile \<Rightarrow>
     bool result \<times> ClientDbFile" where
  "reload_from_disk H J now file_lock snapshot data =
     (case file_lock of Inl e \<Rightarrow> (Inl e, data) | Inr _ \<Rightarrow> absorb_disk_locked H J now snapshot data)"

definition load :: "VpnNetworkConfig \<Rightarrow> datetime \<Rightarrow> unit result \<Rightarrow> ClientDbFile option result \<Rightarrow> ClientDbFile result" where
  "load net now live_guard snapshot =
     bind (vnc_validate net) (\<lambda>_. bind live_guard (\<lambda>_. bind snapshot (\<lambda>disk.
       let data = (case disk of None \<Rightarrow> ClientDbFile_default | Some data \<Rightarrow> data)
       in Inr (data \<lparr>db_clients := reap_expired_tombstones now (db_clients data)\<rparr>))))"

section \<open>Operations\<close>

record CreateClientOptions =
  co_one_time :: bool
  co_expires_at :: "datetime option"
  co_role :: ClientRole
  co_qos :: "ClientQos option"

record UpdateClientParams =
  up_name :: "rstring option"
  up_enabled :: "bool option"
  up_one_time :: "bool option"
  up_qos :: "ClientQos option option"
  up_expires_at :: "datetime option option"
  up_role :: "ClientRole option"
  up_exit_node :: "rstring option option"

definition hex_id :: "bytes \<Rightarrow> rstring" where
  "hex_id bs = concat (map (\<lambda>b. [hex_digit (unat b div 16), hex_digit (unat b mod 16)]) bs)"

definition not_found :: "rstring \<Rightarrow> error" where
  "not_found i = SessionError (''Client '' @ [CHR 0x27] @ display i @ [CHR 0x27] @ '' not found'')"

definition insert_client ::
    "VpnNetworkConfig \<Rightarrow> PartitionBounds option \<Rightarrow> datetime \<Rightarrow> bytes \<Rightarrow> bytes \<Rightarrow> rstring \<Rightarrow> bytes option \<Rightarrow> bool \<Rightarrow>
     ClientDbFile \<Rightarrow> ClientConfig result \<times> ClientDbFile" where
  "insert_client net part now id_bytes psk name device_pubkey one_time data =
     (if list_ex (\<lambda>c. cc_name c = name \<and> \<not> cc_deleted c) (db_clients data)
      then (Inl (SessionError (''Client '' @ [CHR 0x27] @ display name @ [CHR 0x27] @ '' already exists'')), data)
      else case allocate_vpn_ip net part data of
        (Inl e, data) \<Rightarrow> (Inl e, data)
      | (Inr vpn_ip, data) \<Rightarrow>
          (let client = \<lparr>cc_id = hex_id id_bytes, cc_name = name, cc_psk = psk, cc_vpn_ip = vpn_ip, cc_enabled = True,
                 cc_created_at = now, cc_stats = ClientStats_default, cc_qos = None, cc_device_pubkey = device_pubkey,
                 cc_one_time = one_time, cc_expires_at = None, cc_updated_at = Some now, cc_deleted = False, cc_role = User,
                 cc_exit_node = None\<rparr>
           in (Inr client, data \<lparr>db_clients := db_clients data @ [client]\<rparr>)))"

definition add_client_with_options ::
    "VpnNetworkConfig \<Rightarrow> PartitionBounds option \<Rightarrow> datetime \<Rightarrow> bytes \<Rightarrow> bytes \<Rightarrow> rstring \<Rightarrow> CreateClientOptions \<Rightarrow>
     ClientDbFile \<Rightarrow> ClientConfig result \<times> ClientDbFile" where
  "add_client_with_options net part now id_bytes psk name options data =
     (if co_role options \<noteq> User then (Inl (SessionError ''elevated role requires device binding''), data)
      else case insert_client net part now id_bytes psk name None (co_one_time options) data of
        (Inl e, data) \<Rightarrow> (Inl e, data)
      | (Inr _, data) \<Rightarrow>
          (case db_clients data of
             [] \<Rightarrow> (Inl Panic, data)
           | cs \<Rightarrow>
               (let client = (last cs) \<lparr>cc_expires_at := co_expires_at options, cc_qos := co_qos options, cc_role := co_role options\<rparr>
                in (Inr client, data \<lparr>db_clients := butlast cs @ [client]\<rparr>))))"

definition add_client ::
    "VpnNetworkConfig \<Rightarrow> PartitionBounds option \<Rightarrow> datetime \<Rightarrow> bytes \<Rightarrow> bytes \<Rightarrow> rstring \<Rightarrow> ClientDbFile \<Rightarrow>
     ClientConfig result \<times> ClientDbFile" where
  "add_client net part now id_bytes psk name = insert_client net part now id_bytes psk name None False"

definition add_client_bound ::
    "VpnNetworkConfig \<Rightarrow> PartitionBounds option \<Rightarrow> datetime \<Rightarrow> bytes \<Rightarrow> bytes \<Rightarrow> rstring \<Rightarrow> bytes \<Rightarrow> ClientDbFile \<Rightarrow>
     ClientConfig result \<times> ClientDbFile" where
  "add_client_bound net part now id_bytes psk name device = insert_client net part now id_bytes psk name (Some device) False"

definition add_client_one_time ::
    "VpnNetworkConfig \<Rightarrow> PartitionBounds option \<Rightarrow> datetime \<Rightarrow> bytes \<Rightarrow> bytes \<Rightarrow> rstring \<Rightarrow> ClientDbFile \<Rightarrow>
     ClientConfig result \<times> ClientDbFile" where
  "add_client_one_time net part now id_bytes psk name = insert_client net part now id_bytes psk name None True"

definition add_client_one_time_bound ::
    "VpnNetworkConfig \<Rightarrow> PartitionBounds option \<Rightarrow> datetime \<Rightarrow> bytes \<Rightarrow> bytes \<Rightarrow> rstring \<Rightarrow> bytes \<Rightarrow> ClientDbFile \<Rightarrow>
     ClientConfig result \<times> ClientDbFile" where
  "add_client_one_time_bound net part now id_bytes psk name device =
     insert_client net part now id_bytes psk name (Some device) True"
text \<open>\<open>iter_mut().find(..).ok_or_else(..)?\<close>, then a change of the record found.\<close>

definition on_client ::
    "(ClientConfig \<Rightarrow> bool) \<Rightarrow> rstring \<Rightarrow> (ClientConfig \<Rightarrow> 'r result \<times> ClientConfig) \<Rightarrow> ClientDbFile \<Rightarrow> 'r result \<times> ClientDbFile" where
  "on_client P client_id f data =
     (case find P (db_clients data) of
        None \<Rightarrow> (Inl (not_found client_id), data)
      | Some client \<Rightarrow>
          (case f client of (r, client') \<Rightarrow> (r, data \<lparr>db_clients := update_first P (\<lambda>_. client') (db_clients data)\<rparr>)))"

definition enroll_device :: "datetime \<Rightarrow> rstring \<Rightarrow> bytes \<Rightarrow> ClientDbFile \<Rightarrow> bool result \<times> ClientDbFile" where
  "enroll_device now client_id static_pub =
     on_client (\<lambda>c. cc_id c = client_id) client_id (\<lambda>client.
       let enforce = (cc_one_time client \<or> cc_role client \<noteq> User) in
       case cc_device_pubkey client of
         None \<Rightarrow>
           (if cc_role client \<noteq> User then (Inl (SessionError ''elevated role requires existing device binding''), client)
            else (Inr True, client \<lparr>cc_device_pubkey := Some static_pub, cc_updated_at := Some now\<rparr>))
       | Some bound \<Rightarrow>
           (if bound = static_pub then (Inr False, client)
            else if enforce
            then (Inl (SessionError (''Device binding mismatch for client '' @ [CHR 0x27] @ display client_id @ [CHR 0x27])), client)
            else (Inr True, client \<lparr>cc_device_pubkey := Some static_pub, cc_updated_at := Some now\<rparr>)))"

definition reset_device_binding :: "datetime \<Rightarrow> rstring \<Rightarrow> ClientDbFile \<Rightarrow> unit result \<times> ClientDbFile" where
  "reset_device_binding now client_id =
     on_client (\<lambda>c. cc_id c = client_id) client_id (\<lambda>client.
       (Inr (), client \<lparr>cc_device_pubkey := None, cc_one_time := True, cc_role := User, cc_updated_at := Some now\<rparr>))"

definition remove_client :: "datetime \<Rightarrow> rstring \<Rightarrow> ClientDbFile \<Rightarrow> unit result \<times> ClientDbFile" where
  "remove_client now client_id =
     on_client (\<lambda>c. cc_id c = client_id \<and> \<not> cc_deleted c) client_id (\<lambda>client.
       (Inr (), client \<lparr>cc_deleted := True, cc_enabled := False, cc_device_pubkey := None, cc_updated_at := Some now\<rparr>))"

definition set_client_qos :: "datetime \<Rightarrow> rstring \<Rightarrow> ClientQos \<Rightarrow> ClientDbFile \<Rightarrow> unit result \<times> ClientDbFile" where
  "set_client_qos now client_id qos =
     on_client (\<lambda>c. cc_id c = client_id \<and> \<not> cc_deleted c) client_id (\<lambda>client.
       (Inr (), client \<lparr>cc_qos := Some qos, cc_updated_at := Some now\<rparr>))"

text \<open>\<open>str::trim\<close> removes the characters with the Unicode property White\_Space, here as UTF-8 bytes.\<close>

fun blank :: "rstring \<Rightarrow> bool" where
  "blank [] = True"
| "blank (a # s) =
     (if a = 32 \<or> (9 \<le> a \<and> a \<le> 13) then blank s
      else if a = 0xC2
      then (case s of b # s' \<Rightarrow> (b = 0x85 \<or> b = 0xA0) \<and> blank s' | [] \<Rightarrow> False)
      else (case s of
              b # c # s' \<Rightarrow>
                ((a = 0xE1 \<and> b = 0x9A \<and> c = 0x80) \<or>
                 (a = 0xE2 \<and> b = 0x80 \<and> ((0x80 \<le> c \<and> c \<le> 0x8A) \<or> c = 0xA8 \<or> c = 0xA9 \<or> c = 0xAF)) \<or>
                 (a = 0xE2 \<and> b = 0x81 \<and> c = 0x9F) \<or> (a = 0xE3 \<and> b = 0x80 \<and> c = 0x80)) \<and> blank s'
            | _ \<Rightarrow> False))"

definition apply_params :: "datetime \<Rightarrow> UpdateClientParams \<Rightarrow> ClientConfig \<Rightarrow> ClientConfig" where
  "apply_params now p c =
     c \<lparr>cc_name := (case up_name p of Some x \<Rightarrow> x | None \<Rightarrow> cc_name c),
        cc_enabled := (case up_enabled p of Some x \<Rightarrow> x | None \<Rightarrow> cc_enabled c),
        cc_one_time := (case up_one_time p of Some x \<Rightarrow> x | None \<Rightarrow> cc_one_time c),
        cc_qos := (case up_qos p of Some x \<Rightarrow> x | None \<Rightarrow> cc_qos c),
        cc_expires_at := (case up_expires_at p of Some x \<Rightarrow> x | None \<Rightarrow> cc_expires_at c),
        cc_role := (case up_role p of Some x \<Rightarrow> x | None \<Rightarrow> cc_role c),
        cc_exit_node := (case up_exit_node p of Some x \<Rightarrow> x | None \<Rightarrow> cc_exit_node c),
        cc_updated_at := Some now\<rparr>"

text \<open>The checks before the transaction, and the operation inside it.\<close>

definition check_params :: "UpdateClientParams \<Rightarrow> unit result" where
  "check_params p =
     (if (case up_name p of Some name \<Rightarrow> blank name | None \<Rightarrow> False)
      then Inl (SessionError ''Client name must not be empty'')
      else case up_exit_node p of Some (Some addr) \<Rightarrow> validate_exit_node_addr addr | _ \<Rightarrow> Inr ())"

definition update_found :: "datetime \<Rightarrow> rstring \<Rightarrow> UpdateClientParams \<Rightarrow> ClientDbFile \<Rightarrow> ClientConfig result \<times> ClientDbFile" where
  "update_found now client_id p =
     on_client (\<lambda>c. cc_id c = client_id \<and> \<not> cc_deleted c) client_id (\<lambda>client.
       if (case up_role p of Some r \<Rightarrow> r | None \<Rightarrow> cc_role client) \<noteq> User \<and> cc_device_pubkey client = None
       then (Inl (SessionError ''role requires device binding''), client)
       else (Inr (apply_params now p client), apply_params now p client))"

definition update_client :: "datetime \<Rightarrow> rstring \<Rightarrow> UpdateClientParams \<Rightarrow> ClientDbFile \<Rightarrow> ClientConfig result \<times> ClientDbFile" where
  "update_client now client_id p data =
     (let taken = (\<lambda>new_name. list_ex (\<lambda>c. cc_name c = new_name \<and> cc_id c \<noteq> client_id \<and> \<not> cc_deleted c) (db_clients data))
      in case up_name p of
           Some new_name \<Rightarrow>
             (if taken new_name
              then (Inl (SessionError (''Client name '' @ [CHR 0x27] @ display new_name @ [CHR 0x27] @ '' already taken'')), data)
              else update_found now client_id p data)
         | None \<Rightarrow> update_found now client_id p data)"

definition record_handshake :: "datetime \<Rightarrow> rstring \<Rightarrow> ClientDbFile \<Rightarrow> ClientDbFile" where
  "record_handshake now client_id data =
     data \<lparr>db_clients := update_first (\<lambda>c. cc_id c = client_id) (\<lambda>c. c \<lparr>cc_stats := (cc_stats c)
       \<lparr>total_connections := total_connections (cc_stats c) + 1, last_handshake := Some now, last_connected := Some now\<rparr>\<rparr>)
       (db_clients data)\<rparr>"

definition record_traffic :: "datetime \<Rightarrow> rstring \<Rightarrow> u64 \<Rightarrow> u64 \<Rightarrow> ClientDbFile \<Rightarrow> ClientDbFile" where
  "record_traffic now client_id inc out data =
     data \<lparr>db_clients := update_first (\<lambda>c. cc_id c = client_id) (\<lambda>c. c \<lparr>cc_stats := (cc_stats c)
       \<lparr>bytes_in := bytes_in (cc_stats c) + inc, bytes_out := bytes_out (cc_stats c) + out, last_connected := Some now\<rparr>\<rparr>)
       (db_clients data)\<rparr>"

definition merge_from_json ::
    "(bytes \<Rightarrow> bytes) \<Rightarrow> (ClientQos option \<Rightarrow> bytes) \<Rightarrow> VpnNetworkConfig \<Rightarrow> PartitionBounds option \<Rightarrow> datetime \<Rightarrow>
     ClientConfig list \<Rightarrow> ClientDbFile \<Rightarrow> nat result \<times> ClientDbFile" where
  "merge_from_json H J net part now incoming data =
     (case merge_clients H J net part now incoming data of (merged, data) \<Rightarrow> (Inr merged, data))"
section \<open>Addresses stay unique\<close>

definition addresses_ok :: "VpnNetworkConfig \<Rightarrow> ClientConfig list \<Rightarrow> bool" where
  "addresses_ok net cs \<longleftrightarrow> distinct (map cc_id cs) \<and> distinct (live_ips cs) \<and> vnc_server_vpn_ip net \<notin> set (live_ips cs)"

lemma live_ips_iff: "ip \<in> set (live_ips cs) \<longleftrightarrow> (\<exists>c\<in>set cs. cc_vpn_ip c = ip \<and> \<not> cc_deleted c)"
  by (auto simp: live_ips_def)

lemma addresses_snoc:
  assumes "addresses_ok net cs" "cc_id x \<notin> cc_id ` set cs"
    "cc_deleted x \<or> (cc_vpn_ip x \<notin> set (live_ips cs) \<and> cc_vpn_ip x \<noteq> vnc_server_vpn_ip net)"
  shows "addresses_ok net (cs @ [x])"
  using assms by (auto simp: addresses_ok_def)

lemma addresses_place:
  assumes "addresses_ok net cs" "partition_ok net part" "place_live net part cs x = Some cs'" "cc_id x \<notin> cc_id ` set cs"
    "cc_vpn_ip x \<noteq> vnc_server_vpn_ip net" "\<not> cc_deleted x"
  shows "addresses_ok net cs'"
  using assms(3)
proof (cases rule: place_live_cases)
  case free
  have "\<not> holds_address_of x c" if "c \<in> set cs" for c using free(1) that by (auto simp: find_None_iff)
  moreover have "cc_id c \<noteq> cc_id x" if "c \<in> set cs" for c using assms(4) that by (metis imageI)
  ultimately have "cc_vpn_ip x \<notin> set (live_ips cs)" by (auto simp: holds_address_of_def live_ips_iff)
  then show ?thesis using free(2) assms by (simp add: addresses_snoc)
next
  case (displace holder ip)
  note ip = reassign_Some(2,3) [OF assms(2) displace(2)]
  from find_split [OF displace(1)] obtain us vs where s: "cs = us @ holder # vs" "holds_address_of x holder"
    "\<forall>u\<in>set us. \<not> holds_address_of x u" by blast
  have cs': "cs' = us @ holder \<lparr>cc_vpn_ip := ip\<rparr> # vs @ [x]"
    using displace(3) update_first_split [OF s(3,2), of "\<lambda>c. c \<lparr>cc_vpn_ip := ip\<rparr>" vs] s(1) by simp
  have "ip \<notin> set (live_ips cs)" using ip(2) by (simp add: already_used_iff)
  then show ?thesis using assms(1,4,5,6) s(1,2) ip(1) by (auto simp: cs' addresses_ok_def holds_address_of_def)
next
  case (rehome ip)
  note ip = reassign_Some(2,3) [OF assms(2) rehome(1)]
  then show ?thesis using rehome(2) assms by (simp add: addresses_snoc already_used_iff)
qed

lemma addresses_after_record:
  assumes "addresses_ok net cs" "partition_ok net part"
  shows "addresses_ok net (after_record H J net part cs inc)"
proof (cases rule: after_record_cases [of inc cs H J net part])
  case (adopt us e vs)
  have "\<not> cc_deleted inc \<Longrightarrow> \<not> cc_deleted e" using adopt(4) by (auto simp: incoming_wins_def)
  then show ?thesis using assms(1) adopt(1,5) by (cases "cc_deleted e") (auto simp: addresses_ok_def)
next
  case tombstone
  then show ?thesis using assms(1) by (simp add: addresses_snoc)
next
  case (live cs')
  from live(3) have "addresses_ok net cs'"
  proof (cases rule: insert_live_cases)
    case (1 inc')
    then show ?thesis using addresses_place [OF assms 1(1)] live(1,2) by simp
  next
    case (2 ip)
    then show ?thesis
      using addresses_place [OF assms 2(1)] live(1,2) reassign_Some(2) [OF assms(2) 2(2)] by simp
  qed
  then show ?thesis using live(4) by simp
qed (use assms(1) in simp_all)

lemma live_ips_reap [simp]: "live_ips (reap_expired_tombstones now cs) = live_ips cs"
  by (induction cs) (auto simp: reap_expired_tombstones_def)

lemma addresses_reap: "addresses_ok net cs \<Longrightarrow> addresses_ok net (reap_expired_tombstones now cs)"
  unfolding addresses_ok_def live_ips_reap by (simp add: reap_expired_tombstones_def distinct_map_filter)

lemma fold_record_addresses:
  "addresses_ok net cs \<Longrightarrow> partition_ok net part \<Longrightarrow> addresses_ok net (foldl (after_record H J net part) cs incoming)"
  by (induction incoming arbitrary: cs) (simp_all add: addresses_after_record)

lemma merge_clients_list:
  "db_clients (snd (merge_clients H J net part now incoming d)) =
   reap_expired_tombstones now (foldl (after_record H J net part) (db_clients d) incoming)"
  using merge_records_after [of H J net part "db_clients d" incoming 0]
  by (cases "merge_records H J net part (db_clients d) incoming 0") (simp add: merge_clients_def)

section \<open>Edits\<close>

text \<open>A client with a management role is bound to a device.\<close>

definition role_bound :: "ClientConfig \<Rightarrow> bool" where
  "role_bound c \<longleftrightarrow> (\<not> cc_deleted c \<longrightarrow> cc_role c \<noteq> User \<longrightarrow> cc_device_pubkey c \<noteq> None)"

text \<open>A tombstone that is not reaped before time \<open>T\<close>.\<close>

definition revoked :: "datetime \<Rightarrow> ClientConfig \<Rightarrow> bool" where
  "revoked T c \<longleftrightarrow> cc_deleted c \<and> (\<exists>t. cc_updated_at c = Some t \<and> T - TOMBSTONE_TTL \<le> t)"

text \<open>What every operation on one record respects.\<close>

definition edit :: "datetime \<Rightarrow> ClientConfig \<Rightarrow> ClientConfig \<Rightarrow> bool" where
  "edit T c c' \<longleftrightarrow>
     cc_id c' = cc_id c \<and> cc_vpn_ip c' = cc_vpn_ip c \<and> (cc_deleted c \<longrightarrow> cc_deleted c') \<and>
     (role_bound c \<longrightarrow> role_bound c') \<and> (revoked T c \<longrightarrow> revoked T c')"

lemma edit_refl [simp]: "edit T c c"
  by (simp add: edit_def)

lemma edit_stats [simp]: "edit T c (c \<lparr>cc_stats := s\<rparr>)"
  by (simp add: edit_def role_bound_def revoked_def)

definition edits :: "datetime \<Rightarrow> ClientConfig list \<Rightarrow> ClientConfig list \<Rightarrow> bool" where
  "edits T = list_all2 (edit T)"

lemma edits_refl [simp]: "edits T cs cs"
  by (simp add: edits_def list_all2_refl)

lemma edits_update_first:
  assumes "\<And>c. find P cs = Some c \<Longrightarrow> edit T c (f c)"
  shows "edits T cs (update_first P f cs)"
  using assms unfolding edits_def by (induction cs) (auto simp: list_all2_refl)

lemma edits_ids: "edits T cs cs' \<Longrightarrow> map cc_id cs' = map cc_id cs"
  unfolding edits_def by (induction rule: list_all2_induct) (auto simp: edit_def)

lemma edits_live_ips:
  "edits T cs cs' \<Longrightarrow> distinct (live_ips cs) \<Longrightarrow> distinct (live_ips cs') \<and> set (live_ips cs') \<subseteq> set (live_ips cs)"
  unfolding edits_def
proof (induction rule: list_all2_induct)
  case (Cons x xs y ys)
  then show ?case by (auto simp: edit_def split: if_splits)
qed simp

lemma addresses_edits: "addresses_ok net cs \<Longrightarrow> edits T cs cs' \<Longrightarrow> addresses_ok net cs'"
  using edits_ids [of T cs cs'] edits_live_ips [of T cs cs'] by (auto simp: addresses_ok_def)

lemma edits_all:
  assumes "edits T cs cs'" "\<And>c c'. edit T c c' \<Longrightarrow> Q c \<Longrightarrow> Q c'" "\<forall>c\<in>set cs. Q c"
  shows "\<forall>c\<in>set cs'. Q c"
  using assms(1,3) unfolding edits_def by (induction rule: list_all2_induct) (use assms(2) in auto)

section \<open>Changes\<close>

text \<open>Every operation changes the list of clients by a sequence of these.\<close>

inductive change ::
    "(bytes \<Rightarrow> bytes) \<Rightarrow> (ClientQos option \<Rightarrow> bytes) \<Rightarrow> VpnNetworkConfig \<Rightarrow> PartitionBounds option \<Rightarrow>
     (ClientConfig \<Rightarrow> bool) \<Rightarrow> datetime \<Rightarrow> ClientConfig list \<Rightarrow> ClientConfig list \<Rightarrow> bool"
  for H J net part R T where
  edited: "edits T cs cs' \<Longrightarrow> change H J net part R T cs cs'"
| added: "cc_id x \<notin> cc_id ` set cs \<Longrightarrow> cc_vpn_ip x \<notin> set (live_ips cs) \<Longrightarrow> cc_vpn_ip x \<noteq> vnc_server_vpn_ip net \<Longrightarrow>
    role_bound x \<Longrightarrow> change H J net part R T cs (cs @ [x])"
| buried: "cc_id x \<notin> cc_id ` set cs \<Longrightarrow> cc_deleted x \<Longrightarrow> change H J net part R T cs (cs @ [x])"
| merged: "R inc \<Longrightarrow> change H J net part R T cs (after_record H J net part cs inc)"
| reaped: "now \<le> T \<Longrightarrow> change H J net part R T cs (reap_expired_tombstones now cs)"

lemma change_addresses:
  assumes "change H J net part R T cs cs'" "partition_ok net part" "addresses_ok net cs"
  shows "addresses_ok net cs'"
  using assms by cases (simp_all add: addresses_edits addresses_snoc addresses_after_record addresses_reap)

lemma role_bound_ip [simp]: "role_bound (c \<lparr>cc_vpn_ip := ip\<rparr>) = role_bound c"
  by (simp add: role_bound_def)

lemma role_bound_adopt: "role_bound i \<Longrightarrow> role_bound (adopt_record e i)"
  by (simp add: role_bound_def adopt_record_def)

lemma change_bound:
  assumes "change H J net part role_bound T cs cs'" "\<forall>c\<in>set cs. role_bound c"
  shows "\<forall>c\<in>set cs'. role_bound c"
  using assms(1)
proof cases
  case edited
  then show ?thesis by (rule edits_all [OF _ _ assms(2)]) (simp add: edit_def)
next
  case buried
  then show ?thesis using assms(2) by (simp add: role_bound_def)
next
  case (merged inc)
  show ?thesis unfolding merged(1)
    by (rule after_record_all [OF assms(2) merged(2)]) (use role_bound_adopt [OF merged(2)] in simp_all)
qed (use assms(2) in \<open>simp_all add: reap_expired_tombstones_def\<close>)

definition revoked_id :: "datetime \<Rightarrow> rstring \<Rightarrow> ClientConfig list \<Rightarrow> bool" where
  "revoked_id T i cs \<longleftrightarrow> (\<exists>c\<in>set cs. cc_id c = i \<and> revoked T c)"

lemma revoked_adopt: "incoming_wins H J e inc \<Longrightarrow> revoked T e \<Longrightarrow> revoked T (adopt_record e inc)"
  by (auto simp: incoming_wins_def revoked_def strictly_newer_def Let_def split: bool.splits option.splits)

lemma revoked_place:
  assumes "place_live net part cs x = Some cs'" "revoked_id T i cs"
  shows "revoked_id T i cs'"
  using assms(1)
proof (cases rule: place_live_cases)
  case (displace holder ip)
  from find_split [OF displace(1)] obtain us vs where s: "cs = us @ holder # vs" "holds_address_of x holder"
    "\<forall>u\<in>set us. \<not> holds_address_of x u" by blast
  have "cs' = us @ holder \<lparr>cc_vpn_ip := ip\<rparr> # vs @ [x]"
    using displace(3) update_first_split [OF s(3,2), of "\<lambda>c. c \<lparr>cc_vpn_ip := ip\<rparr>" vs] s(1) by simp
  then show ?thesis using assms(2) s(1) by (auto simp: revoked_id_def revoked_def)
qed (use assms(2) in \<open>auto simp: revoked_id_def\<close>)

lemma revoked_after_record:
  assumes "revoked_id T i cs"
  shows "revoked_id T i (after_record H J net part cs inc)"
proof (cases rule: after_record_cases [of inc cs H J net part])
  case (adopt us e vs)
  then show ?thesis using assms revoked_adopt [OF adopt(4), of T] by (auto simp: revoked_id_def)
next
  case (live cs')
  from live(3) show ?thesis
    by (cases rule: insert_live_cases) (use live(4) revoked_place [OF _ assms] in auto)
qed (use assms in \<open>auto simp: revoked_id_def\<close>)

lemma change_revoked:
  assumes "change H J net part R T cs cs'" "revoked_id T i cs"
  shows "revoked_id T i cs'"
  using assms(1)
proof cases
  case edited
  then show ?thesis using assms(2) unfolding edits_def revoked_id_def
    by (induction rule: list_all2_induct) (auto simp: edit_def)
next
  case (reaped now)
  then show ?thesis using assms(2) by (fastforce simp: revoked_id_def revoked_def reap_expired_tombstones_def)
qed (use assms(2) in \<open>auto simp: revoked_id_def revoked_after_record [unfolded revoked_id_def]\<close>)

lemma changes_keep:
  assumes "(change H J net part R T)\<^sup>*\<^sup>* cs cs'" "\<And>cs cs'. change H J net part R T cs cs' \<Longrightarrow> Q cs \<Longrightarrow> Q cs'" "Q cs"
  shows "Q cs'"
  using assms(1,3) by (induction rule: rtranclp_induct) (use assms(2) in auto)

section \<open>Operations are changes\<close>

definition outcome :: "'r result \<times> ClientDbFile \<Rightarrow> unit result \<times> ClientDbFile" where
  "outcome x = (case x of (Inl e, d) \<Rightarrow> (Inl e, d) | (Inr _, d) \<Rightarrow> (Inr (), d))"

text \<open>
  The operations a transaction may run on the database \<open>d\<close>.  A generated id is a new one; the
  records of a peer satisfy \<open>R\<close>.
\<close>

inductive client_op ::
    "(bytes \<Rightarrow> bytes) \<Rightarrow> (ClientQos option \<Rightarrow> bytes) \<Rightarrow> VpnNetworkConfig \<Rightarrow> PartitionBounds option \<Rightarrow>
     (ClientConfig \<Rightarrow> bool) \<Rightarrow> datetime \<Rightarrow> ClientDbFile \<Rightarrow> (ClientDbFile \<Rightarrow> unit result \<times> ClientDbFile) \<Rightarrow> bool"
  for H J net part R now d where
  op_add: "hex_id b \<notin> cc_id ` set (db_clients d) \<Longrightarrow>
    client_op H J net part R now d (\<lambda>d. outcome (insert_client net part now b psk name device one_time d))"
| op_add_options: "hex_id b \<notin> cc_id ` set (db_clients d) \<Longrightarrow>
    client_op H J net part R now d (\<lambda>d. outcome (add_client_with_options net part now b psk name options d))"
| op_enroll: "client_op H J net part R now d (\<lambda>d. outcome (enroll_device now i key d))"
| op_reset: "client_op H J net part R now d (\<lambda>d. outcome (reset_device_binding now i d))"
| op_remove: "client_op H J net part R now d (\<lambda>d. outcome (remove_client now i d))"
| op_update: "check_params p = Inr () \<Longrightarrow> client_op H J net part R now d (\<lambda>d. outcome (update_client now i p d))"
| op_qos: "client_op H J net part R now d (\<lambda>d. outcome (set_client_qos now i qos d))"
| op_merge: "\<forall>c\<in>set incoming. R c \<Longrightarrow>
    client_op H J net part R now d (\<lambda>d. outcome (merge_from_json H J net part now incoming d))"
| op_save: "client_op H J net part R now d (\<lambda>d. (Inr (), d))"

lemma snd_outcome [simp]: "snd (outcome x) = snd x"
  by (simp add: outcome_def split: prod.splits sum.splits)

lemma on_client_edits:
  assumes "\<And>c. c \<in> set (db_clients d) \<Longrightarrow> P c \<Longrightarrow> edit T c (snd (f c))"
  shows "edits T (db_clients d) (db_clients (snd (on_client P i f d)))"
proof (cases "find P (db_clients d)")
  case (Some c)
  have "edit T c (snd (f c))" using assms find_split [OF Some] by auto
  then show ?thesis using Some by (auto simp: on_client_def split: prod.splits intro!: edits_update_first)
qed (simp add: on_client_def)

lemma enroll_edits:
  "T - TOMBSTONE_TTL \<le> now \<Longrightarrow> edits T (db_clients d) (db_clients (snd (enroll_device now i key d)))"
  unfolding enroll_device_def
  by (rule on_client_edits) (auto simp: edit_def role_bound_def revoked_def Let_def split: option.splits)

lemma reset_edits:
  "T - TOMBSTONE_TTL \<le> now \<Longrightarrow> edits T (db_clients d) (db_clients (snd (reset_device_binding now i d)))"
  unfolding reset_device_binding_def by (rule on_client_edits) (auto simp: edit_def role_bound_def revoked_def)

lemma remove_edits: "edits T (db_clients d) (db_clients (snd (remove_client now i d)))"
  unfolding remove_client_def by (rule on_client_edits) (auto simp: edit_def role_bound_def revoked_def)

lemma qos_edits: "edits T (db_clients d) (db_clients (snd (set_client_qos now i qos d)))"
  unfolding set_client_qos_def by (rule on_client_edits) (auto simp: edit_def role_bound_def revoked_def)

lemma update_edits: "edits T (db_clients d) (db_clients (snd (update_client now i p d)))"
proof -
  have "edits T (db_clients d) (db_clients (snd (update_found now i p d)))"
    unfolding update_found_def
    by (rule on_client_edits) (auto simp: edit_def role_bound_def revoked_def apply_params_def)
  then show ?thesis by (simp add: update_client_def Let_def split: option.splits)
qed

lemma insert_client_cases:
  assumes "partition_ok net part" "insert_client net part now b psk name device one_time d = (r, d')"
  obtains (error) e where "r = Inl e" "db_clients d' = db_clients d"
  | (new) x where "r = Inr x" "db_clients d' = db_clients d @ [x]" "cc_id x = hex_id b" "cc_role x = User"
      "cc_vpn_ip x \<notin> set (live_ips (db_clients d))" "cc_vpn_ip x \<noteq> vnc_server_vpn_ip net" "\<not> cc_deleted x"
proof (cases "list_ex (\<lambda>c. cc_name c = name \<and> \<not> cc_deleted c) (db_clients d)")
  case True
  then have "r = Inl (SessionError (''Client '' @ [CHR 0x27] @ display name @ [CHR 0x27] @ '' already exists''))" "d' = d"
    using assms(2) by (simp_all add: insert_client_def)
  then show thesis by (intro error) simp_all
next
  case False
  obtain r1 d1 where a: "allocate_vpn_ip net part d = (r1, d1)" by (cases "allocate_vpn_ip net part d")
  from allocate_cases [OF assms(1) a] show thesis
  proof (elim disjE exE conjE)
    fix ip off assume ip: "r1 = Inr ip" "ip \<noteq> vnc_server_vpn_ip net" "\<not> already_used (db_clients d) ip" "db_clients d1 = db_clients d"
    define x where "x = \<lparr>cc_id = hex_id b, cc_name = name, cc_psk = psk, cc_vpn_ip = ip, cc_enabled = True, cc_created_at = now,
      cc_stats = ClientStats_default, cc_qos = None, cc_device_pubkey = device, cc_one_time = one_time, cc_expires_at = None,
      cc_updated_at = Some now, cc_deleted = False, cc_role = User, cc_exit_node = None\<rparr>"
    have "(Inr x, d1 \<lparr>db_clients := db_clients d1 @ [x]\<rparr>) = (r, d')"
      unfolding assms(2) [symmetric] insert_client_def if_not_P [OF False] a ip(1) prod.case sum.case Let_def x_def ..
    then have "r = Inr x" "db_clients d' = db_clients d @ [x]" using ip(4) by auto
    moreover have "cc_id x = hex_id b" "cc_role x = User" "cc_vpn_ip x = ip" "\<not> cc_deleted x" by (simp_all add: x_def)
    ultimately show thesis using ip(2,3) by (intro new) (simp_all add: already_used_iff)
  next
    fix m assume "r1 = Inl (SessionError m)" "d1 = d"
    then have "(Inl (SessionError m), d) = (r, d')"
      unfolding assms(2) [symmetric] insert_client_def if_not_P [OF False] a by simp
    then have "r = Inl (SessionError m)" "d' = d" by simp_all
    then show thesis by (intro error) simp_all
  qed
qed

lemma insert_client_change:
  assumes "partition_ok net part" "hex_id b \<notin> cc_id ` set (db_clients d)"
  shows "change H J net part R T (db_clients d) (db_clients (snd (insert_client net part now b psk name device one_time d)))"
proof -
  obtain r d' where i: "insert_client net part now b psk name device one_time d = (r, d')" by fastforce
  from assms(1) i show ?thesis
  proof (cases rule: insert_client_cases)
    case (new x)
    have "change H J net part R T (db_clients d) (db_clients d @ [x])"
      by (rule added) (use new(3-7) assms(2) in \<open>simp_all add: role_bound_def\<close>)
    then show ?thesis using i new(2) by simp
  qed (simp add: i edited)
qed

lemma add_options_change:
  assumes "partition_ok net part" "hex_id b \<notin> cc_id ` set (db_clients d)"
  shows "change H J net part R T (db_clients d) (db_clients (snd (add_client_with_options net part now b psk name options d)))"
proof (cases "co_role options = User")
  case True
  obtain r d' where i: "insert_client net part now b psk name None (co_one_time options) d = (r, d')" by fastforce
  from assms(1) i show ?thesis
  proof (cases rule: insert_client_cases)
    case (error e)
    then show ?thesis using True i by (simp add: add_client_with_options_def edited)
  next
    case (new x)
    let ?y = "x \<lparr>cc_expires_at := co_expires_at options, cc_qos := co_qos options, cc_role := co_role options\<rparr>"
    have "db_clients (snd (add_client_with_options net part now b psk name options d)) = db_clients d @ [?y]"
      using True i new(1,2) by (cases "db_clients d") (simp_all add: add_client_with_options_def Let_def)
    moreover have "change H J net part R T (db_clients d) (db_clients d @ [?y])"
      by (rule added) (use new(3-7) assms(2) True in \<open>simp_all add: role_bound_def\<close>)
    ultimately show ?thesis by simp
  qed
qed (simp add: add_client_with_options_def edited)

lemma merge_changes:
  assumes "\<forall>c\<in>set incoming. R c" "now \<le> T"
  shows "(change H J net part R T)\<^sup>*\<^sup>* (db_clients d) (db_clients (snd (merge_from_json H J net part now incoming d)))"
proof -
  have "(change H J net part R T)\<^sup>*\<^sup>* cs (foldl (after_record H J net part) cs incoming)" for cs
    using assms(1)
    by (induction incoming arbitrary: cs) (simp, metis converse_rtranclp_into_rtranclp foldl_Cons list.set_intros change.merged)
  moreover have "db_clients (snd (merge_from_json H J net part now incoming d)) = db_clients (snd (merge_clients H J net part now incoming d))"
    by (simp add: merge_from_json_def split: prod.splits)
  ultimately show ?thesis by (metis merge_clients_list rtranclp.rtrancl_into_rtrancl reaped [OF assms(2)])
qed

lemma client_op_changes:
  assumes "client_op H J net part R now d f" "partition_ok net part" "T - TOMBSTONE_TTL \<le> now" "now \<le> T"
  shows "(change H J net part R T)\<^sup>*\<^sup>* (db_clients d) (db_clients (snd (f d)))"
  using assms(1)
proof cases
  case op_merge
  then show ?thesis using merge_changes assms(4) by simp
qed (use assms(2,3) in \<open>simp_all add: r_into_rtranclp insert_client_change add_options_change edited
      enroll_edits reset_edits remove_edits update_edits qos_edits\<close>)

end
