(* ===== verification/Client_Run.thy ===== *)
theory Client_Run
  imports Client_Db
begin

text \<open>
  Runs of a process on the client database: memory, the file on disk, transactions, reloads and
  restarts.  The invariants are those of the changes of \<open>Client_Db\<close>, carried over the absorption of
  the file and the rollback.
\<close>

section \<open>Memory and disk\<close>

text \<open>A record without its counters, which only memory is sure to hold.\<close>

definition identity :: "ClientConfig \<Rightarrow> ClientConfig" where
  "identity c = c \<lparr>cc_stats := ClientStats_default\<rparr>"

lemma identity_eq: "identity c = identity d \<longleftrightarrow> (\<exists>s. d = c \<lparr>cc_stats := s\<rparr>)"
proof
  assume "identity c = identity d"
  then have "d = c \<lparr>cc_stats := cc_stats d\<rparr>" unfolding identity_def by (cases c; cases d) simp
  then show "\<exists>s. d = c \<lparr>cc_stats := s\<rparr>" ..
qed (auto simp: identity_def)

lemma identity_edit: "identity c = identity d \<Longrightarrow> edit T c d"
  by (auto simp: identity_eq)

lemma identity_fields: "identity c = identity d \<Longrightarrow> cc_id c = cc_id d \<and> cc_deleted c = cc_deleted d"
  by (auto simp: identity_eq)

lemma edits_identity: "map identity cs' = map identity cs \<Longrightarrow> edits T cs cs'"
proof (induction cs arbitrary: cs')
  case (Cons c cs)
  then obtain c' cs2 where "cs' = c' # cs2" "identity c = identity c'" "map identity cs2 = map identity cs" by (cases cs') auto
  then show ?case using Cons.IH [of cs2] identity_edit [of c c' T] by (simp add: edits_def)
qed simp

definition in_sync :: "ClientConfig list \<Rightarrow> ClientConfig list \<Rightarrow> bool" where
  "in_sync mem disk \<longleftrightarrow>
     identity ` set mem \<subseteq> identity ` set disk \<and>
     (\<forall>d\<in>set disk. identity d \<in> identity ` set mem \<or> (cc_deleted d \<and> cc_id d \<notin> cc_id ` set mem))"
lemma identity_ids: "identity d \<in> identity ` set cs \<Longrightarrow> cc_id d \<in> cc_id ` set cs"
proof -
  assume "identity d \<in> identity ` set cs"
  then obtain c where "c \<in> set cs" "identity d = identity c" by blast
  then show ?thesis using identity_fields [of d c] by simp
qed

lemma find_id: "find (\<lambda>c. cc_id c = i) cs = None \<longleftrightarrow> i \<notin> cc_id ` set cs"
  by (auto simp: find_None_iff image_iff)

lemma map_update_first_in:
  "(\<And>x. x \<in> set xs \<Longrightarrow> P x \<Longrightarrow> g (f x) = g x) \<Longrightarrow> map g (update_first P f xs) = map g xs"
  by (induction xs) auto

lemma absorb_same: "identity d = identity c \<Longrightarrow> identity (absorb_one_client H J c d) = identity c"
  by (auto simp: identity_eq [of c d] eq_commute [of "identity d"] absorb_one_client_def Let_def identity_def split: option.splits)

lemma absorb_loop_sync:
  assumes "distinct (map cc_id cs)" "distinct (map cc_id ds)"
    "\<forall>d\<in>set ds. identity d \<in> identity ` set cs \<or> (cc_deleted d \<and> cc_id d \<notin> cc_id ` set cs)"
  shows "(change H J net part R T)\<^sup>*\<^sup>* cs (absorb_loop H J cs ds) \<and>
    identity ` set (absorb_loop H J cs ds) = identity ` set cs \<union> identity ` set ds \<and>
    distinct (map cc_id (absorb_loop H J cs ds))"
  using assms
proof (induction ds arbitrary: cs)
  case (Cons d ds)
  define cs' where "cs' = absorb_client H J cs d"
  have "change H J net part R T cs cs' \<and> identity ` set cs' = insert (identity d) (identity ` set cs) \<and>
    cc_id ` set cs' = insert (cc_id d) (cc_id ` set cs) \<and> distinct (map cc_id cs')"
  proof (cases "cc_id d \<in> cc_id ` set cs")
    case True
    then have f: "find (\<lambda>c. cc_id c = cc_id d) cs \<noteq> None" by (auto simp: find_id)
    have i: "identity d \<in> identity ` set cs" using Cons.prems(3) True by auto
    have "identity d = identity c" if "c \<in> set cs" "cc_id c = cc_id d" for c
    proof -
      obtain c0 where "c0 \<in> set cs" "identity d = identity c0" using i by blast
      then show ?thesis using that Cons.prems(1) identity_fields [of d c0] by (auto simp: distinct_map dest: inj_onD)
    qed
    then have m: "map identity cs' = map identity cs"
      using f unfolding cs'_def absorb_client_def by (simp add: map_update_first_in absorb_same)
    have "map cc_id cs' = map cc_id cs" using edits_ids [OF edits_identity [OF m]] .
    then show ?thesis using m i True Cons.prems(1) edited [OF edits_identity [OF m]]
      by (metis insert_absorb list.set_map)
  next
    case False
    then have "find (\<lambda>c. cc_id c = cc_id d) cs = None" by (auto simp: find_id)
    moreover have "cc_deleted d" using Cons.prems(3) False identity_ids [of d cs] by auto
    ultimately show ?thesis using False Cons.prems(1) by (simp add: cs'_def absorb_client_def buried)
  qed
  note s = this
  have "cc_id x \<noteq> cc_id d" if "x \<in> set ds" for x using Cons.prems(2) that by (auto simp: image_iff)
  then have "\<forall>d\<in>set ds. identity d \<in> identity ` set cs' \<or> (cc_deleted d \<and> cc_id d \<notin> cc_id ` set cs')"
    using Cons.prems(3) s by simp
  then have ih: "(change H J net part R T)\<^sup>*\<^sup>* cs' (absorb_loop H J cs' ds)"
    "identity ` set (absorb_loop H J cs' ds) = identity ` set cs' \<union> identity ` set ds"
    "distinct (map cc_id (absorb_loop H J cs' ds))" using Cons.IH [of cs'] s Cons.prems(2) by auto
  have "absorb_loop H J cs (d # ds) = absorb_loop H J cs' ds" by (simp add: cs'_def)
  moreover have "(change H J net part R T)\<^sup>*\<^sup>* cs (absorb_loop H J cs' ds)"
    using s ih(1) by (intro converse_rtranclp_into_rtranclp [of _ cs cs']) simp_all
  ultimately show ?case using ih(2,3) s by simp
qed simp

lemma in_sync_identity: "map identity cs' = map identity cs \<Longrightarrow> in_sync cs ds \<Longrightarrow> in_sync cs' ds"
  using edits_ids [OF edits_identity, of cs' cs] unfolding in_sync_def by (metis list.set_map)

lemma in_sync_refl [simp]: "in_sync cs cs"
  by (simp add: in_sync_def)

definition disk_clients :: "ClientDbFile option \<Rightarrow> ClientConfig list" where
  "disk_clients disk = (case disk of None \<Rightarrow> [] | Some d \<Rightarrow> db_clients d)"

lemma disk_clients_simps [simp]: "disk_clients None = []" "disk_clients (Some d) = db_clients d"
  by (simp_all add: disk_clients_def)

lemma reap_sync:
  assumes "identity ` set cs = identity ` set ds" "distinct (map cc_id cs)"
  shows "in_sync (reap_expired_tombstones now cs) ds"
proof -
  have "identity d \<in> identity ` set (reap_expired_tombstones now cs) \<or>
    (cc_deleted d \<and> cc_id d \<notin> cc_id ` set (reap_expired_tombstones now cs))" if "d \<in> set ds" for d
  proof -
    obtain c where c: "c \<in> set cs" "identity d = identity c" using assms(1) \<open>d \<in> set ds\<close> by blast
    then have f: "cc_id d = cc_id c" "cc_deleted d = cc_deleted c" using identity_fields [of d c] by simp_all
    show ?thesis
    proof (cases "c \<in> set (reap_expired_tombstones now cs)")
      case True
      then show ?thesis using c by simp
    next
      case False
      then have "cc_deleted c" using c(1) by (auto simp: reap_expired_tombstones_def)
      moreover have "cc_id c \<noteq> cc_id c'" if "c' \<in> set (reap_expired_tombstones now cs)" for c'
        using that False c(1) assms(2) by (auto simp: reap_expired_tombstones_def distinct_map dest: inj_onD)
      ultimately show ?thesis using f by (auto simp: image_iff)
    qed
  qed
  moreover have "identity ` set (reap_expired_tombstones now cs) \<subseteq> identity ` set ds"
    unfolding assms(1) [symmetric] by (auto simp: reap_expired_tombstones_def)
  ultimately show ?thesis by (simp add: in_sync_def)
qed

lemma absorb_disk_sync:
  assumes "in_sync (db_clients mem) (disk_clients disk)" "distinct (map cc_id (db_clients mem))"
    "distinct (map cc_id (disk_clients disk))" "now \<le> T" "snapshot = Inr disk \<or> (\<exists>e. snapshot = Inl e)"
  shows "(change H J net part R T)\<^sup>*\<^sup>* (db_clients mem) (db_clients (snd (absorb_disk_locked H J now snapshot mem))) \<and>
    in_sync (db_clients (snd (absorb_disk_locked H J now snapshot mem))) (disk_clients disk)"
  using assms(5)
proof
  assume s: "snapshot = Inr disk"
  define cs where "cs = absorb_loop H J (db_clients mem) (disk_clients disk)"
  have a: "(change H J net part R T)\<^sup>*\<^sup>* (db_clients mem) cs" "distinct (map cc_id cs)"
    "identity ` set cs = identity ` set (db_clients mem) \<union> identity ` set (disk_clients disk)"
    using absorb_loop_sync [OF assms(2,3)] assms(1) by (simp_all add: cs_def in_sync_def)
  have "identity ` set cs = identity ` set (disk_clients disk)" using a(3) assms(1) by (auto simp: in_sync_def)
  note r = reap_sync [OF this a(2), of now]
  have "db_clients (snd (absorb_disk_locked H J now snapshot mem)) = reap_expired_tombstones now cs"
    by (cases disk) (simp_all add: s absorb_disk_locked_def cs_def Let_def)
  then show ?thesis using r rtranclp.rtrancl_into_rtrancl [OF a(1) reaped [OF assms(4)]] by simp
next
  assume "\<exists>e. snapshot = Inl e"
  then show ?thesis using assms(1) by (auto simp: absorb_disk_locked_def)
qed

lemma restore_identity:
  "map identity (db_clients (restore_preserving_traffic current snapshot)) = map identity (db_clients snapshot)"
  by (simp add: restore_preserving_traffic_def identity_def split: option.splits)

lemma with_mutation_cases:
  assumes "with_mutation H J now file_lock snapshot written f data = (r, data')"
  obtains (locked) e where "r = Inl e" "data' = data"
  | (unread) e where "r = Inl e" "data' = snd (absorb_disk_locked H J now snapshot data)"
  | (rollback) e d where "r = Inl e" "data' = restore_preserving_traffic d (snd (absorb_disk_locked H J now snapshot data))"
  | (committed) x where "r = Inr x" "f (snd (absorb_disk_locked H J now snapshot data)) = (Inr x, data')"
proof (cases file_lock)
  case (Inl e)
  then show thesis using assms by (intro locked [of e]) (simp_all add: with_mutation_def)
next
  case (Inr u)
  obtain a d where a: "absorb_disk_locked H J now snapshot data = (a, d)" by (cases "absorb_disk_locked H J now snapshot data")
  obtain q d' where f: "f d = (q, d')" by (cases "f d")
  show thesis
  proof (cases a)
    case (Inl e)
    then show thesis using assms a \<open>file_lock = Inr u\<close> by (intro unread [of e]) (simp_all add: with_mutation_def)
  next
    case b: (Inr b)
    note w = assms [unfolded with_mutation_def \<open>file_lock = Inr u\<close> a b sum.case prod.case f]
    show thesis
    proof (cases "\<exists>x. q = Inr x \<and> (\<exists>y. written = Inr y)")
      case True
      then obtain x y where "q = Inr x" "written = Inr y" by blast
      then show thesis using w a f by (intro committed [of x]) simp_all
    next
      case False
      then have "\<exists>e. r = Inl e \<and> data' = restore_preserving_traffic d' d" using w by (cases q; cases written) auto
      then obtain e where "r = Inl e" "data' = restore_preserving_traffic d' d" by blast
      then show thesis using a by (intro rollback [of e d']) simp_all
    qed
  qed
qed

lemma with_mutation_sync:
  assumes "in_sync (db_clients mem) (disk_clients disk)" "distinct (map cc_id (db_clients mem))"
    "distinct (map cc_id (disk_clients disk))" "T - TOMBSTONE_TTL \<le> now" "now \<le> T" "snapshot = Inr disk \<or> (\<exists>e. snapshot = Inl e)"
    "client_op H J net part R now (snd (absorb_disk_locked H J now snapshot mem)) f" "partition_ok net part"
    "with_mutation H J now file_lock snapshot written f mem = (r, mem')"
  shows "(change H J net part R T)\<^sup>*\<^sup>* (db_clients mem) (db_clients mem') \<and>
    in_sync (db_clients mem') (disk_clients (if r = Inr () then Some mem' else disk))"
proof -
  let ?d = "snd (absorb_disk_locked H J now snapshot mem)"
  note a = absorb_disk_sync [OF assms(1,2,3,5,6), of H J net part R]
  from assms(9) show ?thesis
  proof (cases rule: with_mutation_cases)
    case (rollback e d)
    note i = restore_identity [of d ?d]
    have "(change H J net part R T)\<^sup>*\<^sup>* (db_clients mem) (db_clients mem')"
      unfolding rollback(2) by (rule rtranclp.rtrancl_into_rtrancl [OF conjunct1 [OF a] edited [OF edits_identity [OF i]]])
    then show ?thesis using rollback a in_sync_identity [OF i] by simp
  next
    case (committed x)
    then show ?thesis using rtranclp_trans [OF conjunct1 [OF a] client_op_changes [OF assms(7,8,4,5)]] by simp
  qed (use a assms(1) in simp_all)
qed

section \<open>Runs of one process\<close>

text \<open>
  A state is the database in memory and the file on disk.  The file changes only by the atomic
  replacement at the end of a successful transaction; a restart reads it back.
\<close>

inductive db_step ::
    "(bytes \<Rightarrow> bytes) \<Rightarrow> (ClientQos option \<Rightarrow> bytes) \<Rightarrow> VpnNetworkConfig \<Rightarrow> PartitionBounds option \<Rightarrow>
     (ClientConfig \<Rightarrow> bool) \<Rightarrow> datetime \<Rightarrow> ClientDbFile \<times> ClientDbFile option \<Rightarrow> ClientDbFile \<times> ClientDbFile option \<Rightarrow> bool"
  for H J net part R T where
  transact: "snapshot = Inr disk \<or> (\<exists>e. snapshot = Inl e) \<Longrightarrow> T - TOMBSTONE_TTL \<le> now \<Longrightarrow> now \<le> T \<Longrightarrow>
    client_op H J net part R now (snd (absorb_disk_locked H J now snapshot mem)) f \<Longrightarrow>
    with_mutation H J now file_lock snapshot written f mem = (r, mem') \<Longrightarrow>
    db_step H J net part R T (mem, disk) (mem', if r = Inr () then Some mem' else disk)"
| reload: "snapshot = Inr disk \<or> (\<exists>e. snapshot = Inl e) \<Longrightarrow> now \<le> T \<Longrightarrow>
    reload_from_disk H J now file_lock snapshot mem = (b, mem') \<Longrightarrow> db_step H J net part R T (mem, disk) (mem', disk)"
| handshake: "db_step H J net part R T (mem, disk) (record_handshake now i mem, disk)"
| traffic: "db_step H J net part R T (mem, disk) (record_traffic now i bin bout mem, disk)"
| restart: "now \<le> T \<Longrightarrow> load net now live_guard (Inr disk) = Inr mem' \<Longrightarrow>
    db_step H J net part R T (mem, disk) (mem', disk)"

definition db_ok :: "VpnNetworkConfig \<Rightarrow> ClientDbFile \<times> ClientDbFile option \<Rightarrow> bool" where
  "db_ok net s \<longleftrightarrow>
     (case s of (mem, disk) \<Rightarrow>
        addresses_ok net (db_clients mem) \<and> addresses_ok net (disk_clients disk) \<and> in_sync (db_clients mem) (disk_clients disk))"

lemma db_okD:
  assumes "db_ok net (mem, disk)"
  shows "addresses_ok net (db_clients mem)" "addresses_ok net (disk_clients disk)"
    "in_sync (db_clients mem) (disk_clients disk)" "distinct (map cc_id (db_clients mem))" "distinct (map cc_id (disk_clients disk))"
  using assms by (simp_all add: db_ok_def addresses_ok_def)

lemma load_clients: "load net now live_guard (Inr disk) = Inr mem \<Longrightarrow> db_clients mem = reap_expired_tombstones now (disk_clients disk)"
  by (cases "vnc_validate net"; cases live_guard; cases disk)
    (auto simp: load_def Let_def ClientDbFile_default_def)

lemma record_identity:
  "map identity (db_clients (record_handshake now i mem)) = map identity (db_clients mem)"
  "map identity (db_clients (record_traffic now i bin bout mem)) = map identity (db_clients mem)"
  by (simp_all add: record_handshake_def record_traffic_def map_update_first_in identity_def)

text \<open>A step is a sequence of changes, or a restart.\<close>

lemma db_step_changes:
  assumes "db_step H J net part R T (mem, disk) (mem', disk')" "partition_ok net part" "db_ok net (mem, disk)"
  shows "((change H J net part R T)\<^sup>*\<^sup>* (db_clients mem) (db_clients mem') \<and> (disk' = disk \<or> disk' = Some mem') \<and>
      in_sync (db_clients mem') (disk_clients disk')) \<or>
    (disk' = disk \<and> (\<exists>now\<le>T. db_clients mem' = reap_expired_tombstones now (disk_clients disk)))"
  using assms(1)
proof cases
  case (transact snapshot now f file_lock written r)
  show ?thesis
    using with_mutation_sync [OF db_okD(3,4,5) [OF assms(3)] transact(3,4,2,5) assms(2) transact(6)] transact(1) by simp
next
  case (reload snapshot now file_lock b)
  have "mem' = mem \<or> mem' = snd (absorb_disk_locked H J now snapshot mem)"
    using reload(4) by (auto simp: reload_from_disk_def split: sum.splits)
  then show ?thesis
    using absorb_disk_sync [OF db_okD(3,4,5) [OF assms(3)] reload(3,2), of H J net part R] reload(1) db_okD(3) [OF assms(3)] by auto
next
  case (restart now live_guard)
  then show ?thesis using load_clients by blast
qed (use db_okD(3) [OF assms(3)] record_identity [THEN in_sync_identity] record_identity [THEN edits_identity, THEN edited]
    in \<open>simp_all add: r_into_rtranclp\<close>)

lemma db_step_cases:
  assumes "db_step H J net part R T s s'" "partition_ok net part" "db_ok net s"
  obtains (changes) mem disk mem' disk' where "s = (mem, disk)" "s' = (mem', disk')"
      "(change H J net part R T)\<^sup>*\<^sup>* (db_clients mem) (db_clients mem')" "disk' = disk \<or> disk' = Some mem'"
      "in_sync (db_clients mem') (disk_clients disk')"
  | (restarts) mem disk mem' now where "s = (mem, disk)" "s' = (mem', disk)" "now \<le> T"
      "db_clients mem' = reap_expired_tombstones now (disk_clients disk)"
proof -
  obtain mem disk mem' disk' where s: "s = (mem, disk)" "s' = (mem', disk')" by (cases s; cases s')
  from db_step_changes [OF assms(1) [unfolded s] assms(2) assms(3) [unfolded s]]
  show thesis by (rule disjE) (use changes restarts s in blast)+
qed

lemma db_step_ok:
  assumes "db_step H J net part R T s s'" "partition_ok net part" "db_ok net s"
  shows "db_ok net s'"
  using assms
proof (cases rule: db_step_cases)
  case (changes mem disk mem' disk')
  have "addresses_ok net (db_clients mem')"
    by (rule changes_keep [OF changes(3)]) (use change_addresses assms(2) db_okD(1) assms(3) changes(1) in auto)
  then show ?thesis using changes db_okD(2) assms(3) by (auto simp: db_ok_def)
next
  case (restarts mem disk mem' now)
  then show ?thesis using db_okD(2,5) [of net mem disk] assms(3) reap_sync [of "disk_clients disk"] by (simp add: db_ok_def addresses_reap)
qed

lemma db_steps_ok:
  "(db_step H J net part R T)\<^sup>*\<^sup>* s s' \<Longrightarrow> partition_ok net part \<Longrightarrow> db_ok net s \<Longrightarrow> db_ok net s'"
  by (induction rule: rtranclp_induct) (auto intro: db_step_ok)

lemma load_ok:
  assumes "load net now live_guard (Inr disk) = Inr mem" "addresses_ok net (disk_clients disk)"
  shows "db_ok net (mem, disk)"
  using load_clients [OF assms(1)] assms(2) reap_sync [of "disk_clients disk"]
  by (simp add: db_ok_def addresses_reap addresses_ok_def [of net "disk_clients disk"])

text \<open>The states of a process that started on the file \<open>disk\<close>.\<close>

definition db_run ::
    "(bytes \<Rightarrow> bytes) \<Rightarrow> (ClientQos option \<Rightarrow> bytes) \<Rightarrow> VpnNetworkConfig \<Rightarrow> PartitionBounds option \<Rightarrow>
     (ClientConfig \<Rightarrow> bool) \<Rightarrow> datetime \<Rightarrow> ClientDbFile option \<Rightarrow> ClientDbFile \<times> ClientDbFile option \<Rightarrow> bool" where
  "db_run H J net part R T disk s \<longleftrightarrow>
     (\<exists>now live_guard mem. now \<le> T \<and> load net now live_guard (Inr disk) = Inr mem \<and> (db_step H J net part R T)\<^sup>*\<^sup>* (mem, disk) s)"

lemma db_run_ok:
  "db_run H J net part R T disk s \<Longrightarrow> partition_ok net part \<Longrightarrow> addresses_ok net (disk_clients disk) \<Longrightarrow> db_ok net s"
  unfolding db_run_def using db_steps_ok load_ok by blast

lemma find_unique:
  assumes "c \<in> set cs" "P c" "\<And>x. x \<in> set cs \<Longrightarrow> P x \<Longrightarrow> x = c"
  shows "find P cs = Some c"
proof (cases "find P cs")
  case None
  then show ?thesis using assms(1,2) by (simp add: find_None_iff)
next
  case (Some x)
  then show ?thesis using find_split [OF Some] assms(3) [of x] by auto
qed

lemma addresses_unique:
  assumes "addresses_ok net (db_clients d)" "c \<in> set (list_clients d)"
  shows "find_by_vpn_ip d (cc_vpn_ip c) = Some c" "find_by_id d (cc_id c) = Some c"
proof -
  have c: "c \<in> set (db_clients d)" "\<not> cc_deleted c" using assms(2) by (simp_all add: list_clients_def)
  have i: "inj_on cc_id (set (db_clients d))" "inj_on cc_vpn_ip {x \<in> set (db_clients d). \<not> cc_deleted x}"
    using assms(1) by (simp_all add: addresses_ok_def distinct_map live_ips_def)
  show "find_by_id d (cc_id c) = Some c"
    unfolding find_by_id_def by (rule find_unique) (use c inj_onD [OF i(1)] in auto)
  show "find_by_vpn_ip d (cc_vpn_ip c) = Some c"
    unfolding find_by_vpn_ip_def by (rule find_unique) (use c inj_onD [OF i(2), of _ c] in auto)
qed

lemma steps_bound:
  assumes "(db_step H J net part role_bound T)\<^sup>*\<^sup>* s s'" "partition_ok net part" "db_ok net s" "\<forall>c\<in>set (db_clients (fst s)). role_bound c"
  shows "\<forall>c\<in>set (db_clients (fst s')). role_bound c"
  using assms(1,4)
proof (induction rule: rtranclp_induct)
  case (step s1 s2)
  have ok: "db_ok net s1" using db_steps_ok [OF step(1) assms(2,3)] .
  from step(2) assms(2) ok show ?case
  proof (cases rule: db_step_cases)
    case (changes mem disk mem' disk')
    have "\<forall>c\<in>set (db_clients mem'). role_bound c"
      using step(3) [OF step(4)] changes(1)
      by - (rule changes_keep [OF changes(3), of "\<lambda>cs. \<forall>c\<in>set cs. role_bound c"], erule (1) change_bound, simp)
    then show ?thesis using changes(2) by simp
  next
    case (restarts mem disk mem' now)
    have "role_bound d" if "d \<in> set (disk_clients disk)" for d
    proof (cases "cc_deleted d")
      case False
      then have "identity d \<in> identity ` set (db_clients mem)"
        using db_okD(3) [OF ok [unfolded restarts(1)]] that unfolding in_sync_def by blast
      then obtain c where c: "c \<in> set (db_clients mem)" "identity d = identity c" by blast
      then show ?thesis using step(3,4) restarts(1) identity_edit [OF c(2) [symmetric]] by (simp add: edit_def)
    qed (simp add: role_bound_def)
    then show ?thesis using restarts(2,4) by (simp add: reap_expired_tombstones_def)
  qed
qed simp

lemma steps_revoked:
  assumes "(db_step H J net part R T)\<^sup>*\<^sup>* s s'" "partition_ok net part" "db_ok net s" "revoked_id T i (db_clients (fst s))"
  shows "revoked_id T i (db_clients (fst s'))"
  using assms(1,4)
proof (induction rule: rtranclp_induct)
  case (step s1 s2)
  have ok: "db_ok net s1" using db_steps_ok [OF step(1) assms(2,3)] .
  from step(2) assms(2) ok show ?case
  proof (cases rule: db_step_cases)
    case (changes mem disk mem' disk')
    have "revoked_id T i (db_clients mem')"
      using step(3) [OF step(4)] changes(1)
      by - (rule changes_keep [OF changes(3), of "revoked_id T i"], erule (1) change_revoked, simp)
    then show ?thesis using changes(2) by simp
  next
    case (restarts mem disk mem' now)
    obtain c where c: "c \<in> set (db_clients mem)" "cc_id c = i" "revoked T c"
      using step(3,4) restarts(1) by (auto simp: revoked_id_def)
    have "identity c \<in> identity ` set (disk_clients disk)"
      using db_okD(3) [OF ok [unfolded restarts(1)]] c(1) unfolding in_sync_def by blast
    then obtain d where d: "d \<in> set (disk_clients disk)" "identity c = identity d" by blast
    have "cc_id d = i" "revoked T d" using identity_edit [OF d(2), of T] c(2,3) unfolding edit_def by simp_all
    then have "revoked_id T i (disk_clients disk)" using d(1) unfolding revoked_id_def by blast
    then show ?thesis using change_revoked [OF reaped [OF restarts(3)]] restarts(2,4) by simp
  qed
qed simp

lemma revoked_not_found:
  assumes "addresses_ok net (db_clients d)" "revoked_id T i (db_clients d)"
  shows "find_by_id d i = None"
proof -
  obtain c where c: "c \<in> set (db_clients d)" "cc_id c = i" "cc_deleted c"
    using assms(2) by (auto simp: revoked_id_def revoked_def)
  have "inj_on cc_id (set (db_clients d))" using assms(1) by (simp add: addresses_ok_def distinct_map)
  then have "x = c" if "x \<in> set (db_clients d)" "cc_id x = i" for x using that c(1,2) by (auto dest: inj_onD)
  then show ?thesis using c(3) by (auto simp: find_by_id_def find_None_iff)
qed

lemma remove_revokes:
  assumes "remove_client now i d = (Inr (), d')"
  shows "revoked_id (now + TOMBSTONE_TTL) i (db_clients d')"
proof (cases "find (\<lambda>c. cc_id c = i \<and> \<not> cc_deleted c) (db_clients d)")
  case None
  then show ?thesis using assms by (simp add: remove_client_def on_client_def)
next
  case (Some c)
  from find_split [OF Some] obtain us vs where s: "db_clients d = us @ c # vs" "cc_id c = i \<and> \<not> cc_deleted c"
    "\<forall>u\<in>set us. \<not> (cc_id u = i \<and> \<not> cc_deleted u)" by blast
  have "db_clients d' = us @ c \<lparr>cc_deleted := True, cc_enabled := False, cc_device_pubkey := None, cc_updated_at := Some now\<rparr> # vs"
    using assms Some update_first_split [OF s(3,2), of _ vs] s(1) by (auto simp: remove_client_def on_client_def)
  then show ?thesis using s(2) by (auto simp: revoked_id_def revoked_def)
qed

text \<open>
  C7: Addresses stay unique.  A process that starts on a file with unique ids and addresses, and
  then runs any sequence of additions, enrollments, updates, revocations, merges of arbitrary
  peer records, failed transactions, reloads and restarts, never has two live clients with
  one address and never hands out the server's: a lookup by the address of a live client
  finds this client, and so does a lookup by its id.
\<close>

theorem addresses_stay_unique:
  assumes "partition_ok net part" "addresses_ok net (disk_clients disk)" "db_run H J net part R T disk (mem', disk')"
    "c \<in> set (list_clients mem')"
  shows "find_by_vpn_ip mem' (cc_vpn_ip c) = Some c \<and> find_by_id mem' (cc_id c) = Some c \<and> cc_vpn_ip c \<noteq> vnc_server_vpn_ip net"
proof -
  have a: "addresses_ok net (db_clients mem')" using db_okD(1) [OF db_run_ok [OF assms(3,1,2)]] .
  then have "cc_vpn_ip c \<noteq> vnc_server_vpn_ip net"
    using assms(4) by (auto simp: addresses_ok_def live_ips_iff list_clients_def)
  then show ?thesis using addresses_unique [OF a assms(4)] by simp
qed

text \<open>
  C8: A revocation holds.  Once a transaction that removes a client has succeeded, no sequence of
  operations of the next thirty days makes the client appear again: not a merge of a peer's
  live copy however new, not an update, not a restart.
\<close>

theorem revocation_is_sticky:
  assumes "partition_ok net part" "addresses_ok net (disk_clients disk0)" "db_run H J net part R T disk0 (mem, disk)"
    "with_mutation H J now file_lock (Inr disk) written (\<lambda>d. outcome (remove_client now i d)) mem = (Inr (), mem1)"
    "(db_step H J net part R (now + TOMBSTONE_TTL))\<^sup>*\<^sup>* (mem1, Some mem1) (mem2, disk2)"
  shows "find_by_id mem2 i = None"
proof -
  note ok = db_run_ok [OF assms(3,1,2)]
  let ?d = "snd (absorb_disk_locked H J now (Inr disk) mem)"
  have op: "client_op H J net part R now ?d (\<lambda>d. outcome (remove_client now i d))" by (rule op_remove)
  have step: "db_step H J net part R now (mem, disk) (mem1, if Inr () = (Inr () :: unit result) then Some mem1 else disk)"
    by (rule transact [OF _ _ _ op assms(4)]) (simp_all add: TOMBSTONE_TTL_def)
  then have ok1: "db_ok net (mem1, Some mem1)" using db_step_ok [OF step assms(1) ok] by simp
  have "outcome (remove_client now i ?d) = (Inr (), mem1)"
    using assms(4) by (cases rule: with_mutation_cases) simp_all
  then have "remove_client now i ?d = (Inr (), mem1)"
    by (cases "remove_client now i ?d") (auto simp: outcome_def split: sum.splits)
  from remove_revokes [OF this] have "revoked_id (now + TOMBSTONE_TTL) i (db_clients mem2)"
    using steps_revoked [OF assms(5,1) ok1] by simp
  then show ?thesis using revoked_not_found [OF db_okD(1) [OF db_steps_ok [OF assms(5,1) ok1]]] by simp
qed

text \<open>
  C11: Whoever holds a management role is bound to a device: the invariant of every record of the file
  and of the records peers send is kept by every operation, so no run gives an unbound client
  the role of an administrator.
\<close>

theorem elevated_roles_bound:
  assumes "partition_ok net part" "addresses_ok net (disk_clients disk)" "\<forall>c\<in>set (disk_clients disk). role_bound c"
    "db_run H J net part role_bound T disk (mem', disk')" "c \<in> set (list_clients mem')" "cc_role c \<noteq> User"
  shows "cc_device_pubkey c \<noteq> None"
proof -
  obtain now live_guard mem where r: "now \<le> T" "load net now live_guard (Inr disk) = Inr mem"
    "(db_step H J net part role_bound T)\<^sup>*\<^sup>* (mem, disk) (mem', disk')" using assms(4) unfolding db_run_def by blast
  have "\<forall>c\<in>set (db_clients mem). role_bound c" using load_clients [OF r(2)] assms(3) by (simp add: reap_expired_tombstones_def)
  then have "role_bound c"
    using steps_bound [OF r(3) assms(1) load_ok [OF r(2) assms(2)]] assms(5) by (simp add: list_clients_def)
  then show ?thesis using assms(5,6) by (simp add: role_bound_def list_clients_def)
qed

text \<open>A run: a process on an empty disk merges a peer's record of a bound administrator.\<close>

definition sample_admin :: "datetime \<Rightarrow> ClientConfig" where
  "sample_admin updated =
     sample_client (ascii ''a'') (ascii ''n'') 0x0A000005 updated False \<lparr>cc_role := Admin, cc_device_pubkey := Some [1]\<rparr>"

definition sample_db :: ClientDbFile where
  "sample_db = \<lparr>db_clients = [sample_admin 0], db_next_host_offset = db_next_host_offset ClientDbFile_default\<rparr>"

lemma sample_admin_fields [simp]:
  "cc_id (sample_admin t) = ascii ''a''" "cc_vpn_ip (sample_admin t) = 0x0A000005" "\<not> cc_deleted (sample_admin t)"
  "cc_role (sample_admin t) = Admin" "cc_device_pubkey (sample_admin t) = Some [1]" "cc_psk (sample_admin t) = [7]"
  by (simp_all add: sample_admin_def sample_client_def)

lemma small_network_valid: "vnc_validate small_network = Inr ()"
  by (simp add: small_network_def vnc_validate_def default_VpnNetworkConfig_def network_addr_def broadcast_addr_def network_u32_def
      mask_u32_def mask_eq_exp_minus_1 DEFAULT_VPN_MTU_def)

lemma sample_merge:
  "merge_from_json (\<lambda>_. []) (\<lambda>_. []) small_network None 0 [sample_admin 0] ClientDbFile_default = (Inr 1, sample_db)"
  by (simp add: merge_from_json_def merge_clients_def merge_record_def insert_live_def place_live_def
      ClientDbFile_default_def sample_db_def small_network_base reap_expired_tombstones_def)

lemma sample_run: "db_run (\<lambda>_. []) (\<lambda>_. []) small_network None role_bound 0 None (sample_db, Some sample_db)"
proof -
  let ?f = "\<lambda>d. outcome (merge_from_json (\<lambda>_. []) (\<lambda>_. []) small_network None 0 [sample_admin 0] d)"
  have l: "load small_network 0 (Inr ()) (Inr None) = Inr ClientDbFile_default"
    by (simp add: load_def small_network_valid reap_expired_tombstones_def ClientDbFile_default_def)
  have a: "snd (absorb_disk_locked (\<lambda>_. []) (\<lambda>_. []) 0 (Inr None) ClientDbFile_default) = ClientDbFile_default"
    by (simp add: absorb_disk_locked_def Let_def reap_expired_tombstones_def ClientDbFile_default_def)
  have op: "client_op (\<lambda>_. []) (\<lambda>_. []) small_network None role_bound 0 ClientDbFile_default ?f"
    by (rule op_merge) (simp add: role_bound_def)
  have w: "with_mutation (\<lambda>_. []) (\<lambda>_. []) 0 (Inr ()) (Inr None) (Inr ()) ?f ClientDbFile_default = (Inr (), sample_db)"
    using a by (simp add: with_mutation_def outcome_def sample_merge absorb_disk_locked_def Let_def)
  have "db_step (\<lambda>_. []) (\<lambda>_. []) small_network None role_bound 0 (ClientDbFile_default, None)
      (sample_db, if Inr () = (Inr () :: unit result) then Some sample_db else None)"
    by (rule transact [OF _ _ _ _ w]) (simp_all add: a op TOMBSTONE_TTL_def)
  then show ?thesis unfolding db_run_def using l by (intro exI [of _ 0] exI [of _ "Inr ()"] exI [of _ ClientDbFile_default]) auto
qed

lemma sample_premises: "partition_ok small_network None" "addresses_ok small_network (disk_clients None)"
  by (simp_all add: partition_ok_def addresses_ok_def)

theorem addresses_stay_unique_witness:
  "find_by_vpn_ip sample_db 0x0A000005 = Some (sample_admin 0)"
proof -
  have "sample_admin 0 \<in> set (list_clients sample_db)" by (simp add: sample_db_def list_clients_def)
  from addresses_stay_unique [OF sample_premises sample_run this] show ?thesis by simp
qed

theorem elevated_roles_bound_witness: "sample_admin 0 \<in> set (list_clients sample_db) \<and> cc_role (sample_admin 0) \<noteq> User \<and>
   cc_device_pubkey (sample_admin 0) \<noteq> None"
proof -
  have m: "sample_admin 0 \<in> set (list_clients sample_db)" by (simp add: sample_db_def list_clients_def)
  have b: "\<forall>c\<in>set (disk_clients None). role_bound c" by simp
  have r: "cc_role (sample_admin 0) \<noteq> User" by simp
  from elevated_roles_bound [OF sample_premises b sample_run m r] show ?thesis using m r by blast
qed

definition sample_removed :: ClientDbFile where
  "sample_removed = sample_db \<lparr>db_clients := [sample_admin 0 \<lparr>cc_deleted := True, cc_enabled := False, cc_device_pubkey := None\<rparr>]\<rparr>"

lemma sample_remove:
  "with_mutation (\<lambda>_. []) (\<lambda>_. []) 0 (Inr ()) (Inr (Some sample_db)) (Inr ()) (\<lambda>d. outcome (remove_client 0 (ascii ''a'') d)) sample_db =
   (Inr (), sample_removed)"
  by (simp add: with_mutation_def outcome_def remove_client_def on_client_def absorb_disk_locked_def Let_def sample_db_def
      sample_removed_def sample_admin_def sample_client_def absorb_client_def absorb_one_client_def max_stats_def max_opt_time_def ClientStats_default_def
      reap_expired_tombstones_def)

theorem revocation_is_sticky_witness:
  "find_by_id (snd (with_mutation (\<lambda>_. []) (\<lambda>_. []) 5 (Inr ()) (Inr (Some sample_removed)) (Inr ())
     (\<lambda>d. outcome (merge_from_json (\<lambda>_. []) (\<lambda>_. []) small_network None 5 [sample_admin 5] d)) sample_removed)) (ascii ''a'') = None"
proof -
  let ?f = "\<lambda>d. outcome (merge_from_json (\<lambda>_. []) (\<lambda>_. []) small_network None 5 [sample_admin 5] d)"
  obtain r mem2 where w: "with_mutation (\<lambda>_. []) (\<lambda>_. []) 5 (Inr ()) (Inr (Some sample_removed)) (Inr ()) ?f sample_removed = (r, mem2)"
    by fastforce
  have op: "client_op (\<lambda>_. []) (\<lambda>_. []) small_network None role_bound 5 d ?f" for d
    by (rule op_merge) (simp add: role_bound_def)
  have "(db_step (\<lambda>_. []) (\<lambda>_. []) small_network None role_bound (0 + TOMBSTONE_TTL))\<^sup>*\<^sup>* (sample_removed, Some sample_removed)
      (mem2, if r = Inr () then Some mem2 else Some sample_removed)"
    by (rule r_into_rtranclp, rule transact [OF _ _ _ op w]) (simp_all add: TOMBSTONE_TTL_def)
  from revocation_is_sticky [OF sample_premises sample_run sample_remove this]
  show ?thesis using w by simp
qed

section \<open>No lost update\<close>






end
